(* ===== verification/Prelude.thy ===== *)
theory Prelude
  imports Main "HOL-Library.AList" "HOL-Library.List_Lexorder" "HOL-Library.Char_ord"
begin

text \<open>
  Shared vocabulary of the development: the collections of rewrite rules the component
  theories fill, a lookup-or-insert view of association lists (Go maps), and generic facts
  about lists that several components use.

  Go maps are modelled by association lists with distinct keys. Where the Go code ranges over
  a map (whose order Go leaves open) the model ranges in list order, and the facts proved
  characterise the result by properties that do not mention the order.
\<close>

named_theorems inv_intros \<open>introduction rules that re-establish a component invariant\<close>
named_theorems op_simps \<open>characteristic equations of the operations of a component\<close>

subsection \<open>Association lists as Go maps\<close>

type_synonym 'v gomap = "(string \<times> 'v) list"

definition wf_map :: "'v gomap \<Rightarrow> bool" where
  "wf_map m \<longleftrightarrow> distinct (map fst m)"

lemma wf_map_empty [simp, inv_intros]: "wf_map []"
  by (simp add: wf_map_def)

lemma wf_map_update [simp, inv_intros]: "wf_map m \<Longrightarrow> wf_map (AList.update k v m)"
  by (simp add: wf_map_def distinct_update)

lemma wf_map_delete [simp, inv_intros]: "wf_map m \<Longrightarrow> wf_map (AList.delete k m)"
  by (simp add: wf_map_def distinct_delete)

lemma map_of_update [simp]: "map_of (AList.update k v m) = (map_of m)(k \<mapsto> v)"
  by (rule update_conv')

lemma map_of_delete [simp]: "map_of (AList.delete k m) = (map_of m)(k := None)"
  by (rule delete_conv')

lemma wf_map_of_iff: "wf_map m \<Longrightarrow> map_of m k = Some v \<longleftrightarrow> (k, v) \<in> set m"
  by (simp add: wf_map_def)

lemma length_update:
  "length (AList.update k v m) = (if k \<in> fst ` set m then length m else Suc (length m))"
  by (induction m) auto

lemma length_delete_le: "length (AList.delete k m) \<le> length m"
  by (simp add: AList.delete_eq)

lemma update_new: "k \<notin> fst ` set m \<Longrightarrow> AList.update k v m = m @ [(k, v)]"
  by (induction m) auto

lemma map_of_None_iff: "map_of m k = None \<longleftrightarrow> k \<notin> fst ` set m"
  by (rule map_of_eq_None_iff)

text \<open>Counting the values of a map that satisfy a predicate, under an update.\<close>

definition count_vals :: "('v \<Rightarrow> bool) \<Rightarrow> 'v gomap \<Rightarrow> nat" where
  "count_vals P m = length (filter P (map snd m))"

lemma count_vals_Nil [simp]: "count_vals P [] = 0"
  by (simp add: count_vals_def)

lemma count_vals_Cons [simp]:
  "count_vals P (kv # m) = (if P (snd kv) then Suc (count_vals P m) else count_vals P m)"
  by (simp add: count_vals_def)

lemma count_vals_append [simp]: "count_vals P (m @ m') = count_vals P m + count_vals P m'"
  by (simp add: count_vals_def)

lemma count_vals_update:
  assumes "wf_map m" and "map_of m k = Some v"
  shows "count_vals P (AList.update k v' m) + (if P v then 1 else 0) =
         count_vals P m + (if P v' then 1 else 0)"
  using assms
proof (induction m)
  case Nil
  then show ?case by simp
next
  case (Cons kv m)
  show ?case
  proof (cases "fst kv = k")
    case True
    with Cons.prems show ?thesis by (cases kv) (auto simp: wf_map_def)
  next
    case False
    from Cons.prems(1) have wf: "wf_map m" by (simp add: wf_map_def)
    from Cons.prems(2) False have "map_of m k = Some v" by (cases kv) auto
    with Cons.IH wf have "count_vals P (AList.update k v' m) + (if P v then 1 else 0) =
      count_vals P m + (if P v' then 1 else 0)" by blast
    with False show ?thesis by (cases kv) auto
  qed
qed

lemma count_vals_new:
  "k \<notin> fst ` set m \<Longrightarrow> count_vals P (AList.update k v m) = count_vals P m + (if P v then 1 else 0)"
  by (simp add: update_new)

lemma count_vals_le_length: "count_vals P m \<le> length m"
  by (simp add: count_vals_def le_trans [OF length_filter_le])

subsection \<open>Chains of checks\<close>

text \<open>A chain of early error returns succeeds when no check fires.\<close>

lemma if_Some_None: "(if c then Some e else r) = None \<longleftrightarrow> \<not> c \<and> r = None"
  by simp

lemma case_option_None:
  "(case x of None \<Rightarrow> r | Some e \<Rightarrow> Some (f e)) = None \<longleftrightarrow> x = None \<and> r = None"
  by (cases x) simp_all

lemma if_Inl_Inr: "(if c then Inl e else r) = Inr x \<longleftrightarrow> \<not> c \<and> r = Inr x"
  by simp

subsection \<open>Lists\<close>

text \<open>The last n elements of a list: what a bounded buffer retains.\<close>

definition lastn :: "nat \<Rightarrow> 'a list \<Rightarrow> 'a list" where
  "lastn n xs = drop (length xs - n) xs"

lemma lastn_short: "length xs \<le> n \<Longrightarrow> lastn n xs = xs"
  by (simp add: lastn_def)

lemma length_lastn [simp]: "length (lastn n xs) = min n (length xs)"
  by (auto simp: lastn_def)

lemma lastn_append1:
  "0 < n \<Longrightarrow> lastn n (lastn n xs @ [x]) = lastn n (xs @ [x])"
proof (cases "length xs \<le> n")
  case True
  then show ?thesis by (simp add: lastn_short)
next
  case False
  assume "0 < n"
  with False have "length xs - n + 1 = Suc (length xs) - n" by simp
  with False \<open>0 < n\<close> show ?thesis by (simp add: lastn_def)
qed

lemma set_lastn: "set (lastn n xs) \<subseteq> set xs"
  by (simp add: lastn_def set_drop_subset)

end
