(* ===== verification/Go_Time.thy ===== *)
theory Go_Time
  imports Prelude
begin

text \<open>
  Go's package time, as far as the dispatcher uses it. An instant (\<open>time.Time\<close>) is a number
  of nanoseconds since the Unix epoch, a \<open>time.Duration\<close> an int64 number of nanoseconds: an
  \<open>int\<close> with the 64-bit wrap-around written out (\<open>wrap64\<close>) where the code multiplies or adds.
\<close>

type_synonym time = int
type_synonym duration = int

definition min64 :: int where "min64 = - (2 ^ 63)"
definition max64 :: int where "max64 = 2 ^ 63 - 1"

definition wrap64 :: "int \<Rightarrow> int" where
  "wrap64 x = (x + 2 ^ 63) mod 2 ^ 64 - 2 ^ 63"

definition is64 :: "int \<Rightarrow> bool" where
  "is64 x \<longleftrightarrow> min64 \<le> x \<and> x \<le> max64"

lemmas int64_defs = min64_def max64_def is64_def

lemma wrap64_id: "is64 x \<Longrightarrow> wrap64 x = x"
  by (simp add: wrap64_def int64_defs)

lemma wrap64_is64: "is64 (wrap64 x)"
proof -
  have "0 \<le> (x + 2 ^ 63) mod 2 ^ 64" and "(x + 2 ^ 63) mod 2 ^ 64 < (2 ^ 64 :: int)"
    by simp_all
  then show ?thesis by (simp add: wrap64_def int64_defs)
qed

definition nanosecond :: duration where "nanosecond = 1"
definition millisecond :: duration where "millisecond = 1000000"
definition second :: duration where "second = 1000000000"
definition minute :: duration where "minute = 60 * second"

lemmas duration_defs = nanosecond_def millisecond_def second_def minute_def

text \<open>\<open>time.Duration(n) * time.Second\<close>: the product wraps.\<close>

definition seconds :: "int \<Rightarrow> duration" where
  "seconds n = wrap64 (n * second)"

text \<open>The zero \<open>time.Time{}\<close> (January 1, year 1 UTC).\<close>

definition zero_time :: time where
  "zero_time = - 62135596800 * second"

text \<open>\<open>t.Sub(u)\<close> saturates at the smallest and largest duration.\<close>

definition time_sub :: "time \<Rightarrow> time \<Rightarrow> duration" where
  "time_sub t u = max min64 (min max64 (t - u))"

lemma time_sub_ge_iff:
  "min64 < d \<Longrightarrow> d \<le> max64 \<Longrightarrow> d \<le> time_sub t u \<longleftrightarrow> u + d \<le> t"
  by (auto simp: time_sub_def)

end
