(* ===== verification/Backoff.thy ===== *)
theory Backoff
  imports Go_Time
begin

text \<open>
  \<open>internal/retry/backoff.go\<close>: the delay before a retry. The doubling loop is modelled with
  int64 wrap-around, so the guard that catches an overflow is part of the model. The random
  uint64 that \<open>jitter\<close> draws from crypto/rand is an argument.
\<close>

definition MaxDelay :: duration where
  "MaxDelay = wrap64 (5 * minute)"

definition jitter :: "nat \<Rightarrow> duration \<Rightarrow> duration" where
  "jitter rnd mx = (if mx \<le> 0 then 0 else int (rnd mod nat mx))"

text \<open>The loop of \<open>DelayAfterFailureCapped\<close>: \<open>k\<close> iterations are left.\<close>

fun backoff_loop :: "nat \<Rightarrow> duration \<Rightarrow> duration \<Rightarrow> duration" where
  "backoff_loop 0 mx d = d"
| "backoff_loop (Suc k) mx d =
     (if d \<ge> mx then mx
      else let d' = wrap64 (d * 2)
           in if d' < 0 \<or> d' \<ge> mx then mx else backoff_loop k mx d')"

definition DelayAfterFailureCapped ::
  "nat \<Rightarrow> duration \<Rightarrow> int \<Rightarrow> duration \<Rightarrow> duration \<Rightarrow> duration" where
  "DelayAfterFailureCapped rnd base n maxJitter maxDelay =
     (let n = (if n < 0 then 0 else n);
          base = (if base < 0 then 0 else base);
          maxJitter = (if maxJitter < 0 then 0 else maxJitter);
          maxDelay = (if maxDelay \<le> 0 then MaxDelay else maxDelay);
          d = backoff_loop (nat n) maxDelay base;
          d = (if d > maxDelay then maxDelay else d)
      in if maxJitter > 0 then wrap64 (d + jitter rnd maxJitter) else d)"

definition DelayAfterFailure :: "nat \<Rightarrow> duration \<Rightarrow> int \<Rightarrow> duration \<Rightarrow> duration" where
  "DelayAfterFailure rnd base n maxJitter =
     DelayAfterFailureCapped rnd base n maxJitter MaxDelay"

definition ShouldExhaust :: "int \<Rightarrow> int \<Rightarrow> bool" where
  "ShouldExhaust n maxRetries \<longleftrightarrow> n \<ge> maxRetries"

subsection \<open>The loop computes a capped power of two\<close>

lemma MaxDelay_value: "MaxDelay = 300000000000"
  by (simp add: MaxDelay_def duration_defs wrap64_def)

lemma jitter_bounds: "0 \<le> jitter rnd mx \<and> (0 < mx \<longrightarrow> jitter rnd mx < mx)"
proof (cases "0 < mx")
  case True
  then have "rnd mod nat mx < nat mx" by (intro mod_less_divisor) simp
  then have "int (rnd mod nat mx) < mx" using True by linarith
  with True show ?thesis by (simp add: jitter_def)
qed (simp add: jitter_def)

text \<open>
  The guard \<open>d < mx\<close> keeps the doubled value below \<open>2 ^ 64\<close>, so a wrapped product is
  negative and the code's test catches it.
\<close>

lemma double_guard:
  assumes "0 \<le> d" and "d < mx" and "mx \<le> max64"
  shows "(wrap64 (d * 2) < 0 \<or> wrap64 (d * 2) \<ge> mx) \<longleftrightarrow> d * 2 \<ge> mx"
    and "d * 2 < mx \<Longrightarrow> wrap64 (d * 2) = d * 2"
proof -
  show small: "wrap64 (d * 2) = d * 2" if "d * 2 < mx"
    using assms that by (intro wrap64_id) (simp add: int64_defs)
  show "(wrap64 (d * 2) < 0 \<or> wrap64 (d * 2) \<ge> mx) \<longleftrightarrow> d * 2 \<ge> mx"
  proof (cases "d * 2 \<le> max64")
    case True
    then have "wrap64 (d * 2) = d * 2"
      using assms by (intro wrap64_id) (simp add: int64_defs)
    with assms show ?thesis by auto
  next
    case False
    define x where "x = d * 2"
    have x: "2 ^ 63 \<le> x" "x < 2 ^ 64"
      using False assms by (simp_all add: x_def max64_def)
    have "x + 2 ^ 63 = (x - 2 ^ 63) + 2 ^ 64" by simp
    then have "(x + 2 ^ 63) mod 2 ^ 64 = (x - 2 ^ 63) mod 2 ^ 64"
      by (simp only: mod_add_self2)
    also have "\<dots> = x - 2 ^ 63" using x by (intro mod_pos_pos_trivial) simp_all
    finally have "wrap64 x = x - 2 ^ 64" by (simp add: wrap64_def)
    with x have "wrap64 x < 0" by simp
    moreover have "mx \<le> x" using x assms(3) by (simp add: max64_def)
    ultimately show ?thesis by (simp add: x_def)
  qed
qed

lemma le_times_power2: "0 \<le> (d::int) \<Longrightarrow> d \<le> d * 2 ^ k"
  using mult_left_mono [of 1 "2 ^ k" d] by simp

lemma backoff_loop_eq:
  assumes "0 \<le> d" and "d \<le> mx" and "mx \<le> max64"
  shows "backoff_loop k mx d = min (d * 2 ^ k) mx"
  using assms
proof (induction k arbitrary: d)
  case 0
  then show ?case by simp
next
  case (Suc k)
  have mono: "d \<le> d * 2 ^ Suc k" by (rule le_times_power2 [OF Suc.prems(1)])
  show ?case
  proof (cases "d < mx")
    case False
    with Suc.prems mono show ?thesis by simp
  next
    case True
    note g = double_guard [OF Suc.prems(1) True Suc.prems(3)]
    show ?thesis
    proof (cases "d * 2 \<ge> mx")
      case capped: True
      have "d * 2 \<le> d * 2 * 2 ^ k"
        using Suc.prems(1) by (intro le_times_power2) simp
      with capped have "mx \<le> d * 2 ^ Suc k" by (simp add: mult.assoc)
      with True g(1) capped show ?thesis by (auto simp: Let_def)
    next
      case False
      then have eq: "wrap64 (d * 2) = d * 2" using g(2) by simp
      have "backoff_loop (Suc k) mx d = backoff_loop k mx (d * 2)"
        using True False g(1) eq by (auto simp: Let_def)
      also have "\<dots> = min (d * 2 * 2 ^ k) mx"
        using False Suc.prems by (intro Suc.IH) simp_all
      finally show ?thesis by (simp add: mult.assoc)
    qed
  qed
qed

lemma backoff_loop_big:
  "mx \<le> d \<Longrightarrow> backoff_loop k mx d = (if k = 0 then d else mx)"
  by (cases k) simp_all

lemma backoff_core:
  assumes "0 \<le> d" and "mx \<le> max64" and "0 < mx"
  shows "min (backoff_loop k mx d) mx = min (d * 2 ^ k) mx"
proof (cases "d \<le> mx")
  case True
  with assms show ?thesis by (simp add: backoff_loop_eq)
next
  case False
  have "d \<le> d * 2 ^ k" by (rule le_times_power2 [OF assms(1)])
  with False show ?thesis by (simp add: backoff_loop_big min_def)
qed

text \<open>The whole function in closed form, for every input the Go types allow.\<close>

lemma DelayAfterFailureCapped_closed:
  assumes "is64 maxDelay"
  defines "cap \<equiv> (if maxDelay \<le> 0 then MaxDelay else maxDelay)"
  shows "DelayAfterFailureCapped rnd base n maxJitter maxDelay =
    (let d = min (max 0 base * 2 ^ nat n) cap
     in if maxJitter > 0 then wrap64 (d + jitter rnd maxJitter) else d)"
proof -
  have "0 < cap" and "cap \<le> max64"
    using assms(1) by (simp_all add: cap_def MaxDelay_value int64_defs)
  then have core: "min (backoff_loop (nat n) cap (max 0 base)) cap =
      min (max 0 base * 2 ^ nat n) cap"
    by (intro backoff_core) simp_all
  have b: "(if base < 0 then 0 else base) = max 0 base" by simp
  have nn: "nat (if n < 0 then 0 else n) = nat n" by simp
  have mn: "(if d > cap then cap else d) = min d cap" for d by simp
  have j: "(if maxJitter < 0 then 0 else maxJitter) > 0 \<longleftrightarrow> maxJitter > 0" by simp
  show ?thesis
    unfolding DelayAfterFailureCapped_def Let_def
    by (simp only: b nn mn j core cap_def [symmetric]) auto
qed

subsection \<open>Properties\<close>

text \<open>
  C37: The saturating doubling loop computes \<open>min (base * 2 ^ n) cap\<close> exactly, for every int64
  base, attempt index and cap: the int64 overflow of a doubling never shows in the result.
  Negative inputs count as 0 and a cap that is not positive as \<open>MaxDelay\<close>; the jitter is added
  on top.
\<close>

theorem backoff_saturating_doubling:
  assumes "is64 maxDelay"
  shows "DelayAfterFailureCapped rnd base n maxJitter maxDelay =
    (let d = min (max 0 base * 2 ^ nat n) (if maxDelay \<le> 0 then MaxDelay else maxDelay)
     in if maxJitter > 0 then wrap64 (d + jitter rnd maxJitter) else d)"
  using DelayAfterFailureCapped_closed [OF assms] by simp

theorem backoff_saturating_doubling_witness:
  "is64 (2 ^ 62) \<and> DelayAfterFailureCapped 0 (2 ^ 61 + 1) 3 0 (2 ^ 62) = 2 ^ 62"
proof -
  have i: "is64 (2 ^ 62)" by (simp add: int64_defs)
  show ?thesis
    using i backoff_saturating_doubling [OF i, of 0 "2 ^ 61 + 1" 3 0] by (simp add: Let_def)
qed

text \<open>
  The delay before a retry is bounded and grows with the attempt index: it lies between the
  capped exponential and that plus the jitter bound, is never negative, never exceeds
  \<open>MaxDelay\<close> plus the jitter, and without jitter a later attempt never waits less.
\<close>

theorem backoff_bounds:
  assumes "maxJitter \<le> max64 - MaxDelay"
  shows "min (max 0 base * 2 ^ nat n) MaxDelay \<le> DelayAfterFailure rnd base n maxJitter \<and>
    0 \<le> DelayAfterFailure rnd base n maxJitter \<and>
    DelayAfterFailure rnd base n maxJitter \<le> MaxDelay + max 0 maxJitter \<and>
    (n \<le> m \<longrightarrow> DelayAfterFailure rnd base n 0 \<le> DelayAfterFailure rnd' base m 0)"
proof -
  have i: "is64 MaxDelay" and pos: "0 < MaxDelay" by (simp_all add: MaxDelay_value int64_defs)
  note closed = DelayAfterFailureCapped_closed [OF i, folded DelayAfterFailure_def]
  define d where "d = min (max 0 base * 2 ^ nat n) MaxDelay"
  have d: "0 \<le> d" "d \<le> MaxDelay" using pos by (simp_all add: d_def)
  have w: "wrap64 (d + jitter rnd maxJitter) = d + jitter rnd maxJitter" if "0 < maxJitter"
    using d jitter_bounds [of rnd maxJitter] that assms
    by (intro wrap64_id) (simp add: int64_defs MaxDelay_value)
  have eq: "DelayAfterFailure rnd base n maxJitter =
      (if 0 < maxJitter then d + jitter rnd maxJitter else d)"
    using closed [of rnd base n maxJitter] w pos by (simp add: d_def Let_def)
  have "max 0 base * 2 ^ nat n \<le> max 0 base * 2 ^ nat m" if "n \<le> m"
    using that by (intro mult_left_mono power_increasing) (simp_all add: nat_mono)
  then have "DelayAfterFailure rnd base n 0 \<le> DelayAfterFailure rnd' base m 0" if "n \<le> m"
    using closed [of _ base _ 0] pos that by (simp add: Let_def min.coboundedI1)
  with eq d jitter_bounds [of rnd maxJitter] show ?thesis by (auto simp flip: d_def)
qed

theorem backoff_bounds_witness:
  "DelayAfterFailure 7 second 3 (250 * millisecond) \<le> MaxDelay + 250 * millisecond \<and>
   DelayAfterFailure 0 second 3 0 \<le> DelayAfterFailure 0 second 20 0"
proof -
  have "250 * millisecond \<le> max64 - MaxDelay" "(3::int) \<le> 20"
    by (simp_all add: duration_defs MaxDelay_value max64_def)
  then show ?thesis
    using backoff_bounds [of "250 * millisecond" second 3 7 20 0]
      backoff_bounds [of "250 * millisecond" second 3 0 20 0]
    by (simp add: duration_defs)
qed

end
