(* ===== verification/Breaker.thy ===== *)
theory Breaker
  imports Go_Time
begin

text \<open>
  \<open>internal/circuit/breaker.go\<close>: one circuit breaker per verb and the registry of breakers.
  Every operation runs under the breaker's mutex, so an operation is one atomic step on the
  record. The clock readings an operation makes (\<open>b.now()\<close>) are its arguments; \<open>Allow\<close> makes
  at most two, one for the transition or the lease check and one for the grant.
\<close>

datatype cb_state = Closed | Open | HalfOpen

record breaker =
  state :: cb_state
  failures :: int
  openedAt :: time
  halfOpenTrial :: bool
  trialStarted :: time
  TripThreshold :: int
  OpenFor :: duration
  ProbeTimeout :: duration

definition New :: "int \<Rightarrow> duration \<Rightarrow> breaker" where
  "New trip openFor =
     (let trip = (if trip \<le> 0 then 5 else trip);
          openFor = (if openFor \<le> 0 then 60 * second else openFor)
      in \<lparr>state = Closed, failures = 0, openedAt = zero_time, halfOpenTrial = False,
          trialStarted = zero_time, TripThreshold = trip, OpenFor = openFor,
          ProbeTimeout = wrap64 (2 * openFor)\<rparr>)"

definition probeTimeoutLocked :: "breaker \<Rightarrow> duration" where
  "probeTimeoutLocked b =
     (if ProbeTimeout b > 0 then ProbeTimeout b else wrap64 (2 * OpenFor b))"

definition maybeTransitionLocked :: "time \<Rightarrow> breaker \<Rightarrow> breaker" where
  "maybeTransitionLocked now b =
     (if state b = Open \<and> time_sub now (openedAt b) \<ge> OpenFor b
      then b\<lparr>state := HalfOpen, halfOpenTrial := False, trialStarted := zero_time\<rparr>
      else b)"

record snapshot =
  sn_state :: cb_state
  sn_failures :: int

definition Snapshot :: "time \<Rightarrow> breaker \<Rightarrow> snapshot \<times> breaker" where
  "Snapshot now b =
     (let b = maybeTransitionLocked now b
      in (\<lparr>sn_state = state b, sn_failures = failures b\<rparr>, b))"

definition Allow :: "time \<Rightarrow> time \<Rightarrow> breaker \<Rightarrow> bool \<times> breaker" where
  "Allow now grant b =
     (let b = maybeTransitionLocked now b
      in case state b of
           Closed \<Rightarrow> (True, b)
         | Open \<Rightarrow> (False, b)
         | HalfOpen \<Rightarrow>
             (if halfOpenTrial b \<and>
                 \<not> time_sub now (trialStarted b) \<ge> probeTimeoutLocked b
              then (False, b)
              else (True, b\<lparr>halfOpenTrial := True, trialStarted := grant\<rparr>)))"

definition Success :: "breaker \<Rightarrow> breaker" where
  "Success b = b\<lparr>failures := 0, halfOpenTrial := False, trialStarted := zero_time,
                 state := Closed\<rparr>"

definition Failure :: "time \<Rightarrow> breaker \<Rightarrow> breaker" where
  "Failure now b =
     (if state b = HalfOpen then
        b\<lparr>state := Open, openedAt := now, halfOpenTrial := False,
          trialStarted := zero_time, failures := TripThreshold b\<rparr>
      else
        (let b = b\<lparr>failures := failures b + 1\<rparr>
         in if failures b \<ge> TripThreshold b
            then b\<lparr>state := Open, openedAt := now, halfOpenTrial := False,
                   trialStarted := zero_time\<rparr>
            else b))"

subsection \<open>The invariant\<close>

text \<open>
  A closed breaker has counted fewer failures than its threshold and has no probe out; an open
  one has no probe out; the configuration is positive.
\<close>

definition breaker_inv :: "breaker \<Rightarrow> bool" where
  "breaker_inv b \<longleftrightarrow>
     0 < TripThreshold b \<and> 0 < OpenFor b \<and> is64 (OpenFor b) \<and>
     ProbeTimeout b = wrap64 (2 * OpenFor b) \<and> 0 \<le> failures b \<and>
     (state b = Closed \<longleftrightarrow> failures b < TripThreshold b) \<and>
     (state b \<noteq> HalfOpen \<longrightarrow> \<not> halfOpenTrial b)"

lemma breaker_inv_New [inv_intros]: "is64 openFor \<Longrightarrow> breaker_inv (New trip openFor)"
  by (auto simp: breaker_inv_def New_def Let_def second_def int64_defs)

lemma breaker_inv_transition [inv_intros]:
  "breaker_inv b \<Longrightarrow> breaker_inv (maybeTransitionLocked now b)"
  by (auto simp: breaker_inv_def maybeTransitionLocked_def)

lemma breaker_inv_Snapshot [inv_intros]: "breaker_inv b \<Longrightarrow> breaker_inv (snd (Snapshot now b))"
  by (simp add: Snapshot_def Let_def inv_intros)

lemma breaker_inv_Allow [inv_intros]:
  assumes "breaker_inv b"
  shows "breaker_inv (snd (Allow now grant b))"
proof -
  have "breaker_inv (maybeTransitionLocked now b)" using assms by (rule breaker_inv_transition)
  then show ?thesis
    by (auto simp: Allow_def Let_def breaker_inv_def split: cb_state.split)
qed

lemma breaker_inv_Success [inv_intros]: "breaker_inv b \<Longrightarrow> breaker_inv (Success b)"
  by (simp add: breaker_inv_def Success_def)

lemma breaker_inv_Failure [inv_intros]: "breaker_inv b \<Longrightarrow> breaker_inv (Failure now b)"
  by (cases "state b") (auto simp: breaker_inv_def Failure_def Let_def)

subsection \<open>The abstract breaker\<close>

text \<open>
  What a breaker promises, without the redundant fields: it is closed with a number of
  consecutive failures, open since an instant, or on probation with at most one probe out.
\<close>

datatype abs_breaker =
    AClosed int
  | AOpen time
  | AProbation "time option"

definition abs_of :: "breaker \<Rightarrow> abs_breaker" where
  "abs_of b =
     (case state b of
        Closed \<Rightarrow> AClosed (failures b)
      | Open \<Rightarrow> AOpen (openedAt b)
      | HalfOpen \<Rightarrow> AProbation (if halfOpenTrial b then Some (trialStarted b) else None))"

definition elapsed :: "time \<Rightarrow> duration \<Rightarrow> time \<Rightarrow> bool" where
  "elapsed since d now \<longleftrightarrow> since + d \<le> now"

fun spec_wake :: "duration \<Rightarrow> time \<Rightarrow> abs_breaker \<Rightarrow> abs_breaker" where
  "spec_wake d now (AOpen since) =
     (if elapsed since d now then AProbation None else AOpen since)"
| "spec_wake d now a = a"

fun spec_admit :: "duration \<Rightarrow> time \<Rightarrow> time \<Rightarrow> abs_breaker \<Rightarrow> bool \<times> abs_breaker" where
  "spec_admit d now grant (AClosed n) = (True, AClosed n)"
| "spec_admit d now grant (AOpen since) = (False, AOpen since)"
| "spec_admit d now grant (AProbation None) = (True, AProbation (Some grant))"
| "spec_admit d now grant (AProbation (Some since)) =
     (if elapsed since (2 * d) now then (True, AProbation (Some grant))
      else (False, AProbation (Some since)))"

definition spec_allow :: "duration \<Rightarrow> time \<Rightarrow> time \<Rightarrow> abs_breaker \<Rightarrow> bool \<times> abs_breaker" where
  "spec_allow d now grant a = spec_admit d now grant (spec_wake d now a)"

fun spec_failure :: "int \<Rightarrow> time \<Rightarrow> abs_breaker \<Rightarrow> abs_breaker" where
  "spec_failure trip now (AClosed n) = (if n + 1 \<ge> trip then AOpen now else AClosed (n + 1))"
| "spec_failure trip now a = AOpen now"

text \<open>
  The lease of a probe is twice the open interval as long as doubling it does not overflow,
  which holds for every interval below 146 years.
\<close>

definition sane :: "breaker \<Rightarrow> bool" where
  "sane b \<longleftrightarrow> breaker_inv b \<and> 2 * OpenFor b \<le> max64"

lemma sane_probeTimeout: "sane b \<Longrightarrow> probeTimeoutLocked b = 2 * OpenFor b"
  by (auto simp: sane_def breaker_inv_def probeTimeoutLocked_def int64_defs wrap64_id)

lemma sane_sub_iff:
  "sane b \<Longrightarrow> OpenFor b \<le> time_sub t u \<longleftrightarrow> elapsed u (OpenFor b) t"
  "sane b \<Longrightarrow> 2 * OpenFor b \<le> time_sub t u \<longleftrightarrow> elapsed u (2 * OpenFor b) t"
  by (simp_all add: sane_def breaker_inv_def elapsed_def time_sub_ge_iff int64_defs)

lemma OpenFor_transition [simp]: "OpenFor (maybeTransitionLocked now b) = OpenFor b"
  by (simp add: maybeTransitionLocked_def)

lemma sane_transition: "sane b \<Longrightarrow> sane (maybeTransitionLocked now b)"
  by (simp add: sane_def inv_intros)

lemma abs_transition:
  "sane b \<Longrightarrow> abs_of (maybeTransitionLocked now b) = spec_wake (OpenFor b) now (abs_of b)"
  by (cases "state b") (auto simp: abs_of_def maybeTransitionLocked_def sane_sub_iff)

lemma abs_Snapshot:
  "sane b \<Longrightarrow> abs_of (snd (Snapshot now b)) = spec_wake (OpenFor b) now (abs_of b)"
  by (simp add: Snapshot_def Let_def abs_transition)

lemma abs_Allow:
  assumes "sane b"
  shows "map_prod id abs_of (Allow now grant b) = spec_allow (OpenFor b) now grant (abs_of b)"
proof -
  let ?b = "maybeTransitionLocked now b"
  have s: "sane ?b" using assms by (rule sane_transition)
  have "map_prod id abs_of (Allow now grant b) = spec_admit (OpenFor ?b) now grant (abs_of ?b)"
    using sane_probeTimeout [OF s] sane_sub_iff(2) [OF s, of now "trialStarted ?b"]
    by (cases "state ?b") (auto simp: Allow_def Let_def abs_of_def)
  then show ?thesis using assms by (simp add: spec_allow_def abs_transition)
qed

lemma abs_Success: "abs_of (Success b) = AClosed 0"
  by (simp add: abs_of_def Success_def)

lemma abs_Failure:
  assumes "sane b"
  shows "abs_of (Failure now b) = spec_failure (TripThreshold b) now (abs_of b)"
  using assms
  by (cases "state b") (auto simp: sane_def breaker_inv_def abs_of_def Failure_def Let_def)

subsection \<open>Runs of a breaker\<close>

datatype cb_event =
    EvAllow time time
  | EvSnapshot time
  | EvSuccess
  | EvFailure time

fun cb_step :: "breaker \<Rightarrow> cb_event \<Rightarrow> breaker" where
  "cb_step b (EvAllow now grant) = snd (Allow now grant b)"
| "cb_step b (EvSnapshot now) = snd (Snapshot now b)"
| "cb_step b EvSuccess = Success b"
| "cb_step b (EvFailure now) = Failure now b"

definition cb_run :: "breaker \<Rightarrow> cb_event list \<Rightarrow> breaker" where
  "cb_run b es = fold (\<lambda>e b. cb_step b e) es b"

lemma cb_run_simps [simp]:
  "cb_run b [] = b"
  "cb_run b (e # es) = cb_run (cb_step b e) es"
  "cb_run b (es @ fs) = cb_run (cb_run b es) fs"
  by (simp_all add: cb_run_def)

lemma breaker_inv_step [inv_intros]: "breaker_inv b \<Longrightarrow> breaker_inv (cb_step b e)"
  by (cases e) (simp_all add: inv_intros)

lemma breaker_inv_run [inv_intros]: "breaker_inv b \<Longrightarrow> breaker_inv (cb_run b es)"
  by (induction es arbitrary: b) (simp_all add: inv_intros)

lemma config_step [simp]:
  "OpenFor (cb_step b e) = OpenFor b" "TripThreshold (cb_step b e) = TripThreshold b"
  by (cases e; simp add: Allow_def Snapshot_def Success_def Failure_def Let_def
      maybeTransitionLocked_def split: cb_state.split)+

lemma config_Failure [simp]:
  "OpenFor (Failure now b) = OpenFor b" "TripThreshold (Failure now b) = TripThreshold b"
  using config_step [of b "EvFailure now"] by simp_all

lemma config_run [simp]:
  "OpenFor (cb_run b es) = OpenFor b" "TripThreshold (cb_run b es) = TripThreshold b"
  by (induction es arbitrary: b) simp_all

lemma sane_run: "sane b \<Longrightarrow> sane (cb_run b es)"
  by (simp add: sane_def inv_intros)

text \<open>The same events on the abstract breaker.\<close>

fun spec_step :: "int \<Rightarrow> duration \<Rightarrow> abs_breaker \<Rightarrow> cb_event \<Rightarrow> abs_breaker" where
  "spec_step trip d a (EvAllow now grant) = snd (spec_allow d now grant a)"
| "spec_step trip d a (EvSnapshot now) = spec_wake d now a"
| "spec_step trip d a EvSuccess = AClosed 0"
| "spec_step trip d a (EvFailure now) = spec_failure trip now a"

definition spec_run :: "int \<Rightarrow> duration \<Rightarrow> cb_event list \<Rightarrow> abs_breaker \<Rightarrow> abs_breaker" where
  "spec_run trip d es a = fold (\<lambda>e a. spec_step trip d a e) es a"

lemma spec_run_simps [simp]:
  "spec_run trip d [] a = a"
  "spec_run trip d (e # es) a = spec_run trip d es (spec_step trip d a e)"
  "spec_run trip d (es @ fs) a = spec_run trip d fs (spec_run trip d es a)"
  by (simp_all add: spec_run_def)

lemma abs_step:
  "sane b \<Longrightarrow> abs_of (cb_step b e) = spec_step (TripThreshold b) (OpenFor b) (abs_of b) e"
  by (cases e)
    (simp_all add: abs_Snapshot abs_Success abs_Failure flip: abs_Allow)

lemma abs_run:
  "sane b \<Longrightarrow>
   abs_of (cb_run b es) = spec_run (TripThreshold b) (OpenFor b) es (abs_of b)"
proof (induction es arbitrary: b)
  case Nil
  then show ?case by simp
next
  case (Cons e es)
  have "sane (cb_step b e)" using sane_run [OF Cons.prems, of "[e]"] by simp
  then show ?case using Cons.IH [of "cb_step b e"] Cons.prems by (simp add: abs_step)
qed

text \<open>Events that carry the verdict of an attempt.\<close>

fun is_verdict :: "cb_event \<Rightarrow> bool" where
  "is_verdict EvSuccess = True"
| "is_verdict (EvFailure _) = True"
| "is_verdict _ = False"

text \<open>The instant an event reads to decide a transition.\<close>

fun decides_before :: "time \<Rightarrow> cb_event \<Rightarrow> bool" where
  "decides_before t (EvAllow now grant) = (now < t)"
| "decides_before t (EvSnapshot now) = (now < t)"
| "decides_before t _ = True"

text \<open>A probe that is out stays out, with its start time, until a verdict or the end of its lease.\<close>

lemma spec_probe_step:
  assumes "\<not> is_verdict e" and "decides_before (g + 2 * d) e"
  shows "spec_step trip d (AProbation (Some g)) e = AProbation (Some g)"
  using assms by (cases e) (auto simp: spec_allow_def elapsed_def)

lemma spec_probe_run:
  assumes "\<forall>e \<in> set es. \<not> is_verdict e \<and> decides_before (g + 2 * d) e"
  shows "spec_run trip d es (AProbation (Some g)) = AProbation (Some g)"
  using assms by (induction es) (simp_all add: spec_probe_step)

text \<open>An open breaker ignores requests until its interval has elapsed.\<close>

lemma spec_open_step:
  assumes "\<not> is_verdict e" and "decides_before (t + d) e"
  shows "spec_step trip d (AOpen t) e = AOpen t"
  using assms by (cases e) (auto simp: spec_allow_def elapsed_def)

lemma spec_open_run:
  assumes "\<forall>e \<in> set es. \<not> is_verdict e \<and> decides_before (t + d) e"
  shows "spec_run trip d es (AOpen t) = AOpen t"
  using assms by (induction es) (simp_all add: spec_open_step)

lemma spec_failures_run:
  "n + int (length ts) < trip \<Longrightarrow>
   spec_run trip d (map EvFailure ts) (AClosed n) = AClosed (n + int (length ts))"
  by (induction ts arbitrary: n) (simp_all add: algebra_simps)

lemma fst_Allow: "sane b \<Longrightarrow> fst (Allow now g b) = fst (spec_allow (OpenFor b) now g (abs_of b))"
  using abs_Allow [of b now g] by (metis fst_map_prod id_apply)

lemma snd_Allow:
  "sane b \<Longrightarrow> abs_of (snd (Allow now g b)) = snd (spec_allow (OpenFor b) now g (abs_of b))"
  using abs_Allow [of b now g] by (metis snd_map_prod)

lemma spec_allow_granted:
  assumes "fst (spec_allow d now g a)" and "\<forall>n. a \<noteq> AClosed n"
  shows "snd (spec_allow d now g a) = AProbation (Some g)"
proof (cases a)
  case (AProbation p)
  with assms(1) show ?thesis by (cases p) (auto simp: spec_allow_def split: if_splits)
qed (use assms in \<open>auto simp: spec_allow_def split: if_splits\<close>)

lemma abs_not_closed: "state b \<noteq> Closed \<Longrightarrow> \<forall>n. abs_of b \<noteq> AClosed n"
  by (cases "state b") (simp_all add: abs_of_def)

text \<open>A granted request of a breaker that is not closed leaves exactly its probe out.\<close>

lemma granted_probe:
  assumes "sane b" and "state b \<noteq> Closed" and "fst (Allow now g b)"
  shows "sane (snd (Allow now g b))" and "abs_of (snd (Allow now g b)) = AProbation (Some g)"
proof -
  show "sane (snd (Allow now g b))" using sane_run [OF assms(1), of "[EvAllow now g]"] by simp
  show "abs_of (snd (Allow now g b)) = AProbation (Some g)"
    using assms spec_allow_granted [OF _ abs_not_closed] by (simp add: fst_Allow snd_Allow)
qed

subsection \<open>The registry\<close>

record registry =
  breakers :: "breaker gomap"
  trip :: int
  openFor :: duration

definition NewRegistry :: "int \<Rightarrow> duration \<Rightarrow> registry" where
  "NewRegistry tr op =
     (let tr = (if tr \<le> 0 then 5 else tr);
          op = (if op \<le> 0 then 60 * second else op)
      in \<lparr>breakers = [], trip = tr, openFor = op\<rparr>)"

text \<open>
  \<open>For\<close> returns the pointer to the breaker of a verb: here the breaker it points to and the
  registry that holds it. A method call through the pointer is \<open>on_breaker\<close>.
\<close>

definition For :: "string \<Rightarrow> int \<Rightarrow> registry \<Rightarrow> breaker \<times> registry" where
  "For verb perVerbTrip r =
     (case map_of (breakers r) verb of
        Some b \<Rightarrow> (b, r)
      | None \<Rightarrow>
          (let tr = (if perVerbTrip > 0 then perVerbTrip else trip r);
               b = New tr (openFor r)
           in (b, r\<lparr>breakers := AList.update verb b (breakers r)\<rparr>)))"

definition on_breaker :: "string \<Rightarrow> (breaker \<Rightarrow> 'a \<times> breaker) \<Rightarrow> registry \<Rightarrow> 'a option \<times> registry" where
  "on_breaker verb f r =
     (case map_of (breakers r) verb of
        None \<Rightarrow> (None, r)
      | Some b \<Rightarrow>
          (let (a, b') = f b
           in (Some a, r\<lparr>breakers := AList.update verb b' (breakers r)\<rparr>)))"

definition Snapshots :: "time \<Rightarrow> registry \<Rightarrow> snapshot gomap \<times> registry" where
  "Snapshots now r =
     (map (\<lambda>(k, b). (k, fst (Snapshot now b))) (breakers r),
      r\<lparr>breakers := map (\<lambda>(k, b). (k, snd (Snapshot now b))) (breakers r)\<rparr>)"

definition registry_inv :: "registry \<Rightarrow> bool" where
  "registry_inv r \<longleftrightarrow>
     wf_map (breakers r) \<and> 0 < trip r \<and> 0 < openFor r \<and> is64 (openFor r) \<and>
     (\<forall>(k, b) \<in> set (breakers r). breaker_inv b \<and> OpenFor b = openFor r)"

lemma registry_inv_New [inv_intros]: "is64 op \<Longrightarrow> registry_inv (NewRegistry tr op)"
  by (auto simp: registry_inv_def NewRegistry_def Let_def second_def int64_defs)

lemma set_update_subset: "set (AList.update k v m) \<subseteq> insert (k, v) (set m)"
  by (induction m) auto

lemma registry_inv_put:
  assumes "registry_inv r" and "breaker_inv b" and "OpenFor b = openFor r"
  shows "registry_inv (r\<lparr>breakers := AList.update verb b (breakers r)\<rparr>)"
  using assms set_update_subset [of verb b "breakers r"]
  by (fastforce simp: registry_inv_def)

lemma OpenFor_New: "0 < d \<Longrightarrow> OpenFor (New tr d) = d"
  by (simp add: New_def Let_def)

lemma registry_inv_add:
  assumes "registry_inv r" and "0 < n"
  shows "registry_inv (r\<lparr>breakers := AList.update verb (New n (openFor r)) (breakers r)\<rparr>)"
proof -
  have "0 < openFor r" and "is64 (openFor r)" using assms(1) by (simp_all add: registry_inv_def)
  with assms(1) show ?thesis by (intro registry_inv_put) (simp_all add: OpenFor_New inv_intros)
qed

lemma registry_inv_For [inv_intros]:
  assumes "registry_inv r"
  shows "registry_inv (snd (For verb n r))"
  using assms registry_inv_add [OF assms, of n verb] registry_inv_add [OF assms, of "trip r" verb]
  by (auto simp: For_def Let_def registry_inv_def [of r] split: option.split)

lemma For_lookup: "map_of (breakers (snd (For verb n r))) verb = Some (fst (For verb n r))"
  by (simp add: For_def Let_def split: option.split)

lemma For_stable:
  "For verb m (snd (For verb n r)) = For verb n r"
  by (simp add: For_def Let_def split: option.split)

subsection \<open>Properties\<close>

text \<open>
  C12: A breaker refines the abstract breaker: on every run of operations from a sane state, the
  concrete record stands for the abstract state the same run reaches, the invariant holds, and
  \<open>Allow\<close> answers what the abstract breaker answers.
\<close>

theorem breaker_refines_spec:
  assumes "sane b"
  shows "breaker_inv (cb_run b es) \<and>
    abs_of (cb_run b es) = spec_run (TripThreshold b) (OpenFor b) es (abs_of b) \<and>
    fst (Allow now grant (cb_run b es)) =
      fst (spec_allow (OpenFor b) now grant (spec_run (TripThreshold b) (OpenFor b) es (abs_of b)))"
proof -
  have s: "sane (cb_run b es)" using assms(1) by (rule sane_run)
  then have "breaker_inv (cb_run b es)" by (simp add: sane_def)
  then show ?thesis using fst_Allow [OF s] abs_run [OF assms] by simp
qed

definition example_run :: "cb_event list" where
  "example_run = [EvFailure 10, EvFailure 20, EvAllow 30 30, EvAllow 130 131, EvAllow 140 140]"

lemma sane_New: "0 < d \<Longrightarrow> 2 * d \<le> max64 \<Longrightarrow> sane (New n d)"
  by (simp add: sane_def breaker_inv_New OpenFor_New int64_defs)

lemma sane_example: "sane (New 2 100)" "sane (New 1 100)"
  by (rule sane_New; simp add: max64_def)+

theorem breaker_refines_spec_witness:
  "sane (New 2 100) \<and> abs_of (cb_run (New 2 100) example_run) = AProbation (Some 131)"
  using sane_example(1) breaker_refines_spec [OF sane_example(1), of example_run 0 0]
  by (simp add: example_run_def New_def abs_of_def spec_allow_def elapsed_def)

text \<open>
  C26: A breaker without recorded failures trips on exactly its threshold: fewer consecutive
  failures leave it closed (every request is admitted), as many as the threshold open it at the
  instant of the last one, and until the open interval has elapsed no request is admitted
  whatever requests and health snapshots come in between.
\<close>

theorem breaker_trips_at_threshold:
  assumes "sane b" and "state b = Closed" and "failures b = 0"
    and "int (length ts) < TripThreshold b"
  shows "fst (Allow now g (cb_run b (map EvFailure ts))) \<and>
    (int (length ts) + 1 = TripThreshold b \<longrightarrow>
      (\<forall>e \<in> set es. \<not> is_verdict e \<and> decides_before (t + OpenFor b) e) \<longrightarrow>
      (fst (Allow now g (cb_run b (map EvFailure ts @ EvFailure t # es))) \<longleftrightarrow> t + OpenFor b \<le> now))"
proof -
  let ?run = "spec_run (TripThreshold b) (OpenFor b)"
  have abs0: "abs_of b = AClosed 0" using assms by (simp add: abs_of_def)
  have k: "?run (map EvFailure ts) (AClosed 0) = AClosed (int (length ts))"
    using spec_failures_run [of 0 ts] assms(4) by simp
  have "fst (Allow now g (cb_run b (map EvFailure ts)))"
    using fst_Allow [OF sane_run [OF assms(1)]] abs_run [OF assms(1)] abs0 k
    by (simp add: spec_allow_def)
  moreover have "fst (Allow now g (cb_run b (map EvFailure ts @ EvFailure t # es)))
      \<longleftrightarrow> t + OpenFor b \<le> now"
    if trip: "int (length ts) + 1 = TripThreshold b"
      and quiet: "\<forall>e \<in> set es. \<not> is_verdict e \<and> decides_before (t + OpenFor b) e"
  proof -
    have "?run (map EvFailure ts @ EvFailure t # es) (AClosed 0) = ?run es (AOpen t)"
      using k trip by simp
    also have "\<dots> = AOpen t" using quiet by (rule spec_open_run)
    finally have "abs_of (cb_run b (map EvFailure ts @ EvFailure t # es)) = AOpen t"
      using abs_run [OF assms(1)] abs0 by metis
    then show ?thesis
      using fst_Allow [OF sane_run [OF assms(1), of "map EvFailure ts @ EvFailure t # es"], of now g]
      by (simp add: spec_allow_def elapsed_def)
  qed
  ultimately show ?thesis by blast
qed

theorem breaker_trips_at_threshold_witness:
  "\<not> fst (Allow 119 0 (cb_run (New 2 100) [EvFailure 10, EvFailure 20, EvAllow 50 50])) \<and>
   fst (Allow 120 0 (cb_run (New 2 100) [EvFailure 10, EvFailure 20, EvAllow 50 50]))"
proof -
  have c: "state (New 2 100) = Closed" "failures (New 2 100) = 0" "OpenFor (New 2 100) = 100"
    "int (length [10::time]) < TripThreshold (New 2 100)"
    "int (length [10::time]) + 1 = TripThreshold (New 2 100)"
    by (simp_all add: New_def)
  note t = breaker_trips_at_threshold [OF sane_example(1) c(1,2) c(4), where t = 20 and es = "[EvAllow 50 50]"]
  show ?thesis using t [of 119 0] t [of 120 0] c by simp
qed

text \<open>
  C27: One probe at a time, and never a wedge: after a breaker that is not closed has admitted a
  probe at instant \<open>g\<close>, and as long as neither its verdict arrives nor its lease of twice the
  open interval ends, every later request is refused exactly while the lease runs; from the end
  of the lease on a fresh probe is admitted.
\<close>

theorem breaker_single_probe:
  assumes "sane b" and "state b \<noteq> Closed" and "fst (Allow now1 g b)"
    and "\<forall>e \<in> set es. \<not> is_verdict e \<and> decides_before (g + 2 * OpenFor b) e"
  shows "fst (Allow now2 g2 (cb_run (snd (Allow now1 g b)) es)) \<longleftrightarrow> g + 2 * OpenFor b \<le> now2"
proof -
  let ?b = "snd (Allow now1 g b)"
  note p = granted_probe [OF assms(1-3)]
  have cfg: "OpenFor ?b = OpenFor b" "TripThreshold ?b = TripThreshold b"
    using config_step [of b "EvAllow now1 g"] by simp_all
  have "abs_of (cb_run ?b es) = AProbation (Some g)"
    using abs_run [OF p(1)] p(2) cfg spec_probe_run [OF assms(4)] by simp
  then show ?thesis
    using fst_Allow [OF sane_run [OF p(1)], of now2 g2] cfg
    by (simp add: spec_allow_def elapsed_def)
qed

theorem breaker_single_probe_witness:
  "fst (Allow 120 121 (cb_run (New 1 100) [EvFailure 20])) \<and>
   \<not> fst (Allow 320 0 (snd (Allow 120 121 (cb_run (New 1 100) [EvFailure 20])))) \<and>
   fst (Allow 321 0 (snd (Allow 120 121 (cb_run (New 1 100) [EvFailure 20]))))"
proof -
  let ?b = "cb_run (New 1 100) [EvFailure 20]"
  have s: "sane ?b"
    by (rule sane_run) (rule sane_example(2))
  have o: "state ?b \<noteq> Closed" "OpenFor ?b = 100" "fst (Allow 120 121 ?b)"
    by (simp_all add: New_def Failure_def Allow_def maybeTransitionLocked_def time_sub_def
        int64_defs Let_def)
  show ?thesis
    using o breaker_single_probe [OF s o(1,3), of "[]" 320 0]
      breaker_single_probe [OF s o(1,3), of "[]" 321 0] by simp
qed

end
