(* ===== verification/Bounded_Buffer.thy ===== *)
theory Bounded_Buffer
  imports Prelude
begin

text \<open>
  The contract two components of the daemon share: a buffer that keeps the newest \<open>cap\<close> entries
  it was given. The stream ring (\<open>internal/streams/ring.go\<close>) and the in-memory tail of the audit
  log (\<open>internal/audit/log.go\<close>) both provide it; their clients see only \<open>items\<close>.
\<close>

locale bounded_buffer =
  fixes push :: "'e \<Rightarrow> 's \<Rightarrow> 's"
    and items :: "'s \<Rightarrow> 'e list"
    and cap :: "'s \<Rightarrow> nat"
    and invar :: "'s \<Rightarrow> bool"
  assumes cap_pos: "invar s \<Longrightarrow> 0 < cap s"
    and items_cap: "invar s \<Longrightarrow> length (items s) \<le> cap s"
    and items_push: "invar s \<Longrightarrow> items (push e s) = lastn (cap s) (items s @ [e])"
    and cap_push: "invar s \<Longrightarrow> cap (push e s) = cap s"
    and invar_push: "invar s \<Longrightarrow> invar (push e s)"
begin

definition push_all :: "'e list \<Rightarrow> 's \<Rightarrow> 's" where
  "push_all es s = fold push es s"

lemma push_all_inv: "invar s \<Longrightarrow> invar (push_all es s) \<and> cap (push_all es s) = cap s"
  by (induction es arbitrary: s) (simp_all add: push_all_def invar_push cap_push)

lemma items_push_all: "invar s \<Longrightarrow> items (push_all es s) = lastn (cap s) (items s @ es)"
proof (induction es rule: rev_induct)
  case Nil
  then show ?case by (simp add: push_all_def lastn_short items_cap)
next
  case (snoc e es)
  note inv = push_all_inv [OF snoc.prems, of es]
  have "items (push_all (es @ [e]) s) = lastn (cap s) (lastn (cap s) (items s @ es) @ [e])"
    using inv snoc by (simp add: push_all_def items_push)
  also have "\<dots> = lastn (cap s) (items s @ es @ [e])"
    using lastn_append1 [OF cap_pos [OF snoc.prems], of "items s @ es" e] by simp
  finally show ?case .
qed

lemma length_items: "invar s \<Longrightarrow> length (items (push_all es s)) \<le> cap s"
  using push_all_inv items_cap by metis

text \<open>Nothing is invented: every entry held was pushed or was there before.\<close>

lemma items_subset: "invar s \<Longrightarrow> set (items (push_all es s)) \<subseteq> set (items s) \<union> set es"
  using set_lastn by (fastforce simp: items_push_all)

end

end
