(* ===== verification/Ring.thy ===== *)
theory Ring
  imports Bounded_Buffer "HOL-Library.Word"
begin

text \<open>
  \<open>internal/streams/ring.go\<close>: the fixed-capacity ring of stream events. The sequence counter is
  a uint64 (a \<open>64 word\<close>), the buffer a list of fixed length that is written by index. The mutex
  makes each operation one step.
\<close>

record event =
  Seq :: "64 word"
  TS :: string
  Line :: string

record ring =
  buf :: "event list"
  cap :: nat
  nxt :: "64 word"
  start :: nat
  len :: nat

definition zero_event :: event where
  "zero_event = \<lparr>Seq = 0, TS = [], Line = []\<rparr>"

definition NewRing :: "int \<Rightarrow> ring" where
  "NewRing capacity =
     (let capacity = (if capacity \<le> 0 then 128 else capacity)
      in \<lparr>buf = replicate (nat capacity) zero_event, cap = nat capacity, nxt = 0,
          start = 0, len = 0\<rparr>)"

definition Push :: "string \<Rightarrow> string \<Rightarrow> ring \<Rightarrow> event \<times> ring" where
  "Push ts line r =
     (let r = r\<lparr>nxt := nxt r + 1\<rparr>;
          ev = \<lparr>Seq = nxt r, TS = ts, Line = line\<rparr>
      in if len r < cap r
         then (ev, r\<lparr>buf := (buf r)[(start r + len r) mod cap r := ev], len := len r + 1\<rparr>)
         else (ev, r\<lparr>buf := (buf r)[start r := ev], start := (start r + 1) mod cap r\<rparr>))"

definition ring_entry :: "ring \<Rightarrow> nat \<Rightarrow> event" where
  "ring_entry r i = buf r ! ((start r + i) mod cap r)"

text \<open>The loop of \<open>Since\<close> over \<open>i = 0 .. len-1\<close>, appending the entries newer than \<open>since\<close>.\<close>

definition Since :: "64 word \<Rightarrow> ring \<Rightarrow> event list" where
  "Since since r =
     fold (\<lambda>i out. let ev = ring_entry r i in if Seq ev > since then out @ [ev] else out)
       [0..<len r] []"

definition Len :: "ring \<Rightarrow> nat" where
  "Len r = len r"

definition ring_inv :: "ring \<Rightarrow> bool" where
  "ring_inv r \<longleftrightarrow>
     0 < cap r \<and> length (buf r) = cap r \<and> start r < cap r \<and> len r \<le> cap r"

text \<open>The abstraction: the entries held, oldest first.\<close>

definition contents :: "ring \<Rightarrow> event list" where
  "contents r = map (ring_entry r) [0..<len r]"

lemma length_contents [simp]: "length (contents r) = len r"
  by (simp add: contents_def)

lemma ring_inv_New [inv_intros]: "ring_inv (NewRing c)"
  by (simp add: ring_inv_def NewRing_def Let_def)

lemma contents_New [simp]: "contents (NewRing c) = []"
  by (simp add: contents_def NewRing_def Let_def)

lemma ring_inv_Push [inv_intros]: "ring_inv r \<Longrightarrow> ring_inv (snd (Push ts line r))"
  by (simp add: ring_inv_def Push_def Let_def)

lemma cap_Push [simp]: "cap (snd (Push ts line r)) = cap r"
  by (simp add: Push_def Let_def)

lemma nxt_Push [simp]: "nxt (snd (Push ts line r)) = nxt r + 1"
  by (simp add: Push_def Let_def)

definition next_event :: "ring \<Rightarrow> string \<Rightarrow> string \<Rightarrow> event" where
  "next_event r ts line = \<lparr>Seq = nxt r + 1, TS = ts, Line = line\<rparr>"

lemma fst_Push: "fst (Push ts line r) = next_event r ts line"
  by (simp add: Push_def Let_def next_event_def)

lemma mod_add_ne:
  fixes s c i j :: nat
  assumes "i < j" and "j < c"
  shows "(s + i) mod c \<noteq> (s + j) mod c"
proof
  assume "(s + i) mod c = (s + j) mod c"
  then have "c dvd (s + j) - (s + i)"
    using assms(1) by (metis add_le_cancel_left less_imp_le mod_eq_dvd_iff_nat)
  then have "c dvd j - i" by simp
  with assms show False by (auto dest: dvd_imp_le)
qed

lemma contents_Push_room:
  assumes "ring_inv r" and "len r < cap r"
  shows "contents (snd (Push ts line r)) = contents r @ [next_event r ts line]"
proof (rule nth_equalityI)
  show "length (contents (snd (Push ts line r))) =
        length (contents r @ [next_event r ts line])"
    using assms by (simp add: Push_def Let_def)
  fix i assume "i < length (contents (snd (Push ts line r)))"
  then have i: "i \<le> len r" using assms by (simp add: Push_def Let_def)
  have n: "(start r + len r) mod cap r < length (buf r)"
    using assms by (simp add: ring_inv_def)
  show "contents (snd (Push ts line r)) ! i = (contents r @ [next_event r ts line]) ! i"
  proof (cases "i = len r")
    case True
    with assms n show ?thesis
      by (simp add: contents_def Push_def Let_def ring_entry_def next_event_def nth_append
          del: upt_Suc)
  next
    case False
    with i have "i < len r" by simp
    with assms mod_add_ne [of i "len r" "cap r" "start r"] show ?thesis
      by (simp add: contents_def Push_def Let_def ring_entry_def nth_append del: upt_Suc)
  qed
qed

lemma contents_Push_full:
  assumes "ring_inv r" and "len r = cap r"
  shows "contents (snd (Push ts line r)) = tl (contents r) @ [next_event r ts line]"
proof (rule nth_equalityI)
  have c: "0 < cap r" "length (buf r) = cap r" "start r < cap r"
    using assms by (simp_all add: ring_inv_def)
  show "length (contents (snd (Push ts line r))) =
        length (tl (contents r) @ [next_event r ts line])"
    using assms c by (simp add: Push_def Let_def)
  fix i assume "i < length (contents (snd (Push ts line r)))"
  then have i: "i < cap r" using assms by (simp add: Push_def Let_def)
  have shift: "((start r + 1) mod cap r + i) mod cap r = (start r + (i + 1)) mod cap r"
    using mod_add_left_eq [of "start r + 1" "cap r" i] by (simp add: add.assoc)
  have lhs: "contents (snd (Push ts line r)) ! i =
      ((buf r)[start r := next_event r ts line]) ! ((start r + (i + 1)) mod cap r)"
    using i assms shift
    by (simp add: contents_def Push_def Let_def ring_entry_def next_event_def)
  show "contents (snd (Push ts line r)) ! i = (tl (contents r) @ [next_event r ts line]) ! i"
  proof (cases "i + 1 = cap r")
    case True
    then have e: "(start r + (i + 1)) mod cap r = start r" using c by simp
    have "contents (snd (Push ts line r)) ! i = next_event r ts line"
      unfolding lhs e using c by simp
    moreover have "length (tl (contents r)) = i" using True assms by simp
    then have "(tl (contents r) @ [next_event r ts line]) ! i = next_event r ts line"
      using nth_append_length by metis
    ultimately show ?thesis by simp
  next
    case False
    with i have l: "i + 1 < cap r" by simp
    then have "(start r + (i + 1)) mod cap r \<noteq> start r"
      using mod_add_ne [of 0 "i + 1" "cap r" "start r"] c by simp
    with lhs l assms show ?thesis
      by (simp add: nth_append nth_tl contents_def ring_entry_def)
  qed
qed

lemma contents_Push:
  assumes "ring_inv r"
  shows "contents (snd (Push ts line r)) = lastn (cap r) (contents r @ [next_event r ts line])"
proof (cases "len r < cap r")
  case True
  with assms show ?thesis by (simp add: contents_Push_room lastn_short)
next
  case False
  with assms have full: "len r = cap r" by (simp add: ring_inv_def)
  with assms have "contents r \<noteq> []" by (auto simp: ring_inv_def contents_def)
  moreover have "drop (Suc 0 - cap r) [next_event r ts line] = [next_event r ts line]"
    using assms by (cases "cap r") (simp_all add: ring_inv_def)
  ultimately show ?thesis
    using full assms by (simp add: contents_Push_full lastn_def drop_Suc)
qed

lemma Since_filter: "Since since r = filter (\<lambda>ev. Seq ev > since) (contents r)"
proof -
  have "fold (\<lambda>i out. let ev = ring_entry r i in if Seq ev > since then out @ [ev] else out) is out
      = out @ filter (\<lambda>ev. Seq ev > since) (map (ring_entry r) is)" for "is" out
    by (induction "is" arbitrary: out) (simp_all add: Let_def)
  then show ?thesis by (simp add: Since_def contents_def)
qed

text \<open>The ring provides the bounded buffer of lines: an entry is a time stamp and a line.\<close>

interpretation ring: bounded_buffer
  "\<lambda>e r. snd (Push (fst e) (snd e) r)" "\<lambda>r. map (\<lambda>ev. (TS ev, Line ev)) (contents r)" cap ring_inv
  by unfold_locales
    (auto simp: ring_inv_Push contents_Push next_event_def lastn_def drop_map, simp_all add: ring_inv_def)

subsection \<open>A ring fed with a sequence of lines\<close>

definition feed :: "(string \<times> string) list \<Rightarrow> ring \<Rightarrow> ring" where
  "feed ls r = fold (\<lambda>(ts, line) r. snd (Push ts line r)) ls r"

text \<open>The events of a whole stream: line number i (from 1) carries sequence number i.\<close>

definition numbered :: "(string \<times> string) list \<Rightarrow> event list" where
  "numbered ls =
     map (\<lambda>(i, ts, line). \<lparr>Seq = word_of_nat i, TS = ts, Line = line\<rparr>) (enumerate 1 ls)"

lemma length_numbered [simp]: "length (numbered ls) = length ls"
  by (simp add: numbered_def)

lemma numbered_snoc:
  "numbered (ls @ [(ts, line)]) =
   numbered ls @ [\<lparr>Seq = word_of_nat (Suc (length ls)), TS = ts, Line = line\<rparr>]"
  by (simp add: numbered_def enumerate_append_eq)

lemma feed_snoc [simp]: "feed (ls @ [(ts, line)]) r = snd (Push ts line (feed ls r))"
  by (simp add: feed_def)

lemma ring_inv_feed [inv_intros]: "ring_inv r \<Longrightarrow> ring_inv (feed ls r)"
  by (induction ls rule: rev_induct) (auto simp: inv_intros feed_def)

lemma cap_feed [simp]: "cap (feed ls r) = cap r"
  by (induction ls rule: rev_induct) (auto simp: feed_def)

lemma nxt_feed: "nxt (feed ls (NewRing c)) = word_of_nat (length ls)"
  by (induction ls rule: rev_induct) (auto simp: feed_def NewRing_def Let_def)

lemma contents_feed:
  "contents (feed ls (NewRing c)) = lastn (cap (NewRing c)) (numbered ls)"
proof (induction ls rule: rev_induct)
  case Nil
  then show ?case by (simp add: feed_def numbered_def lastn_def)
next
  case (snoc l ls)
  obtain ts line where l: "l = (ts, line)" by (cases l)
  let ?r = "feed ls (NewRing c)"
  have inv: "ring_inv ?r" by (simp add: inv_intros)
  then have pos: "0 < cap (NewRing c)" by (simp add: ring_inv_def)
  have "contents (feed (ls @ [l]) (NewRing c)) =
      lastn (cap (NewRing c)) (lastn (cap (NewRing c)) (numbered ls) @ [next_event ?r ts line])"
    using contents_Push [OF inv] snoc.IH by (simp add: l)
  also have "\<dots> = lastn (cap (NewRing c)) (numbered ls @ [next_event ?r ts line])"
    using pos by (rule lastn_append1)
  also have "numbered ls @ [next_event ?r ts line] = numbered (ls @ [l])"
    by (simp add: l numbered_snoc next_event_def nxt_feed)
  finally show ?case .
qed

lemma less64_iff:
  "i < 2 ^ 64 \<Longrightarrow> j < 2 ^ 64 \<Longrightarrow> (word_of_nat i :: 64 word) < word_of_nat j \<longleftrightarrow> i < j"
  by (simp add: word_less_nat_alt unsigned_of_nat take_bit_nat_eq_self)

lemma filter_numbered:
  assumes "length ls < 2 ^ 64" and "k \<le> length ls"
  shows "filter (\<lambda>ev. Seq ev > word_of_nat k) (drop m (numbered ls)) = drop (max k m) (numbered ls)"
  using assms
proof (induction ls rule: rev_induct)
  case Nil
  then show ?case by (simp add: numbered_def)
next
  case (snoc l ls)
  obtain ts line where l: "l = (ts, line)" by (cases l)
  have less: "(word_of_nat k :: 64 word) < word_of_nat (Suc (length ls)) \<longleftrightarrow> k < Suc (length ls)"
    using snoc.prems by (intro less64_iff) simp_all
  show ?case
  proof (cases "k \<le> length ls")
    case True
    with snoc less show ?thesis by (cases "m \<le> length ls") (simp_all add: l numbered_snoc max_def)
  next
    case False
    with snoc.prems have k: "k = Suc (length ls)" by simp
    have "filter (\<lambda>ev. Seq ev > word_of_nat k) (drop m (numbered ls)) = []"
    proof (rule filter_False, rule ballI)
      fix ev assume "ev \<in> set (drop m (numbered ls))"
      then have "ev \<in> set (numbered ls)" by (rule in_set_dropD)
      then obtain i where "i < Suc (length ls)" "Seq ev = word_of_nat i"
        by (fastforce simp: numbered_def in_set_enumerate_eq)
      then show "\<not> word_of_nat k < Seq ev"
        using k snoc.prems less64_iff [of k i] by simp
    qed
    with k less show ?thesis by (cases "m \<le> length ls") (simp_all add: l numbered_snoc)
  qed
qed

subsection \<open>Properties\<close>

text \<open>
  C28: A ring refines the sequence of its pushes: whatever lines a stream produced, the ring holds
  the newest \<open>cap\<close> of them in order, numbered consecutively from 1 over the whole stream, and
  never more than its capacity.
\<close>

theorem ring_holds_newest:
  "contents (feed ls (NewRing c)) = lastn (cap (NewRing c)) (numbered ls) \<and>
   Len (feed ls (NewRing c)) = min (cap (NewRing c)) (length ls)"
  using contents_feed [of ls c] length_contents [of "feed ls (NewRing c)"] by (simp add: Len_def)

text \<open>
  Polling with \<open>?since=k\<close> loses nothing the ring still holds and repeats nothing: after a
  stream of fewer than \<open>2 ^ 64\<close> lines, \<open>Since k\<close> returns exactly the lines after number \<open>k\<close>,
  in order, cut to the newest \<open>cap\<close> of them when the poller has fallen behind.
\<close>

theorem ring_poll_since:
  assumes "length ls < 2 ^ 64" and "k \<le> length ls"
  shows "Since (word_of_nat k) (feed ls (NewRing c)) =
         lastn (cap (NewRing c)) (drop k (numbered ls))"
proof -
  let ?n = "length ls - cap (NewRing c)"
  have "Since (word_of_nat k) (feed ls (NewRing c)) = drop (max k ?n) (numbered ls)"
    using filter_numbered [OF assms, of ?n] by (simp add: Since_filter contents_feed lastn_def)
  also have "max k ?n = (length ls - k - cap (NewRing c)) + k" using assms(2) by simp
  finally show ?thesis by (simp add: lastn_def)
qed

theorem ring_poll_since_witness:
  "map Seq (Since 2 (feed [([], ''a''), ([], ''b''), ([], ''c''), ([], ''d'')] (NewRing 3))) = [3, 4]"
  using ring_poll_since [of "[([], ''a''), ([], ''b''), ([], ''c''), ([], ''d'')]" 2 3]
  by (simp add: numbered_def lastn_def NewRing_def Let_def)

end
