(* ===== verification/Go_Value.thy ===== *)
theory Go_Value
  imports Go_Strings Go_Time
begin

text \<open>
  Go values of type \<open>any\<close>, as encoding/json and the YAML decoder produce them, and their default
  formatting by \<open>fmt.Sprint\<close>.

  A float64 is represented by its shortest decimal (the digits strconv computes for it): sign,
  digits \<open>d1 d2 ...\<close> without trailing zeros, and the position of the decimal point, standing for
  \<open>0.d1d2... * 10^point\<close>. Zero has no digits. This is what formatting with precision -1 prints and
  what the conversions of the dispatcher look at.
\<close>

datatype f64 =
    F64 (f_neg: bool) (f_digits: "nat list") (f_point: int)
  | F64Inf bool
  | F64NaN

datatype goval =
    VNil
  | VBool bool
  | VInt int
  | VFloat f64
  | VNumber string
  | VStr string
  | VList "goval list"
  | VMap "(string \<times> goval) list"

definition digit_char :: "nat \<Rightarrow> char" where
  "digit_char d = char_of (48 + d)"

text \<open>\<open>x <= 0\<close> on float64 (every comparison with NaN is false).\<close>

fun f64_le_zero :: "f64 \<Rightarrow> bool" where
  "f64_le_zero (F64 neg ds p) = (neg \<or> ds = [])"
| "f64_le_zero (F64Inf neg) = neg"
| "f64_le_zero F64NaN = False"

fun f64_is_zero :: "f64 \<Rightarrow> bool" where
  "f64_is_zero (F64 neg ds p) = (ds = [])"
| "f64_is_zero _ = False"

definition decimal_nat :: "nat list \<Rightarrow> nat" where
  "decimal_nat ds = fold (\<lambda>d n. 10 * n + d) ds 0"

text \<open>The integer part of \<open>0.d1d2... * 10^p\<close>.\<close>

definition int_part :: "nat list \<Rightarrow> int \<Rightarrow> nat" where
  "int_part ds p =
     (if p \<le> 0 then 0
      else decimal_nat (take (nat p) ds @ replicate (nat p - length ds) 0))"

text \<open>
  \<open>int(f)\<close> and \<open>time.Duration(f * float64(time.Second))\<close>: truncation towards zero. A value out of
  the int64 range saturates and NaN gives 0, as on arm64, the platform of the release build. The
  product is taken on the decimal, without the rounding of the float64 multiplication (which
  stays below a nanosecond).
\<close>

fun f64_scaled_int :: "int \<Rightarrow> f64 \<Rightarrow> int" where
  "f64_scaled_int k (F64 neg ds p) =
     (let n = int (int_part ds (p + k)) in max min64 (min max64 (if neg then - n else n)))"
| "f64_scaled_int k (F64Inf neg) = (if neg then min64 else max64)"
| "f64_scaled_int k F64NaN = 0"

definition f64_to_int :: "f64 \<Rightarrow> int" where
  "f64_to_int = f64_scaled_int 0"

definition f64_seconds :: "f64 \<Rightarrow> duration" where
  "f64_seconds = f64_scaled_int 9"

lemma f64_seconds_is64: "is64 (f64_seconds f)"
  by (cases f) (auto simp: f64_seconds_def Let_def int64_defs min_def max_def)

subsection \<open>fmt.Sprint\<close>

text \<open>
  The default format of a float64 is strconv's 'g' with the shortest precision, which uses the
  exponent notation when the decimal exponent is below -4 or at least 6: 1000000 is printed as
  1e+06.
\<close>

definition fmt_exponent :: "int \<Rightarrow> string" where
  "fmt_exponent e =
     (let a = nat_digits (nat \<bar>e\<bar>)
      in ''e'' @ (if e < 0 then ''-'' else ''+'') @ (if length a < 2 then ''0'' @ a else a))"

definition fmtE :: "nat list \<Rightarrow> int \<Rightarrow> string" where
  "fmtE ds p =
     (let first = (case ds of [] \<Rightarrow> CHR ''0'' | d # _ \<Rightarrow> digit_char d);
          rest = map digit_char (tl ds);
          e = (if ds = [] then 0 else p - 1)
      in [first] @ (if rest = [] then [] else ''.'' @ rest) @ fmt_exponent e)"

definition digit_at :: "nat list \<Rightarrow> int \<Rightarrow> char" where
  "digit_at ds j = (if 0 \<le> j \<and> j < int (length ds) then digit_char (ds ! nat j) else CHR ''0'')"

definition fmtF :: "nat list \<Rightarrow> int \<Rightarrow> string" where
  "fmtF ds p =
     (let whole = (if p > 0 then map (\<lambda>i. digit_at ds (int i)) [0..<nat p] else ''0'');
          prec = nat (max (int (length ds) - p) 0);
          frac = map (\<lambda>i. digit_at ds (p + int i)) [0..<prec]
      in whole @ (if prec > 0 then ''.'' @ frac else []))"

definition shortest_eprec :: int where
  "shortest_eprec = 6"

fun fmt_float :: "f64 \<Rightarrow> string" where
  "fmt_float (F64 neg ds p) =
     (let e = p - 1
      in (if neg then ''-'' else []) @
         (if e < -4 \<or> e \<ge> shortest_eprec then fmtE ds p else fmtF ds p))"
| "fmt_float (F64Inf neg) = (if neg then ''-Inf'' else ''+Inf'')"
| "fmt_float F64NaN = ''NaN''"

text \<open>
  Slices print as \<open>[a b]\<close>, maps as \<open>map[k:v l:w]\<close> with the keys sorted, nil as \<open><nil>\<close>.
\<close>

primrec sprint :: "goval \<Rightarrow> string" where
  "sprint VNil = ''<nil>''"
| "sprint (VBool b) = (if b then ''true'' else ''false'')"
| "sprint (VInt i) = itoa i"
| "sprint (VFloat f) = fmt_float f"
| "sprint (VNumber s) = s"
| "sprint (VStr s) = s"
| "sprint (VList vs) = ''['' @ str_join (map sprint vs) '' '' @ '']''"
| "sprint (VMap kvs) =
     ''map['' @
     str_join (map (\<lambda>kv. fst kv @ '':'' @ snd kv) (sort_key fst (map (map_prod id sprint) kvs))) '' ''
     @ '']''"

lemma sprint_examples:
  "sprint (VFloat (F64 False [3,6] 7)) = ''3.6e+06''"
  "sprint (VFloat (F64 False [2,5,5] 3)) = ''255''"
  "sprint (VFloat (F64 True [1,5] 1)) = ''-1.5''"
  "sprint (VMap [(''b'', VBool True), (''a'', VList [VNil, VInt 12])]) =
   ''map[a:[<nil> 12] b:true]''"
  by code_simp+

subsection \<open>strconv.ParseFloat\<close>

text \<open>
  The float64 nearest to \<open>num / den\<close>, ties to even: a mantissa below \<open>2 ^ 53\<close> and a binary exponent,
  \<open>None\<close> on overflow. Exponents below -1074 do not exist (gradual underflow).
\<close>

definition div_even :: "nat \<Rightarrow> nat \<Rightarrow> nat" where
  "div_even n d =
     (let q = n div d; r = n mod d
      in if 2 * r < d \<or> 2 * r = d \<and> even q then q else q + 1)"

definition scaled :: "nat \<Rightarrow> nat \<Rightarrow> int \<Rightarrow> nat \<times> nat" where
  "scaled num den e = (if 0 \<le> e then (num, den * 2 ^ nat e) else (num * 2 ^ nat (- e), den))"

fun bit_size :: "nat \<Rightarrow> nat" where
  "bit_size n = (if n = 0 then 0 else Suc (bit_size (n div 2)))"

declare bit_size.simps [simp del]

definition round_double :: "nat \<Rightarrow> nat \<Rightarrow> (nat \<times> int) option" where
  "round_double num den =
     (if num = 0 then Some (0, 0)
      else
        let e0 = int (bit_size num) - int (bit_size den) - 53;
            e1 = max (- 1074)
                   (let (n, d) = scaled num den e0 in if n div d < 2 ^ 53 then e0 else e0 + 1);
            (n, d) = scaled num den e1;
            q = div_even n d;
            (q, e) = (if q = 2 ^ 53 then (2 ^ 52, e1 + 1) else (q, e1))
        in if 971 < e then None else Some (q, e))"

text \<open>The shortest decimal that reads back as the float64 \<open>q * 2 ^ e\<close>: up to 17 digits.\<close>

fun strip_zeros :: "nat list \<Rightarrow> nat list" where
  "strip_zeros ds = rev (dropWhile (\<lambda>d. d = 0) (rev ds))"

fun digits_of :: "nat \<Rightarrow> nat list" where
  "digits_of n = (if n < 10 then [n] else digits_of (n div 10) @ [n mod 10])"

declare digits_of.simps [simp del]

definition fraction :: "nat \<Rightarrow> int \<Rightarrow> nat \<times> nat" where
  "fraction q e = (if 0 \<le> e then (q * 2 ^ nat e, 1) else (q, 2 ^ nat (- e)))"

definition ten_scaled :: "nat \<times> nat \<Rightarrow> int \<Rightarrow> nat \<times> nat" where
  "ten_scaled nd k =
     (if 0 \<le> k then (fst nd * 10 ^ nat k, snd nd) else (fst nd, snd nd * 10 ^ nat (- k)))"

text \<open>The decimal point position \<open>p\<close> with \<open>10 ^ (p-1) \<le> n/d < 10 ^ p\<close>.\<close>

definition decimal_point :: "nat \<Rightarrow> nat \<Rightarrow> int" where
  "decimal_point n d =
     (if d \<le> n then int (length (digits_of (n div d)))
      else int (length (digits_of n)) - int (length (digits_of d)) +
        (let (a, b) = ten_scaled (n, d) (int (length (digits_of d)) - int (length (digits_of n)))
         in if b \<le> a then 1 else 0))"

definition try_digits :: "nat \<Rightarrow> int \<Rightarrow> int \<Rightarrow> nat \<Rightarrow> (nat list \<times> int) option" where
  "try_digits q e p k =
     (let (a, b) = ten_scaled (fraction q e) (int k - p);
          c = div_even a b;
          (n, d) = ten_scaled (c, 1) (p - int k)
      in if round_double n d = Some (q, e)
         then Some (strip_zeros (digits_of c), p + int (length (digits_of c)) - int k)
         else None)"

definition shortest :: "bool \<Rightarrow> nat \<times> int \<Rightarrow> f64" where
  "shortest neg qe =
     (if fst qe = 0 then F64 neg [] 0
      else
        let (n, d) = fraction (fst qe) (snd qe); p = decimal_point n d
        in case List.find (\<lambda>k. try_digits (fst qe) (snd qe) p k \<noteq> None) [1..<18] of
             None \<Rightarrow> F64NaN
           | Some k \<Rightarrow>
               (case try_digits (fst qe) (snd qe) p k of
                  None \<Rightarrow> F64NaN
                | Some (ds, p') \<Rightarrow> F64 neg ds p'))"

text \<open>The literal of a JSON number; an overflow is an error (\<open>None\<close>).\<close>

definition parse_float :: "string \<Rightarrow> f64 option" where
  "parse_float s =
     (let (neg, s) = (if take 1 s = ''-'' then (True, drop 1 s) else (False, s));
          isd = (\<lambda>c. digit_val c \<noteq> None);
          ip = takeWhile isd s; s = dropWhile isd s;
          (fp, s) = (if take 1 s = ''.'' then (takeWhile isd (drop 1 s), dropWhile isd (drop 1 s)) else ([], s));
          ex = (if take 1 s = ''e'' \<or> take 1 s = ''E'' then atoi (drop 1 s) else Some 0)
      in case (digits_val 0 (ip @ fp), ex) of
           (Some n, Some x) \<Rightarrow>
             (let (a, b) = ten_scaled (nat n, 1) (x - int (length fp))
              in map_option (shortest neg) (round_double a b))
         | _ \<Rightarrow> None)"

end
