(* ===== verification/Config.thy ===== *)
theory Config
  imports Go_Value
begin

text \<open>
  \<open>internal/config/config.go\<close>: the daemon block of the catalog, its defaults and its validation.
  Error messages are represented by constructors.
\<close>

record daemon =
  Listen :: string
  TaskTimeoutS :: int
  MaxRetries :: int
  BackoffBaseS :: f64
  CBTripThreshold :: int
  CBOpenS :: int
  MaxQueueDepth :: int
  StreamBufferDefault :: int

definition Default :: daemon where
  "Default =
     \<lparr>Listen = ''127.0.0.1:8477'', TaskTimeoutS = 30, MaxRetries = 5,
      BackoffBaseS = F64 False [1] 1, CBTripThreshold = 5, CBOpenS = 60,
      MaxQueueDepth = 1024, StreamBufferDefault = 128\<rparr>"

datatype config_error =
    ListenRequired
  | ListenNotHostPort string
  | ListenNotLoopback string
  | TaskTimeoutNotPositive
  | MaxRetriesNegative
  | BackoffBaseNotPositive
  | TripThresholdNotPositive
  | OpenNotPositive
  | QueueDepthNotPositive
  | StreamBufferNotPositive

text \<open>\<open>splitHostPort\<close>: exactly one colon, split there.\<close>

definition splitHostPort :: "string \<Rightarrow> string \<times> string \<times> bool" where
  "splitHostPort addr =
     (if str_count_byte addr (CHR '':'') \<noteq> 1 then ([], [], False)
      else case index_byte addr (CHR '':'') of
             None \<Rightarrow> ([], [], False)
           | Some i \<Rightarrow> (take i addr, drop (i + 1) addr, True))"

definition Validate :: "daemon \<Rightarrow> config_error option" where
  "Validate d =
     (if Listen d = [] then Some ListenRequired
      else let (host, port, ok) = splitHostPort (Listen d)
      in if \<not> ok \<or> port = [] then Some (ListenNotHostPort (Listen d))
      else if host \<noteq> ''127.0.0.1'' \<and> host \<noteq> ''localhost'' then Some (ListenNotLoopback host)
      else if TaskTimeoutS d \<le> 0 then Some TaskTimeoutNotPositive
      else if MaxRetries d < 0 then Some MaxRetriesNegative
      else if f64_le_zero (BackoffBaseS d) then Some BackoffBaseNotPositive
      else if CBTripThreshold d \<le> 0 then Some TripThresholdNotPositive
      else if CBOpenS d \<le> 0 then Some OpenNotPositive
      else if MaxQueueDepth d \<le> 0 then Some QueueDepthNotPositive
      else if StreamBufferDefault d \<le> 0 then Some StreamBufferNotPositive
      else None)"

text \<open>What a daemon block that passes validation guarantees.\<close>

definition valid_daemon :: "daemon \<Rightarrow> bool" where
  "valid_daemon d \<longleftrightarrow>
     (\<exists>host port. Listen d = host @ '':'' @ port \<and> host \<in> {''127.0.0.1'', ''localhost''} \<and>
        port \<noteq> [] \<and> CHR '':'' \<notin> set port) \<and>
     0 < TaskTimeoutS d \<and> 0 \<le> MaxRetries d \<and> \<not> f64_le_zero (BackoffBaseS d) \<and>
     0 < CBTripThreshold d \<and> 0 < CBOpenS d \<and> 0 < MaxQueueDepth d \<and> 0 < StreamBufferDefault d"

lemma str_count_byte_append [simp]:
  "str_count_byte (a @ b) c = str_count_byte a c + str_count_byte b c"
  by (simp add: str_count_byte_def)

lemma str_count_byte_Cons [simp]:
  "str_count_byte (x # b) c = (if x = c then 1 else 0) + str_count_byte b c"
  by (simp add: str_count_byte_def)

lemma str_count_byte_0: "str_count_byte s c = 0 \<longleftrightarrow> c \<notin> set s"
  by (auto simp: str_count_byte_def filter_empty_conv)

lemma index_byte_append: "c \<notin> set a \<Longrightarrow> index_byte (a @ c # b) c = Some (length a)"
  by (induction a) auto

lemma splitHostPort_ok:
  "splitHostPort addr = (host, port, True) \<longleftrightarrow>
   addr = host @ '':'' @ port \<and> CHR '':'' \<notin> set host \<and> CHR '':'' \<notin> set port"
proof
  assume a: "splitHostPort addr = (host, port, True)"
  then obtain i where one: "str_count_byte addr (CHR '':'') = 1"
    and i: "index_byte addr (CHR '':'') = Some i"
    and hp: "host = take i addr" "port = drop (i + 1) addr"
    by (auto simp: splitHostPort_def split: if_splits option.splits)
  have eq: "addr = host @ '':'' @ port"
    using index_byte_SomeD [OF i] id_take_nth_drop [of i addr] by (simp add: hp)
  with one have "str_count_byte host (CHR '':'') = 0" "str_count_byte port (CHR '':'') = 0"
    by simp_all
  with eq show "addr = host @ '':'' @ port \<and> CHR '':'' \<notin> set host \<and> CHR '':'' \<notin> set port"
    by (simp add: str_count_byte_0)
next
  assume a: "addr = host @ '':'' @ port \<and> CHR '':'' \<notin> set host \<and> CHR '':'' \<notin> set port"
  then have "str_count_byte addr (CHR '':'') = 1"
    using str_count_byte_0 [of host] str_count_byte_0 [of port] by simp
  with a show "splitHostPort addr = (host, port, True)"
    by (simp add: splitHostPort_def index_byte_append)
qed

lemma Validate_sound:
  assumes "Validate d = None"
  shows "valid_daemon d"
proof -
  obtain host port ok where hp: "splitHostPort (Listen d) = (host, port, ok)"
    by (metis prod_cases3)
  note v = assms [unfolded Validate_def hp Let_def prod.case, unfolded if_Some_None]
  from v have "\<not> (\<not> ok \<or> port = [])" and h: "\<not> (host \<noteq> ''127.0.0.1'' \<and> host \<noteq> ''localhost'')"
    by - (elim conjE, assumption)+
  then have ok: ok and port: "port \<noteq> []" by simp_all
  from h have host: "host \<in> {''127.0.0.1'', ''localhost''}" by blast
  from hp ok have "splitHostPort (Listen d) = (host, port, True)" by simp
  note addr = splitHostPort_ok [THEN iffD1, OF this]
  from v have "\<not> TaskTimeoutS d \<le> 0" "\<not> MaxRetries d < 0" "\<not> CBTripThreshold d \<le> 0"
    "\<not> CBOpenS d \<le> 0" "\<not> MaxQueueDepth d \<le> 0" "\<not> StreamBufferDefault d \<le> 0"
    and base: "\<not> f64_le_zero (BackoffBaseS d)"
    by - (elim conjE, assumption)+
  then have "0 < TaskTimeoutS d \<and> 0 \<le> MaxRetries d \<and> 0 < CBTripThreshold d \<and>
    0 < CBOpenS d \<and> 0 < MaxQueueDepth d \<and> 0 < StreamBufferDefault d"
    by linarith
  moreover have "\<exists>host port. Listen d = host @ '':'' @ port \<and>
    host \<in> {''127.0.0.1'', ''localhost''} \<and> port \<noteq> [] \<and> CHR '':'' \<notin> set port"
    using addr host port by (intro exI conjI) (elim conjE, assumption)+
  ultimately show ?thesis unfolding valid_daemon_def using base by (intro conjI) (elim conjE, assumption)+
qed

lemma Validate_complete:
  assumes "valid_daemon d"
  shows "Validate d = None"
proof -
  obtain host port where hp: "Listen d = host @ '':'' @ port"
    "host \<in> {''127.0.0.1'', ''localhost''}" "port \<noteq> []" "CHR '':'' \<notin> set port"
    using assms unfolding valid_daemon_def by blast
  from hp(2) have "CHR '':'' \<notin> set host" by auto
  with hp(1,4) have split: "splitHostPort (Listen d) = (host, port, True)"
    by (intro splitHostPort_ok [THEN iffD2] conjI)
  have ne: "Listen d \<noteq> []" using hp(1) by simp
  have h: "\<not> (host \<noteq> ''127.0.0.1'' \<and> host \<noteq> ''localhost'')" using hp(2) by blast
  have rest: "\<not> TaskTimeoutS d \<le> 0" "\<not> MaxRetries d < 0" "\<not> f64_le_zero (BackoffBaseS d)"
    "\<not> CBTripThreshold d \<le> 0" "\<not> CBOpenS d \<le> 0" "\<not> MaxQueueDepth d \<le> 0"
    "\<not> StreamBufferDefault d \<le> 0"
    using assms unfolding valid_daemon_def by linarith+
  show ?thesis
    unfolding Validate_def split Let_def prod.case if_Some_None using hp(3) ne h rest by blast
qed

lemma Validate_iff: "Validate d = None \<longleftrightarrow> valid_daemon d"
  using Validate_sound Validate_complete by blast

lemma Default_valid: "Validate Default = None"
  by code_simp

end
