(* ===== verification/Allowlist.thy ===== *)
theory Allowlist
  imports Go_Strings
begin

text \<open>
  \<open>internal/termuxallow/allowlist.go\<close>: the checked-in table of Termux binaries with their flags,
  and the validation of an argv template against it. A Go set of flags is a list.
\<close>

record binary =
  bName :: string
  Mutating :: bool
  Flags :: "string list"

definition flags :: "string list \<Rightarrow> string list" where
  "flags l = remdups l"

definition Binaries :: "binary gomap" where
  "Binaries =
     [
      (''termux-audio-info'', \<lparr>bName = ''termux-audio-info'', Mutating = False, Flags = flags []\<rparr>),
      (''termux-battery-status'', \<lparr>bName = ''termux-battery-status'', Mutating = False, Flags = flags []\<rparr>),
      (''termux-call-log'', \<lparr>bName = ''termux-call-log'', Mutating = False, Flags = flags [
        ''-l'', ''-o'']\<rparr>),
      (''termux-camera-info'', \<lparr>bName = ''termux-camera-info'', Mutating = False, Flags = flags []\<rparr>),
      (''termux-clipboard-get'', \<lparr>bName = ''termux-clipboard-get'', Mutating = False, Flags = flags []\<rparr>),
      (''termux-contact-list'', \<lparr>bName = ''termux-contact-list'', Mutating = False, Flags = flags []\<rparr>),
      (''termux-infrared-frequencies'', \<lparr>bName = ''termux-infrared-frequencies'', Mutating = False, Flags = flags []\<rparr>),
      (''termux-location'', \<lparr>bName = ''termux-location'', Mutating = False, Flags = flags [
        ''-p'', ''-r'']\<rparr>),
      (''termux-notification-list'', \<lparr>bName = ''termux-notification-list'', Mutating = False, Flags = flags []\<rparr>),
      (''termux-saf-dirs'', \<lparr>bName = ''termux-saf-dirs'', Mutating = False, Flags = flags []\<rparr>),
      (''termux-saf-ls'', \<lparr>bName = ''termux-saf-ls'', Mutating = False, Flags = flags [''-u'']\<rparr>),
      (''termux-saf-read'', \<lparr>bName = ''termux-saf-read'', Mutating = False, Flags = flags []\<rparr>),
      (''termux-saf-stat'', \<lparr>bName = ''termux-saf-stat'', Mutating = False, Flags = flags []\<rparr>),
      (''termux-sensor'', \<lparr>bName = ''termux-sensor'', Mutating = False, Flags = flags [
        ''-s'', ''-n'', ''-d'', ''-a'', ''-l'', ''-c'']\<rparr>),
      (''termux-sms-inbox'', \<lparr>bName = ''termux-sms-inbox'', Mutating = False, Flags = flags [
        ''-d'', ''-l'', ''-n'', ''-o'', ''-t'', ''--version'']\<rparr>),
      (''termux-sms-list'', \<lparr>bName = ''termux-sms-list'', Mutating = False, Flags = flags [
        ''-d'', ''-l'', ''-n'', ''-o'', ''-t'', ''--version'']\<rparr>),
      (''termux-telephony-cellinfo'', \<lparr>bName = ''termux-telephony-cellinfo'', Mutating = False, Flags = flags []\<rparr>),
      (''termux-telephony-deviceinfo'', \<lparr>bName = ''termux-telephony-deviceinfo'', Mutating = False, Flags = flags []\<rparr>),
      (''termux-tts-engines'', \<lparr>bName = ''termux-tts-engines'', Mutating = False, Flags = flags []\<rparr>),
      (''termux-usb'', \<lparr>bName = ''termux-usb'', Mutating = False, Flags = flags [''-l'',
        ''-r'', ''-e'', ''-E'']\<rparr>),
      (''termux-volume'', \<lparr>bName = ''termux-volume'', Mutating = False, Flags = flags []\<rparr>),
      (''termux-wifi-connectioninfo'', \<lparr>bName = ''termux-wifi-connectioninfo'', Mutating = False, Flags = flags []\<rparr>),
      (''termux-wifi-scaninfo'', \<lparr>bName = ''termux-wifi-scaninfo'', Mutating = False, Flags = flags []\<rparr>),
      (''termux-nfc'', \<lparr>bName = ''termux-nfc'', Mutating = False, Flags = flags [''-r'',
        ''-w'', ''-t'', ''-n'']\<rparr>),
      (''termux-brightness'', \<lparr>bName = ''termux-brightness'', Mutating = True, Flags = flags []\<rparr>),
      (''termux-camera-photo'', \<lparr>bName = ''termux-camera-photo'', Mutating = True, Flags = flags [
        ''-c'', ''-f'', ''-p'', ''-i'']\<rparr>),
      (''termux-clipboard-set'', \<lparr>bName = ''termux-clipboard-set'', Mutating = True, Flags = flags []\<rparr>),
      (''termux-dialog'', \<lparr>bName = ''termux-dialog'', Mutating = True, Flags = flags [''-i'',
        ''-m'', ''-p'', ''-n'', ''-t'', ''-d'', ''-v'', ''-r'']\<rparr>),
      (''termux-download'', \<lparr>bName = ''termux-download'', Mutating = True, Flags = flags [
        ''-d'', ''-p'', ''-t'']\<rparr>),
      (''termux-fingerprint'', \<lparr>bName = ''termux-fingerprint'', Mutating = True, Flags = flags [
        ''-t'', ''-d'', ''-s'', ''-c'']\<rparr>),
      (''termux-infrared-transmit'', \<lparr>bName = ''termux-infrared-transmit'', Mutating = True, Flags = flags [
        ''-f'']\<rparr>),
      (''termux-job-scheduler'', \<lparr>bName = ''termux-job-scheduler'', Mutating = True, Flags = flags [
        ''-s'', ''-j'', ''--job-id'', ''--period-ms'', ''--network'', ''--battery-not-low'',
        ''--charging'', ''--persisted'', ''--storage-not-low'', ''--trigger-content-uri'',
        ''--trigger-content-flag'', ''--cancel'', ''--cancel-all'']\<rparr>),
      (''termux-keystore'', \<lparr>bName = ''termux-keystore'', Mutating = True, Flags = flags [
        ''-a'', ''-d'', ''-f'', ''-u'', ''-i'', ''-p'', ''-v'', ''-s'', ''-1'']\<rparr>),
      (''termux-media-player'', \<lparr>bName = ''termux-media-player'', Mutating = True, Flags = flags [
        ''-f'']\<rparr>),
      (''termux-media-scan'', \<lparr>bName = ''termux-media-scan'', Mutating = True, Flags = flags [
        ''-r'', ''-v'']\<rparr>),
      (''termux-microphone-record'', \<lparr>bName = ''termux-microphone-record'', Mutating = True, Flags = flags [
        ''-d'', ''-f'', ''-l'', ''-i'', ''-c'', ''-q'']\<rparr>),
      (''termux-notification'', \<lparr>bName = ''termux-notification'', Mutating = True, Flags = flags [
        ''-c'', ''-t'', ''-i'', ''-id'', ''--id'', ''-u'', ''--ongoing'', ''--priority'',
        ''--sound'', ''--vibrate'', ''--channel'', ''--group'', ''--icon'', ''--image-path'',
        ''--action'', ''--on-delete'', ''--button1'', ''--button1-action'', ''--button2'',
        ''--button2-action'', ''--button3'', ''--button3-action'', ''--led-color'', ''--led-on'',
        ''--led-off'', ''--alert-once'', ''--type'', ''--media-play'', ''--media-pause'',
        ''--media-next'', ''--media-previous'', ''--help-actions'', ''-n'']\<rparr>),
      (''termux-notification-channel'', \<lparr>bName = ''termux-notification-channel'', Mutating = True, Flags = flags [
        ''-d'', ''-i'', ''-n'', ''-s'', ''-v'', ''-l'', ''-b'', ''-c'', ''-g'', ''-p'', ''-t'',
        ''-u'', ''-m'', ''-y'']\<rparr>),
      (''termux-notification-remove'', \<lparr>bName = ''termux-notification-remove'', Mutating = True, Flags = flags [
        ''-i'', ''--id'']\<rparr>),
      (''termux-saf-create'', \<lparr>bName = ''termux-saf-create'', Mutating = True, Flags = flags [
        ''-u'', ''-t'', ''-n'', ''-m'']\<rparr>),
      (''termux-saf-managedir'', \<lparr>bName = ''termux-saf-managedir'', Mutating = True, Flags = flags []\<rparr>),
      (''termux-saf-mkdir'', \<lparr>bName = ''termux-saf-mkdir'', Mutating = True, Flags = flags [
        ''-u'', ''-n'']\<rparr>),
      (''termux-saf-rm'', \<lparr>bName = ''termux-saf-rm'', Mutating = True, Flags = flags [''-u'']\<rparr>),
      (''termux-saf-write'', \<lparr>bName = ''termux-saf-write'', Mutating = True, Flags = flags [
        ''-u'']\<rparr>),
      (''termux-share'', \<lparr>bName = ''termux-share'', Mutating = True, Flags = flags [''-a'',
        ''-c'', ''-d'', ''-t'', ''-e'']\<rparr>),
      (''termux-sms-send'', \<lparr>bName = ''termux-sms-send'', Mutating = True, Flags = flags [
        ''-n'', ''-s'']\<rparr>),
      (''termux-speech-to-text'', \<lparr>bName = ''termux-speech-to-text'', Mutating = True, Flags = flags []\<rparr>),
      (''termux-storage-get'', \<lparr>bName = ''termux-storage-get'', Mutating = True, Flags = flags [
        ''-f'']\<rparr>),
      (''termux-telephony-call'', \<lparr>bName = ''termux-telephony-call'', Mutating = True, Flags = flags []\<rparr>),
      (''termux-toast'', \<lparr>bName = ''termux-toast'', Mutating = True, Flags = flags [''-b'',
        ''-c'', ''-g'', ''-s'', ''-t'']\<rparr>),
      (''termux-torch'', \<lparr>bName = ''termux-torch'', Mutating = True, Flags = flags []\<rparr>),
      (''termux-tts-speak'', \<lparr>bName = ''termux-tts-speak'', Mutating = True, Flags = flags [
        ''-e'', ''-l'', ''-n'', ''-p'', ''-r'', ''-s'', ''-t'', ''-v'', ''--engine'',
        ''--language'', ''--pitch'', ''--rate'', ''--stream'']\<rparr>),
      (''termux-vibrate'', \<lparr>bName = ''termux-vibrate'', Mutating = True, Flags = flags [
        ''-d'', ''-f'']\<rparr>),
      (''termux-wallpaper'', \<lparr>bName = ''termux-wallpaper'', Mutating = True, Flags = flags [
        ''-f'', ''-l'', ''--file'', ''--lockscreen'']\<rparr>),
      (''termux-wifi-enable'', \<lparr>bName = ''termux-wifi-enable'', Mutating = True, Flags = flags []\<rparr>),
      (''termux-open'', \<lparr>bName = ''termux-open'', Mutating = True, Flags = flags [''-a'',
        ''-c'', ''-d'', ''--chooser'', ''--content-type'', ''--send'']\<rparr>)]"

definition Lookup :: "string \<Rightarrow> binary option" where
  "Lookup argv0 = map_of Binaries argv0"

definition isTemplate :: "string \<Rightarrow> bool" where
  "isTemplate s \<longleftrightarrow>
     length s \<ge> 5 \<and> s ! 0 = CHR ''{'' \<and> s ! 1 = CHR ''{'' \<and>
     s ! (length s - 2) = CHR ''}'' \<and> s ! (length s - 1) = CHR ''}''"

text \<open>The flag of a token: the part before an equals sign that is not its first byte.\<close>

definition flag_part :: "string \<Rightarrow> string" where
  "flag_part tok =
     (case index_byte tok (CHR ''='') of
        Some eq \<Rightarrow> if eq > 0 then take eq tok else tok
      | None \<Rightarrow> tok)"

datatype allow_error =
    EmptyArgv
  | UnknownBinary string
  | UnknownFlag string string

text \<open>The loop of \<open>ValidateArgv\<close> over \<open>argv[1:]\<close>.\<close>

fun validate_tokens :: "string \<Rightarrow> binary \<Rightarrow> string list \<Rightarrow> allow_error option" where
  "validate_tokens argv0 b [] = None"
| "validate_tokens argv0 b (tok # toks) =
     (if isTemplate tok then validate_tokens argv0 b toks
      else if length tok > 0 \<and> tok ! 0 = CHR ''-'' then
        (let flag = flag_part tok
         in if flag \<notin> set (Flags b) then Some (UnknownFlag argv0 flag)
            else validate_tokens argv0 b toks)
      else validate_tokens argv0 b toks)"

definition ValidateArgv :: "string list \<Rightarrow> allow_error option" where
  "ValidateArgv argv =
     (case argv of
        [] \<Rightarrow> Some EmptyArgv
      | argv0 # toks \<Rightarrow>
          (case Lookup argv0 of
             None \<Rightarrow> Some (UnknownBinary argv0)
           | Some b \<Rightarrow> validate_tokens argv0 b toks))"

definition IsMutating :: "string \<Rightarrow> bool" where
  "IsMutating argv0 = (case Lookup argv0 of None \<Rightarrow> True | Some b \<Rightarrow> Mutating b)"

subsection \<open>What a validated argv satisfies\<close>

definition token_ok :: "binary \<Rightarrow> string \<Rightarrow> bool" where
  "token_ok b tok \<longleftrightarrow>
     isTemplate tok \<or> \<not> has_prefix tok ''-'' \<or> flag_part tok \<in> set (Flags b)"

lemma has_prefix_dash: "has_prefix tok [c] \<longleftrightarrow> length tok > 0 \<and> tok ! 0 = c"
  by (cases tok) (auto simp: has_prefix_def)

lemma validate_tokens_iff:
  "validate_tokens argv0 b toks = None \<longleftrightarrow> (\<forall>tok \<in> set toks. token_ok b tok)"
  by (induction toks) (auto simp: token_ok_def has_prefix_dash Let_def)

lemma ValidateArgv_iff:
  "ValidateArgv argv = None \<longleftrightarrow>
   (\<exists>argv0 toks b. argv = argv0 # toks \<and> Lookup argv0 = Some b \<and> (\<forall>tok \<in> set toks. token_ok b tok))"
  by (auto simp: ValidateArgv_def validate_tokens_iff split: list.splits option.splits)

text \<open>The table is a map, each entry is filed under its own name, and every name is a termux binary.\<close>

lemma Binaries_wf: "wf_map Binaries"
  by code_simp

lemma Binaries_names: "\<forall>(k, b) \<in> set Binaries. bName b = k \<and> has_prefix k ''termux-''"
  by code_simp

lemma Lookup_Name: "Lookup argv0 = Some b \<Longrightarrow> bName b = argv0 \<and> has_prefix argv0 ''termux-''"
  using Binaries_names by (auto simp: Lookup_def dest: map_of_SomeD)

end
