(* ===== verification/Verbs.thy ===== *)
theory Verbs
  imports Config Allowlist
begin

text \<open>
  \<open>internal/verbs/verbs.go\<close>: the verb catalog, its loading and validation. The YAML decoder is a
  third-party package: decoding the document into the \<open>File\<close> struct, reading it as a node tree and
  re-marshalling a watch value are parameters of \<open>Parse\<close>. Everything the code does with what they
  return is modelled. A YAML value held in an \<open>any\<close> is a \<^typ>\<open>goval\<close>.
\<close>

definition SchemaVersion :: int where "SchemaVersion = 1"
definition TierA :: string where "TierA = ''A''"
definition TierB :: string where "TierB = ''B''"
definition ParserJSON :: string where "ParserJSON = ''json''"
definition ParserText :: string where "ParserText = ''text''"
definition ParserExit :: string where "ParserExit = ''exit''"

lemmas tier_defs = TierA_def TierB_def
lemmas parser_defs = ParserJSON_def ParserText_def ParserExit_def

record arg_spec =
  aName :: string
  aFlag :: string
  aType :: string
  aRequired :: bool

record watch =
  wMode :: string
  wBuffer :: int

text \<open>The dynamic types the \<open>Watch\<close> field can hold: a decoded YAML value, a \<open>Watch\<close>, a \<open>*Watch\<close>.\<close>

datatype watch_any =
    WAny goval
  | WStruct watch
  | WPtr "watch option"

record verb =
  vName :: string
  vTier :: string
  vArgv :: "string list"
  vArgs :: "arg_spec list"
  vStdinArg :: "string option"
  vTimeoutS :: int
  vRetries :: "int option"
  vRetryBackoff :: string
  vCBThreshold :: "int option"
  vParser :: string
  vWatch :: watch_any

record catalog_file =
  fVersion :: int
  fDaemon :: daemon
  fVerbs :: "verb list"

record catalog =
  cDaemon :: daemon
  ByName :: "verb gomap"
  Aliases :: "string gomap"
  Order :: "string list"

datatype verb_error =
    NameRequired
  | NameWhitespace
  | BadTier string
  | ArgvRequired
  | NotTermux string
  | NotAllowed allow_error
  | TierAMutating string
  | TierANfcWrite
  | TimeoutNegative
  | RetriesNegative
  | BadParser string
  | WatchTrue
  | WatchUnknownField string
  | WatchBadMode string
  | WatchDecode string
  | StreamNotAllowed string
  | StreamBadBinary string string
  | ArgMissingName
  | ArgBadFlag string string
  | StdinArgEmpty

datatype parse_error =
    ReadFailed string
  | DecodeFailed string
  | BadVersion int
  | BadDaemon config_error
  | NoVerbs
  | VerbInvalid nat string verb_error
  | DuplicateVerb string

subsection \<open>Validation of one verb\<close>

definition streamVerbs :: "string gomap" where
  "streamVerbs =
     [(''location.stream'', ''termux-location''), (''sensor.stream'', ''termux-sensor'')]"

definition requireStreamAllowlisted :: "verb \<Rightarrow> verb_error option" where
  "requireStreamAllowlisted v =
     (case map_of streamVerbs (vName v) of
        None \<Rightarrow> Some (StreamNotAllowed (vName v))
      | Some wantBin \<Rightarrow>
          (case vArgv v of
             [] \<Rightarrow> Some (StreamBadBinary (vName v) wantBin)
           | argv0 # _ \<Rightarrow>
               if argv0 \<noteq> wantBin then Some (StreamBadBinary (vName v) wantBin) else None))"

text \<open>\<open>mode, _ := t["mode"].(string)\<close>: the empty string when absent or of another type.\<close>

definition map_string :: "(string \<times> goval) list \<Rightarrow> string \<Rightarrow> string" where
  "map_string t k = (case map_of t k of Some (VStr s) \<Rightarrow> s | _ \<Rightarrow> [])"

definition validateWatch :: "(watch_any \<Rightarrow> string + watch) \<Rightarrow> verb \<Rightarrow> verb_error option" where
  "validateWatch remarshal v =
     (case vWatch v of
        WAny VNil \<Rightarrow> None
      | WAny (VBool b) \<Rightarrow> (if b then Some WatchTrue else None)
      | WAny (VMap t) \<Rightarrow>
          (case find (\<lambda>k. k \<noteq> ''mode'' \<and> k \<noteq> ''buffer'') (map fst t) of
             Some k \<Rightarrow> Some (WatchUnknownField k)
           | None \<Rightarrow>
               (let mode = map_string t ''mode''
                in if mode \<noteq> ''stream'' then Some (WatchBadMode mode)
                   else requireStreamAllowlisted v))
      | w \<Rightarrow>
          (case remarshal w of
             Inl msg \<Rightarrow> Some (WatchDecode msg)
           | Inr ww \<Rightarrow>
               if wMode ww \<noteq> [] \<and> wMode ww \<noteq> ''stream'' then Some (WatchBadMode (wMode ww))
               else if wMode ww = ''stream'' then requireStreamAllowlisted v
               else None))"

text \<open>The loop over \<open>v.Argv[1:]\<close> that keeps the NFC write flag out of tier A.\<close>

definition nfc_write :: "string \<Rightarrow> string list \<Rightarrow> bool" where
  "nfc_write argv0 toks \<longleftrightarrow>
     list_ex (\<lambda>tok. argv0 = ''termux-nfc'' \<and> flag_part tok = ''-w'') toks"

fun validate_args :: "arg_spec list \<Rightarrow> verb_error option" where
  "validate_args [] = None"
| "validate_args (a # as) =
     (if aName a = [] then Some ArgMissingName
      else if aFlag a \<noteq> [] \<and> \<not> has_prefix (aFlag a) ''-'' then Some (ArgBadFlag (aName a) (aFlag a))
      else validate_args as)"

definition validateVerb :: "(watch_any \<Rightarrow> string + watch) \<Rightarrow> verb \<Rightarrow> daemon \<Rightarrow> verb_error option" where
  "validateVerb remarshal v d =
     (if vName v = [] then Some NameRequired
      else if contains_any (vName v) [CHR '' '', CHR 0x09] then Some NameWhitespace
      else if vTier v \<noteq> TierA \<and> vTier v \<noteq> TierB then Some (BadTier (vTier v))
      else case vArgv v of
        [] \<Rightarrow> Some ArgvRequired
      | argv0 # toks \<Rightarrow>
          if \<not> has_prefix argv0 ''termux-'' then Some (NotTermux argv0)
          else case ValidateArgv (vArgv v) of
            Some e \<Rightarrow> Some (NotAllowed e)
          | None \<Rightarrow>
              if vTier v = TierA \<and> IsMutating argv0 then Some (TierAMutating argv0)
              else if vTier v = TierA \<and> nfc_write argv0 toks then Some TierANfcWrite
              else if vTimeoutS v < 0 then Some TimeoutNegative
              else if (case vRetries v of Some n \<Rightarrow> n < 0 | None \<Rightarrow> False) then Some RetriesNegative
              else if vParser v \<noteq> ParserJSON \<and> vParser v \<noteq> ParserText \<and>
                      vParser v \<noteq> ParserExit \<and> vParser v \<noteq> [] then Some (BadParser (vParser v))
              else case validateWatch remarshal v of
                Some e \<Rightarrow> Some e
              | None \<Rightarrow>
                  (case validate_args (vArgs v) of
                     Some e \<Rightarrow> Some e
                   | None \<Rightarrow> if vStdinArg v = Some [] then Some StdinArgEmpty else None))"

subsection \<open>Loading the catalog\<close>

definition applyDaemonDefaults :: "daemon \<Rightarrow> bool \<Rightarrow> daemon" where
  "applyDaemonDefaults d maxRetriesSet =
     (let def = Default;
          d = (if Listen d = [] then d\<lparr>Listen := Listen def\<rparr> else d);
          d = (if TaskTimeoutS d = 0 then d\<lparr>TaskTimeoutS := TaskTimeoutS def\<rparr> else d);
          d = (if f64_is_zero (BackoffBaseS d) then d\<lparr>BackoffBaseS := BackoffBaseS def\<rparr> else d);
          d = (if CBTripThreshold d = 0 then d\<lparr>CBTripThreshold := CBTripThreshold def\<rparr> else d);
          d = (if CBOpenS d = 0 then d\<lparr>CBOpenS := CBOpenS def\<rparr> else d);
          d = (if MaxQueueDepth d = 0 then d\<lparr>MaxQueueDepth := MaxQueueDepth def\<rparr> else d);
          d = (if StreamBufferDefault d = 0
               then d\<lparr>StreamBufferDefault := StreamBufferDefault def\<rparr> else d);
          d = (if TaskTimeoutS d = 0 then d\<lparr>TaskTimeoutS := TaskTimeoutS def\<rparr> else d);
          d = (if \<not> maxRetriesSet \<and> MaxRetries d = 0 then d\<lparr>MaxRetries := MaxRetries def\<rparr> else d)
      in d)"

text \<open>
  The node tree of the YAML package: a value and children, mapping nodes listing keys and values
  in turn. The scans step over pairs as the loops \<open>i+1 < len(Content); i += 2\<close> do.
\<close>

datatype ynode = YNode (yValue: string) (yContent: "ynode list")

fun scan_key :: "string \<Rightarrow> ynode list \<Rightarrow> bool" where
  "scan_key key (k # v # rest) = (if yValue k = key then True else scan_key key rest)"
| "scan_key key _ = False"

fun scan_daemon :: "string \<Rightarrow> ynode list \<Rightarrow> bool" where
  "scan_daemon key (k # v # rest) =
     (if yValue k \<noteq> ''daemon'' then scan_daemon key rest
      else if scan_key key (yContent v) then True
      else scan_daemon key rest)"
| "scan_daemon key _ = False"

definition daemonFieldPresent :: "(string \<Rightarrow> ynode option) \<Rightarrow> string \<Rightarrow> string \<Rightarrow> bool" where
  "daemonFieldPresent nodes data key =
     (case nodes data of
        None \<Rightarrow> False
      | Some root \<Rightarrow>
          (case yContent root of
             [] \<Rightarrow> False
           | doc # _ \<Rightarrow> scan_daemon key (yContent doc)))"

definition fixed_aliases :: "string gomap" where
  "fixed_aliases =
     [(''wifi.connection-info'', ''wifi.info''), (''wifi.connectioninfo'', ''wifi.info''),
      (''sms.inbox'', ''sms.read'')]"

fun parse_verbs ::
  "(watch_any \<Rightarrow> string + watch) \<Rightarrow> daemon \<Rightarrow> nat \<Rightarrow> verb list \<Rightarrow> catalog \<Rightarrow> parse_error + catalog" where
  "parse_verbs remarshal d i [] cat = Inr cat"
| "parse_verbs remarshal d i (v # vs) cat =
     (case validateVerb remarshal v d of
        Some e \<Rightarrow> Inl (VerbInvalid i (vName v) e)
      | None \<Rightarrow>
          if map_of (ByName cat) (vName v) \<noteq> None then Inl (DuplicateVerb (vName v))
          else parse_verbs remarshal d (Suc i) vs
                 (cat\<lparr>ByName := AList.update (vName v) v (ByName cat),
                      Order := Order cat @ [vName v]\<rparr>))"

definition Parse ::
  "(catalog_file \<Rightarrow> string \<Rightarrow> string + catalog_file) \<Rightarrow> (string \<Rightarrow> ynode option) \<Rightarrow>
   (watch_any \<Rightarrow> string + watch) \<Rightarrow> string \<Rightarrow> parse_error + catalog" where
  "Parse decode nodes remarshal data =
     (case decode \<lparr>fVersion = 0, fDaemon = Default, fVerbs = []\<rparr> data of
        Inl msg \<Rightarrow> Inl (DecodeFailed msg)
      | Inr f \<Rightarrow>
          if fVersion f \<noteq> SchemaVersion then Inl (BadVersion (fVersion f))
          else
            (let d = applyDaemonDefaults (fDaemon f) (daemonFieldPresent nodes data ''max_retries'')
             in case Validate d of
                  Some e \<Rightarrow> Inl (BadDaemon e)
                | None \<Rightarrow>
                    if fVerbs f = [] then Inl NoVerbs
                    else parse_verbs remarshal d 0 (fVerbs f)
                           \<lparr>cDaemon = d, ByName = [], Aliases = fixed_aliases, Order = []\<rparr>))"

definition Get :: "catalog \<Rightarrow> string \<Rightarrow> verb option" where
  "Get c name =
     (case map_of (ByName c) name of
        Some v \<Rightarrow> Some v
      | None \<Rightarrow>
          (case map_of (Aliases c) name of
             Some primary \<Rightarrow> map_of (ByName c) primary
           | None \<Rightarrow> None))"

text \<open>
  \<open>Load\<close> and the search for the catalog file. The file system appears as the content of a path
  (\<open>None\<close>: unreadable) and as the test for a file that is not a directory.
\<close>

definition Load ::
  "(string \<Rightarrow> string option) \<Rightarrow> (catalog_file \<Rightarrow> string \<Rightarrow> string + catalog_file) \<Rightarrow>
   (string \<Rightarrow> ynode option) \<Rightarrow> (watch_any \<Rightarrow> string + watch) \<Rightarrow> string \<Rightarrow> parse_error + catalog" where
  "Load readFile decode nodes remarshal path =
     (case readFile path of
        None \<Rightarrow> Inl (ReadFailed path)
      | Some data \<Rightarrow> Parse decode nodes remarshal data)"

definition DefaultPath :: string where
  "DefaultPath = ''verbs.yaml''"

text \<open>\<open>besideExe\<close> is the catalog path in the directory of the executable, when that is known.\<close>

definition ResolvePath :: "string option \<Rightarrow> (string \<Rightarrow> bool) \<Rightarrow> string \<Rightarrow> string option" where
  "ResolvePath besideExe isFile explicit =
     (if explicit \<noteq> [] then Some explicit
      else List.find isFile
        ([DefaultPath] @ (case besideExe of None \<Rightarrow> [] | Some p \<Rightarrow> [p])))"

text \<open>\<open>isStreamVerb\<close> (\<open>internal/api/catalog.go\<close>) and the same test in \<open>handlePostStream\<close>.\<close>

definition isStreamVerb :: "verb \<Rightarrow> bool" where
  "isStreamVerb v =
     (case vWatch v of WAny (VMap w) \<Rightarrow> map_string w ''mode'' = ''stream'' | _ \<Rightarrow> False)"

subsection \<open>What loading guarantees\<close>

definition verb_ok :: "verb \<Rightarrow> bool" where
  "verb_ok v \<longleftrightarrow>
     vName v \<noteq> [] \<and> vTier v \<in> {TierA, TierB} \<and>
     (\<exists>argv0 toks b. vArgv v = argv0 # toks \<and> Lookup argv0 = Some b \<and>
        (\<forall>tok \<in> set toks. token_ok b tok) \<and>
        (vTier v = TierA \<longrightarrow> \<not> Mutating b \<and> (argv0 = ''termux-nfc'' \<longrightarrow> (\<forall>tok \<in> set toks. flag_part tok \<noteq> ''-w'')))) \<and>
     0 \<le> vTimeoutS v \<and> (\<forall>n. vRetries v = Some n \<longrightarrow> 0 \<le> n) \<and>
     vParser v \<in> {ParserJSON, ParserText, ParserExit, []} \<and>
     (isStreamVerb v \<longrightarrow> map_of streamVerbs (vName v) = Some (hd (vArgv v))) \<and>
     (\<forall>a \<in> set (vArgs v). aName a \<noteq> [] \<and> (aFlag a = [] \<or> has_prefix (aFlag a) ''-'')) \<and>
     vStdinArg v \<noteq> Some []"

definition catalog_ok :: "catalog \<Rightarrow> bool" where
  "catalog_ok c \<longleftrightarrow>
     valid_daemon (cDaemon c) \<and> wf_map (ByName c) \<and> Order c = map fst (ByName c) \<and>
     Aliases c = fixed_aliases \<and> (\<forall>(k, v) \<in> set (ByName c). k = vName v \<and> verb_ok v)"

lemma validate_args_iff:
  "validate_args as = None \<longleftrightarrow>
   (\<forall>a \<in> set as. aName a \<noteq> [] \<and> (aFlag a = [] \<or> has_prefix (aFlag a) ''-''))"
  by (induction as) auto

lemma requireStream_iff:
  "requireStreamAllowlisted v = None \<longleftrightarrow>
   (\<exists>argv0 toks. vArgv v = argv0 # toks \<and> map_of streamVerbs (vName v) = Some argv0)"
  by (auto simp: requireStreamAllowlisted_def split: option.splits list.splits)

lemma validateWatch_stream:
  assumes "validateWatch remarshal v = None" and "isStreamVerb v"
  shows "requireStreamAllowlisted v = None"
  using assms by (auto simp: validateWatch_def isStreamVerb_def Let_def
      split: watch_any.splits goval.splits option.splits if_splits)

text \<open>The checks of \<open>validateVerb\<close> that a valid verb has passed, one by one.\<close>

lemma validateVerb_checks:
  assumes "validateVerb remarshal v d = None"
  obtains argv0 toks where "vArgv v = argv0 # toks" "vName v \<noteq> []"
    "\<not> (vTier v \<noteq> TierA \<and> vTier v \<noteq> TierB)" "ValidateArgv (argv0 # toks) = None"
    "\<not> (vTier v = TierA \<and> IsMutating argv0)" "\<not> (vTier v = TierA \<and> nfc_write argv0 toks)"
    "\<not> vTimeoutS v < 0" "\<not> (case vRetries v of Some n \<Rightarrow> n < 0 | None \<Rightarrow> False)"
    "\<not> (vParser v \<noteq> ParserJSON \<and> vParser v \<noteq> ParserText \<and> vParser v \<noteq> ParserExit \<and> vParser v \<noteq> [])"
    "validateWatch remarshal v = None" "validate_args (vArgs v) = None" "\<not> vStdinArg v = Some []"
proof (cases "vArgv v")
  case Nil
  with assms show ?thesis by (simp add: validateVerb_def if_Some_None)
next
  case (Cons argv0 toks)
  note a = assms [unfolded validateVerb_def Cons list.case if_Some_None case_option_None]
  show ?thesis
    using a by - (rule that [OF Cons]; elim conjE; assumption)
qed

lemma validateVerb_ok:
  assumes "validateVerb remarshal v d = None"
  shows "verb_ok v"
  using assms
proof (rule validateVerb_checks)
  fix argv0 toks
  assume argv: "vArgv v = argv0 # toks"
    and name: "vName v \<noteq> []" and tier: "\<not> (vTier v \<noteq> TierA \<and> vTier v \<noteq> TierB)"
    and allowed: "ValidateArgv (argv0 # toks) = None"
    and mut: "\<not> (vTier v = TierA \<and> IsMutating argv0)"
    and nfc: "\<not> (vTier v = TierA \<and> nfc_write argv0 toks)"
    and timeout: "\<not> vTimeoutS v < 0"
    and retries: "\<not> (case vRetries v of Some n \<Rightarrow> n < 0 | None \<Rightarrow> False)"
    and parser: "\<not> (vParser v \<noteq> ParserJSON \<and> vParser v \<noteq> ParserText \<and> vParser v \<noteq> ParserExit \<and> vParser v \<noteq> [])"
    and watch: "validateWatch remarshal v = None"
    and args: "validate_args (vArgs v) = None" and stdin: "\<not> vStdinArg v = Some []"
  from allowed obtain b where b: "Lookup argv0 = Some b" "\<forall>tok \<in> set toks. token_ok b tok"
    by (auto simp: ValidateArgv_iff)
  from mut b have tA: "vTier v = TierA \<longrightarrow> \<not> Mutating b" by (simp add: IsMutating_def)
  from nfc have nA: "vTier v = TierA \<longrightarrow> argv0 = ''termux-nfc'' \<longrightarrow> (\<forall>tok \<in> set toks. flag_part tok \<noteq> ''-w'')"
    unfolding nfc_write_def list_ex_iff by blast
  have st: "isStreamVerb v \<longrightarrow> map_of streamVerbs (vName v) = Some (hd (vArgv v))"
    using validateWatch_stream [OF watch] by (auto simp: requireStream_iff argv)
  from retries have "\<forall>n. vRetries v = Some n \<longrightarrow> 0 \<le> n" by (auto split: option.splits)
  moreover from parser have "vParser v \<in> {ParserJSON, ParserText, ParserExit, []}" by blast
  moreover have "vTier v \<in> {TierA, TierB}" using tier by blast
  moreover have "\<exists>argv0 toks b. vArgv v = argv0 # toks \<and> Lookup argv0 = Some b \<and>
        (\<forall>tok \<in> set toks. token_ok b tok) \<and>
        (vTier v = TierA \<longrightarrow> \<not> Mutating b \<and> (argv0 = ''termux-nfc'' \<longrightarrow> (\<forall>tok \<in> set toks. flag_part tok \<noteq> ''-w'')))"
    using argv b tA nA by blast
  ultimately show ?thesis
    unfolding verb_ok_def using name timeout st stdin args [unfolded validate_args_iff]
    by (simp only: not_less simp_thms)
qed

lemma parse_verbs_ok:
  assumes "parse_verbs remarshal d i vs cat = Inr cat'" and "catalog_ok cat"
  shows "catalog_ok cat'"
  using assms
proof (induction vs arbitrary: i cat)
  case Nil
  then show ?case by simp
next
  case (Cons v vs)
  from Cons.prems(1) have v: "validateVerb remarshal v d = None"
    and new: "map_of (ByName cat) (vName v) = None"
    and rest: "parse_verbs remarshal d (Suc i) vs
      (cat\<lparr>ByName := AList.update (vName v) v (ByName cat), Order := Order cat @ [vName v]\<rparr>) = Inr cat'"
    by (auto split: option.splits if_splits)
  from new have "AList.update (vName v) v (ByName cat) = ByName cat @ [(vName v, v)]"
    by (simp add: update_new map_of_None_iff)
  with Cons.prems(2) validateVerb_ok [OF v] new
  have "catalog_ok (cat\<lparr>ByName := AList.update (vName v) v (ByName cat),
      Order := Order cat @ [vName v]\<rparr>)"
    by (auto simp: catalog_ok_def wf_map_def map_of_None_iff)
  then show ?case by (rule Cons.IH [OF rest])
qed

lemma Parse_ok:
  assumes "Parse decode nodes remarshal data = Inr cat"
  shows "catalog_ok cat"
proof -
  obtain f where "decode \<lparr>fVersion = 0, fDaemon = Default, fVerbs = []\<rparr> data = Inr f"
    using assms by (auto simp: Parse_def split: sum.splits)
  with assms obtain d where "Validate d = None"
    and run: "parse_verbs remarshal d 0 (fVerbs f)
      \<lparr>cDaemon = d, ByName = [], Aliases = fixed_aliases, Order = []\<rparr> = Inr cat"
    by (auto simp: Parse_def Let_def split: option.splits if_splits)
  from \<open>Validate d = None\<close> have
    "catalog_ok \<lparr>cDaemon = d, ByName = [], Aliases = fixed_aliases, Order = []\<rparr>"
    by (simp add: catalog_ok_def Validate_iff)
  with run show ?thesis by (rule parse_verbs_ok)
qed

lemma Get_ok:
  assumes "catalog_ok c" and "Get c name = Some v"
  shows "verb_ok v \<and> map_of (ByName c) (vName v) = Some v"
proof -
  from assms(2) obtain k where k: "map_of (ByName c) k = Some v"
    by (auto simp: Get_def split: option.splits)
  then have "(k, v) \<in> set (ByName c)" by (rule map_of_SomeD)
  with assms(1) have "k = vName v \<and> verb_ok v" by (auto simp: catalog_ok_def)
  with k show ?thesis by simp
qed

subsection \<open>Properties\<close>

lemma stream_names:
  "catalog_ok c \<Longrightarrow> Get c name = Some v \<Longrightarrow> isStreamVerb v \<Longrightarrow>
   vName v \<in> {''location.stream'', ''sensor.stream''}"
  using Get_ok [of c name v] by (auto simp: verb_ok_def streamVerbs_def split: if_splits)

text \<open>
  C17: Whatever the YAML decoder returns, a catalog that loads is well formed: the daemon settings
  are valid, every name or alias that resolves leads to a verb listed under its own name, whose
  command is an allowlisted Termux binary with only the flags declared for it, which does not
  mutate the device when the verb is of tier A, with non-negative timeout and retries; and only the
  two hard-wired stream verbs can be subscribed to.
\<close>

theorem catalog_well_formed:
  assumes "Load readFile decode nodes remarshal path = Inr cat"
  shows "catalog_ok cat \<and>
    (\<forall>name v. Get cat name = Some v \<longrightarrow>
       verb_ok v \<and> map_of (ByName cat) (vName v) = Some v \<and>
       (isStreamVerb v \<longrightarrow> vName v \<in> {''location.stream'', ''sensor.stream''}))"
proof -
  have ok: "catalog_ok cat" using assms by (auto simp: Load_def intro: Parse_ok split: option.splits)
  then show ?thesis using Get_ok [OF ok] stream_names [OF ok] by blast
qed

definition wifi_verb :: verb where
  "wifi_verb = \<lparr>vName = ''wifi.info'', vTier = ''A'', vArgv = [''termux-wifi-connectioninfo''], vArgs = [],
     vStdinArg = None, vTimeoutS = 5, vRetries = Some 0, vRetryBackoff = [], vCBThreshold = None,
     vParser = ''json'', vWatch = WAny VNil\<rparr>"

definition wifi_catalog :: catalog where
  "wifi_catalog = \<lparr>cDaemon = Default, ByName = [(''wifi.info'', wifi_verb)], Aliases = fixed_aliases,
     Order = [''wifi.info'']\<rparr>"

lemma wifi_catalog_loads:
  "Load (\<lambda>p. Some ''doc'') (\<lambda>init doc. Inr (init\<lparr>fVersion := 1, fVerbs := [wifi_verb]\<rparr>)) (\<lambda>s. None)
     (\<lambda>w. Inl []) ''verbs.yaml'' = Inr wifi_catalog"
  by code_simp

theorem catalog_well_formed_witness:
  "verb_ok wifi_verb \<and> Get wifi_catalog ''wifi.connection-info'' = Some wifi_verb"
proof -
  have "Get wifi_catalog ''wifi.connection-info'' = Some wifi_verb" by code_simp
  then show ?thesis using catalog_well_formed [OF wifi_catalog_loads] by blast
qed

end
