(* ===== verification/Redact.thy ===== *)
theory Redact
  imports Verbs
begin

text \<open>
  \<open>internal/approve/redact.go\<close>: the redaction of secret arguments. The request arguments are a
  \<open>map[string]any\<close>; a Go set of names is a list.
\<close>

type_synonym args = "goval gomap"

definition RedactedMarker :: string where
  "RedactedMarker = ''[REDACTED]''"

definition SecretFields :: "verb \<Rightarrow> string list" where
  "SecretFields v =
     (case vStdinArg v of
        Some arg \<Rightarrow> if arg \<noteq> [] then [arg] else []
      | None \<Rightarrow> [])"

definition RedactArgs :: "verb \<Rightarrow> args \<Rightarrow> args" where
  "RedactArgs v args =
     map (\<lambda>(k, val). if k \<in> set (SecretFields v) then (k, VStr RedactedMarker) else (k, val)) args"

fun ContainsSecret :: "string \<Rightarrow> string list \<Rightarrow> bool" where
  "ContainsSecret haystack [] = False"
| "ContainsSecret haystack (s # ss) =
     (if s = [] then ContainsSecret haystack ss
      else if str_contains haystack s then True
      else ContainsSecret haystack ss)"

lemma ContainsSecret_iff:
  "ContainsSecret h ss \<longleftrightarrow> (\<exists>s \<in> set ss. s \<noteq> [] \<and> str_contains h s)"
  by (induction ss) auto

lemma RedactArgs_lookup:
  "map_of (RedactArgs v args) k =
   (if k \<in> set (SecretFields v) then map_option (\<lambda>_. VStr RedactedMarker) (map_of args k)
    else map_of args k)"
  by (induction args) (auto simp: RedactArgs_def)

text \<open>
  \<open>scrubOutput\<close> (\<open>internal/api/server.go\<close>): child output that echoes the stdin body is withheld as
  a whole. The worker has the same test written out with \<open>ContainsSecret\<close>.
\<close>

definition scrubOutput :: "string \<Rightarrow> string \<Rightarrow> string" where
  "scrubOutput out secret =
     (if secret \<noteq> [] \<and> str_contains out secret then RedactedMarker else out)"

definition worker_scrub :: "string \<Rightarrow> string \<Rightarrow> string" where
  "worker_scrub out stdin =
     (if stdin \<noteq> [] \<and> ContainsSecret out [stdin] then RedactedMarker else out)"

lemma worker_scrub_eq: "worker_scrub = scrubOutput"
  by (auto simp: fun_eq_iff worker_scrub_def scrubOutput_def)

lemma scrub_safe:
  "secret \<noteq> [] \<Longrightarrow> str_contains (scrubOutput out secret) secret \<Longrightarrow> scrubOutput out secret = RedactedMarker"
  by (simp add: scrubOutput_def split: if_splits)

end
