(* ===== verification/Argv.thy ===== *)
theory Argv
  imports Redact "HOL-Library.Sublist"
begin

text \<open>
  The expansion of a verb's argv template with the request arguments: \<open>solePlaceholder\<close>, \<open>subst\<close>
  and \<open>expandArgv\<close> of \<open>internal/api/server.go\<close>. The substitution loop rescans the text it has just
  produced, so it need not end: it is a partial function, and \<open>None\<close> means the handler never
  returns.
\<close>

definition open_tag :: string where "open_tag = ''{{.''"
definition close_tag :: string where "close_tag = ''}}''"

lemmas tag_defs = open_tag_def close_tag_def

text \<open>\<open>fmt.Sprint(val)\<close> of an argument, the empty string when it is absent.\<close>

definition arg_text :: "args \<Rightarrow> string \<Rightarrow> string" where
  "arg_text args name = (case map_of args name of Some val \<Rightarrow> sprint val | None \<Rightarrow> [])"

partial_function (option) subst_loop ::
  "args \<Rightarrow> string \<Rightarrow> string list \<Rightarrow> (string \<times> string list) option" where
  "subst_loop args out fs =
     (case str_index out open_tag of
        None \<Rightarrow> Some (out, fs)
      | Some i \<Rightarrow>
          (case str_index (drop i out) close_tag of
             None \<Rightarrow> Some (out, fs)
           | Some j \<Rightarrow>
               (let name = take (j - length open_tag) (drop (i + length open_tag) out)
                in subst_loop args
                     (take i out @ arg_text args name @ drop (i + j + length close_tag) out)
                     (fs @ [name]))))"

record expanded =
  eRaw :: string
  eOut :: string
  eTmpl :: bool
  eFields :: "string list"

definition subst :: "string \<Rightarrow> args \<Rightarrow> expanded option" where
  "subst tok args =
     (if \<not> str_contains tok open_tag
      then Some \<lparr>eRaw = tok, eOut = tok, eTmpl = False, eFields = []\<rparr>
      else map_option (\<lambda>(o', fs). \<lparr>eRaw = tok, eOut = o', eTmpl = True, eFields = fs\<rparr>)
             (subst_loop args tok []))"

definition solePlaceholder :: "string \<Rightarrow> string option" where
  "solePlaceholder tok =
     (if \<not> has_prefix tok open_tag \<or> \<not> has_suffix tok close_tag then None
      else let name = drop (length open_tag) (take (length tok - length close_tag) tok)
           in if name = [] \<or> contains_any name ''./{} '' then None else Some name)"

datatype expand_error = MissingRequired string

fun first_missing :: "arg_spec list \<Rightarrow> args \<Rightarrow> string option" where
  "first_missing [] args = None"
| "first_missing (a # as) args =
     (if aRequired a \<and> map_of args (aName a) = None then Some (aName a)
      else first_missing as args)"

definition arg_specs :: "arg_spec list \<Rightarrow> arg_spec gomap" where
  "arg_specs as = fold (\<lambda>a m. AList.update (aName a) a m) as []"

text \<open>One round of the loop that marks the tokens to omit.\<close>

definition drop_step :: "arg_spec gomap \<Rightarrow> expanded list \<Rightarrow> nat \<Rightarrow> bool list \<Rightarrow> bool list" where
  "drop_step specs ex i dropped =
     (let e = ex ! i
      in case solePlaceholder (eRaw e) of
           None \<Rightarrow> dropped
         | Some name \<Rightarrow>
             if eOut e \<noteq> [] then dropped
             else case map_of specs name of
                    None \<Rightarrow> dropped
                  | Some spec \<Rightarrow>
                      if aRequired spec then dropped
                      else
                        (let dropped = dropped[i := True]
                         in if i > 0 \<and> \<not> dropped ! (i - 1) \<and> aFlag spec \<noteq> [] \<and>
                               \<not> eTmpl (ex ! (i - 1)) \<and> eRaw (ex ! (i - 1)) = aFlag spec
                            then dropped[i - 1 := True] else dropped))"

definition drop_marks :: "arg_spec gomap \<Rightarrow> expanded list \<Rightarrow> bool list" where
  "drop_marks specs ex =
     fold (drop_step specs ex) [0..<length ex] (replicate (length ex) False)"

definition redact_token :: "string list \<Rightarrow> string \<Rightarrow> expanded \<Rightarrow> string" where
  "redact_token secrets stdin e =
     (let red = (if eTmpl e \<and> list_ex (\<lambda>name. name \<in> set secrets) (eFields e)
                 then RedactedMarker else eOut e)
      in if stdin \<noteq> [] \<and> str_contains (eOut e) stdin then RedactedMarker else red)"

definition kept :: "expanded list \<Rightarrow> bool list \<Rightarrow> expanded list" where
  "kept ex dropped = map fst (filter (\<lambda>(e, d). \<not> d) (zip ex dropped))"

fun expand_all :: "string list \<Rightarrow> args \<Rightarrow> expanded list option" where
  "expand_all [] args = Some []"
| "expand_all (tok # toks) args =
     (case subst tok args of
        None \<Rightarrow> None
      | Some e \<Rightarrow> map_option (\<lambda>es. e # es) (expand_all toks args))"

definition expandArgv ::
  "verb \<Rightarrow> args \<Rightarrow> string \<Rightarrow> (expand_error + (string list \<times> string list)) option" where
  "expandArgv v args stdin =
     (case first_missing (vArgs v) args of
        Some name \<Rightarrow> Some (Inl (MissingRequired name))
      | None \<Rightarrow>
          map_option
            (\<lambda>ex. let dropped = drop_marks (arg_specs (vArgs v)) ex;
                      es = kept ex dropped
                  in Inr (map eOut es, map (redact_token (SecretFields v) stdin) es))
            (expand_all (vArgv v) args))"

subsection \<open>Finding tags\<close>

lemma str_index_head:
  "has_prefix r p \<Longrightarrow> str_index r p = Some 0"
  by (cases r) (auto simp: has_prefix_def)

lemma str_index_skip:
  assumes "c \<notin> set a"
  shows "str_index (a @ (c # p) @ r) (c # p) = Some (length a)"
  using assms
proof (induction a)
  case Nil
  then show ?case by (simp add: has_prefix_def)
next
  case (Cons x a)
  then show ?case by (auto simp: has_prefix_def)
qed

lemma str_index_absent: "c \<notin> set s \<Longrightarrow> str_index s (c # p) = None"
  by (auto simp: str_index_None_iff)

definition placeholder :: "string \<Rightarrow> string" where
  "placeholder name = open_tag @ name @ close_tag"

lemma open_index:
  "CHR ''{'' \<notin> set pre \<Longrightarrow> str_index (pre @ placeholder name @ post) open_tag = Some (length pre)"
  using str_index_skip [of "CHR ''{''" pre "''{.''" "name @ close_tag @ post"]
  by (simp add: placeholder_def open_tag_def)

lemma close_index:
  assumes "CHR ''}'' \<notin> set name"
  shows "str_index (placeholder name @ post) close_tag = Some (length open_tag + length name)"
  using assms str_index_skip [of "CHR ''}''" "open_tag @ name" "''}''" post]
  by (simp add: placeholder_def tag_defs)

text \<open>One round of the substitution loop at the first placeholder of the text.\<close>

lemma subst_loop_round:
  assumes "CHR ''{'' \<notin> set pre" and "CHR ''}'' \<notin> set name"
  shows "subst_loop args (pre @ placeholder name @ post) fs =
         subst_loop args (pre @ arg_text args name @ post) (fs @ [name])"
proof -
  have "take (length name) (drop (length pre + length open_tag) (pre @ placeholder name @ post)) = name"
    by (simp add: placeholder_def)
  moreover have "drop (length pre + (length open_tag + length name) + length close_tag)
      (pre @ placeholder name @ post) = post"
    by (simp add: placeholder_def)
  ultimately show ?thesis
    using open_index [OF assms(1), of name post] close_index [OF assms(2), of post]
    by (subst subst_loop.simps) (simp add: Let_def)
qed

lemma subst_loop_done: "CHR ''{'' \<notin> set s \<Longrightarrow> subst_loop args s fs = Some (s, fs)"
  by (subst subst_loop.simps) (simp add: open_tag_def str_index_absent)

subsection \<open>Rendering of a well-formed template\<close>

text \<open>A template is a sequence of literal pieces and holes.\<close>

datatype segment = Lit string | Hole string

fun seg_text :: "segment \<Rightarrow> string" where
  "seg_text (Lit s) = s"
| "seg_text (Hole name) = placeholder name"

fun seg_value :: "args \<Rightarrow> segment \<Rightarrow> string" where
  "seg_value args (Lit s) = s"
| "seg_value args (Hole name) = arg_text args name"

fun seg_ok :: "segment \<Rightarrow> bool" where
  "seg_ok (Lit s) = (CHR ''{'' \<notin> set s)"
| "seg_ok (Hole name) = (CHR ''}'' \<notin> set name)"

fun hole_name :: "segment \<Rightarrow> string list" where
  "hole_name (Lit s) = []"
| "hole_name (Hole name) = [name]"

definition brace_free :: "args \<Rightarrow> bool" where
  "brace_free args \<longleftrightarrow> (\<forall>(k, val) \<in> set args. CHR ''{'' \<notin> set (sprint val))"

lemma brace_free_text: "brace_free args \<Longrightarrow> CHR ''{'' \<notin> set (arg_text args name)"
  by (cases "map_of args name") (auto simp: brace_free_def arg_text_def dest!: map_of_SomeD)

lemma subst_loop_render:
  assumes "list_all seg_ok segs" and "brace_free args" and "CHR ''{'' \<notin> set pre"
  shows "subst_loop args (pre @ concat (map seg_text segs)) fs =
         Some (pre @ concat (map (seg_value args) segs), fs @ concat (map hole_name segs))"
  using assms
proof (induction segs arbitrary: pre fs)
  case Nil
  then show ?case by (simp add: subst_loop_done)
next
  case (Cons seg segs)
  show ?case
  proof (cases seg)
    case (Lit s)
    with Cons.prems Cons.IH [of "pre @ s" fs] show ?thesis by simp
  next
    case (Hole name)
    with Cons.prems have "CHR ''{'' \<notin> set (pre @ arg_text args name)"
      by (simp add: brace_free_text)
    with Cons.IH [of "pre @ arg_text args name" "fs @ [name]"] Hole Cons.prems
      subst_loop_round [of pre name args "concat (map seg_text segs)" fs]
    show ?thesis by simp
  qed
qed

subsection \<open>Termination and its failure\<close>

text \<open>
  Every round removes the two braces of a placeholder; when no argument value brings one in, the
  number of opening braces falls.
\<close>

lemma count_open_tag: "count_list open_tag (CHR ''{'') = 2"
  by (simp add: open_tag_def)

lemma count_list_drop_le: "count_list (drop k xs) c \<le> count_list xs c"
  by (metis append_take_drop_id count_list_append le_add2)

lemma close_after_open:
  assumes "str_index out open_tag = Some i" and "str_index (drop i out) close_tag = Some j"
  shows "i + length open_tag \<le> i + j + length close_tag"
proof -
  have "drop i out = open_tag @ drop (length open_tag) (drop i out)"
    using str_index_SomeD [OF assms(1)]
    by (metis add.commute append_eq_conv_conj drop_drop length_take min.absorb2 add_leD1)
  moreover have "take (length close_tag) (drop j (drop i out)) = close_tag"
    using str_index_SomeD [OF assms(2)]
    by (metis append_eq_conv_conj length_take min.absorb2 add_leD1)
  ultimately have "j \<noteq> 0"
    by (cases j) (auto simp: tag_defs)
  then show ?thesis by (simp add: tag_defs)
qed

lemma subst_loop_total:
  assumes "brace_free args"
  shows "\<exists>r. subst_loop args out fs = Some r"
proof (induction "count_list out (CHR ''{'')" arbitrary: out fs rule: less_induct)
  case less
  show ?case
  proof (cases "str_index out open_tag")
    case None
    then show ?thesis by (subst subst_loop.simps) simp
  next
    case i: (Some i)
    show ?thesis
    proof (cases "str_index (drop i out) close_tag")
      case None
      with i show ?thesis by (subst subst_loop.simps) simp
    next
      case j: (Some j)
      let ?name = "take (j - length open_tag) (drop (i + length open_tag) out)"
      let ?out = "take i out @ arg_text args ?name @ drop (i + j + length close_tag) out"
      have "out = take i out @ open_tag @ drop (i + length open_tag) out"
        using str_index_SomeD [OF i] by simp
      then have "count_list out (CHR ''{'') = count_list (take i out) (CHR ''{'') + 2 +
          count_list (drop (i + length open_tag) out) (CHR ''{'')"
        by (metis add.assoc count_list_append count_open_tag)
      moreover have "count_list (drop (i + j + length close_tag) out) (CHR ''{'')
          \<le> count_list (drop (i + length open_tag) out) (CHR ''{'')"
        using close_after_open [OF i j] count_list_drop_le
        by (metis drop_drop le_Suc_ex add.commute)
      moreover have "count_list (arg_text args ?name) (CHR ''{'') = 0"
        using brace_free_text [OF assms] by (simp add: count_list_0_iff)
      ultimately have "count_list ?out (CHR ''{'') < count_list out (CHR ''{'')" by simp
      from less [OF this] i j show ?thesis by (subst subst_loop.simps) (simp add: Let_def)
    qed
  qed
qed

lemma subst_total: "brace_free args \<Longrightarrow> \<exists>e. subst tok args = Some e"
  using subst_loop_total [of args tok "[]"] by (auto simp: subst_def)

lemma expand_all_total: "brace_free args \<Longrightarrow> \<exists>es. expand_all toks args = Some es"
proof (induction toks)
  case (Cons tok toks)
  then show ?case using subst_total [of args tok] by auto
qed simp

lemma expandArgv_total:
  assumes "brace_free args"
  shows "\<exists>r. expandArgv v args stdin = Some r"
  using expand_all_total [OF assms, of "vArgv v"]
  by (auto simp: expandArgv_def split: option.split)

text \<open>An argument whose text contains its own placeholder is substituted for ever.\<close>

lemma subst_loop_diverges:
  assumes arg: "arg_text args name = a @ placeholder name @ b"
    and a: "CHR ''{'' \<notin> set a" and name: "CHR ''}'' \<notin> set name"
    and ret: "subst_loop args out fs = Some r"
  shows "\<nexists>pre post. CHR ''{'' \<notin> set pre \<and> out = pre @ placeholder name @ post"
proof -
  have "args' = args \<longrightarrow> (\<nexists>pre post. CHR ''{'' \<notin> set pre \<and> out = pre @ placeholder name @ post)"
    if "subst_loop args' out fs = Some r" for args'
  proof (rule subst_loop.raw_induct [where
        P = "\<lambda>args' out fs r. args' = args \<longrightarrow>
          (\<nexists>pre post. CHR ''{'' \<notin> set pre \<and> out = pre @ placeholder name @ post)", OF _ that],
      intro impI notI, elim exE conjE)
    fix f args' out fs r pre post
    assume IH: "\<And>args' out fs r. f args' out fs = Some r \<Longrightarrow> args' = args \<longrightarrow>
        (\<nexists>pre post. CHR ''{'' \<notin> set pre \<and> out = pre @ placeholder name @ post)"
      and eq: "(case str_index out open_tag of
          None \<Rightarrow> Some (out, fs)
        | Some i \<Rightarrow>
            (case str_index (drop i out) close_tag of
               None \<Rightarrow> Some (out, fs)
             | Some j \<Rightarrow>
                 (let name = take (j - length open_tag) (drop (i + length open_tag) out)
                  in f args' (take i out @ arg_text args' name @ drop (i + j + length close_tag) out)
                       (fs @ [name])))) = Some r"
      and args': "args' = args" and pre: "CHR ''{'' \<notin> set pre"
      and out: "out = pre @ placeholder name @ post"
    have "take (length name) (drop (length pre + length open_tag) out) = name"
      and "drop (length pre + (length open_tag + length name) + length close_tag) out = post"
      and "take (length pre) out = pre" and "drop (length pre) out = placeholder name @ post"
      by (simp_all add: out placeholder_def)
    with eq args' have "f args (pre @ arg_text args name @ post) (fs @ [name]) = Some r"
      using open_index [OF pre, of name post] close_index [OF name, of post]
      by (simp add: out Let_def)
    from IH [OF this] have "\<nexists>pre' post'. CHR ''{'' \<notin> set pre' \<and>
        pre @ arg_text args name @ post = pre' @ placeholder name @ post'" by simp
    moreover have "CHR ''{'' \<notin> set (pre @ a)" using pre a by simp
    moreover have "pre @ arg_text args name @ post = (pre @ a) @ placeholder name @ (b @ post)"
      by (simp add: arg)
    ultimately show False by blast
  qed
  with ret show ?thesis by blast
qed

subsection \<open>Which tokens are omitted\<close>

definition omitted :: "arg_spec gomap \<Rightarrow> expanded \<Rightarrow> bool" where
  "omitted specs e \<longleftrightarrow>
     (case solePlaceholder (eRaw e) of
        None \<Rightarrow> False
      | Some name \<Rightarrow>
          eOut e = [] \<and>
          (case map_of specs name of None \<Rightarrow> False | Some spec \<Rightarrow> \<not> aRequired spec))"

definition is_flag_of :: "arg_spec gomap \<Rightarrow> expanded \<Rightarrow> expanded \<Rightarrow> bool" where
  "is_flag_of specs prev e \<longleftrightarrow>
     (case solePlaceholder (eRaw e) of
        None \<Rightarrow> False
      | Some name \<Rightarrow>
          (case map_of specs name of
             None \<Rightarrow> False
           | Some spec \<Rightarrow> aFlag spec \<noteq> [] \<and> \<not> eTmpl prev \<and> eRaw prev = aFlag spec))"

text \<open>The marks as a left-to-right scan with one token of lookahead.\<close>

fun marks :: "arg_spec gomap \<Rightarrow> expanded list \<Rightarrow> bool list" where
  "marks specs [] = []"
| "marks specs [e] = [omitted specs e]"
| "marks specs (e # e' # es) =
     (omitted specs e \<or> (omitted specs e' \<and> is_flag_of specs e e')) # marks specs (e' # es)"

lemma length_marks [simp]: "length (marks specs ex) = length ex"
  by (induction specs ex rule: marks.induct) simp_all

lemma marks_nth:
  "i < length ex \<Longrightarrow> marks specs ex ! i \<longleftrightarrow>
     omitted specs (ex ! i) \<or>
     (Suc i < length ex \<and> omitted specs (ex ! Suc i) \<and> is_flag_of specs (ex ! i) (ex ! Suc i))"
proof (induction specs ex arbitrary: i rule: marks.induct)
  case (3 specs e e' es)
  then show ?case by (cases i) auto
qed simp_all

lemma drop_step_eq:
  "drop_step specs ex i d =
   (if omitted specs (ex ! i)
    then (if i > 0 \<and> is_flag_of specs (ex ! (i - 1)) (ex ! i)
          then d[i := True, i - 1 := True] else d[i := True])
    else d)"
proof -
  have "d[i := True, i - 1 := True] = d[i := True]" if "d[i := True] ! (i - 1)"
  proof -
    from that have "d[i := True] ! (i - 1) = True" by blast
    then show ?thesis using list_update_id [of "d[i := True]" "i - 1"] by (simp only:)
  qed
  then show ?thesis
    by (auto simp: drop_step_def omitted_def is_flag_of_def Let_def split: option.split)
qed

definition drop_prefix :: "arg_spec gomap \<Rightarrow> expanded list \<Rightarrow> nat \<Rightarrow> bool list" where
  "drop_prefix specs ex k = fold (drop_step specs ex) [0..<k] (replicate (length ex) False)"

lemma drop_prefix_Suc: "drop_prefix specs ex (Suc k) = drop_step specs ex k (drop_prefix specs ex k)"
  by (simp add: drop_prefix_def)

lemma length_drop_prefix [simp]: "length (drop_prefix specs ex k) = length ex"
  by (induction k) (simp_all add: drop_prefix_Suc drop_step_eq, simp add: drop_prefix_def)

lemma drop_prefix_nth:
  "k \<le> length ex \<Longrightarrow> i < length ex \<Longrightarrow> drop_prefix specs ex k ! i \<longleftrightarrow>
     (i < k \<and> omitted specs (ex ! i)) \<or>
     (Suc i < k \<and> omitted specs (ex ! Suc i) \<and> is_flag_of specs (ex ! i) (ex ! Suc i))"
proof (induction k)
  case 0
  then show ?case by (simp add: drop_prefix_def)
next
  case (Suc k)
  then have k: "k < length ex" and IH: "drop_prefix specs ex k ! i \<longleftrightarrow>
      (i < k \<and> omitted specs (ex ! i)) \<or>
      (Suc i < k \<and> omitted specs (ex ! Suc i) \<and> is_flag_of specs (ex ! i) (ex ! Suc i))"
    by simp_all
  consider "i = k" | "Suc i = k" | "Suc i < k" | "k < i" by linarith
  then show ?case
  proof cases
    case 1
    with k IH Suc.prems show ?thesis by (simp add: drop_prefix_Suc drop_step_eq nth_list_update)
  next
    case 2
    then have "k - 1 = i" "k \<noteq> i" "0 < k" by simp_all
    with k IH Suc.prems 2 show ?thesis by (simp add: drop_prefix_Suc drop_step_eq nth_list_update)
  next
    case 3
    then have "k - 1 \<noteq> i" "k \<noteq> i" by simp_all
    with k IH Suc.prems 3 show ?thesis by (simp add: drop_prefix_Suc drop_step_eq nth_list_update)
  next
    case 4
    then have "k - 1 \<noteq> i" "k \<noteq> i" by simp_all
    with k IH Suc.prems 4 show ?thesis by (simp add: drop_prefix_Suc drop_step_eq nth_list_update)
  qed
qed

lemma drop_marks_eq: "drop_marks specs ex = marks specs ex"
proof -
  have "drop_marks specs ex = drop_prefix specs ex (length ex)"
    by (simp add: drop_marks_def drop_prefix_def)
  then show ?thesis
    by (intro nth_equalityI) (auto simp: drop_prefix_nth marks_nth)
qed

lemma kept_simps [simp]:
  "kept [] ds = []"
  "kept (e # es) (d # ds) = (if d then kept es ds else e # kept es ds)"
  by (simp_all add: kept_def)

lemma set_kept: "set (kept ex ds) \<subseteq> set ex"
  by (auto simp: kept_def dest: set_zip_leftD)

subsection \<open>The first token\<close>

lemma Binaries_no_brace: "\<forall>(k, b) \<in> set Binaries. CHR ''{'' \<notin> set k"
  by code_simp

lemma Lookup_no_brace: "Lookup argv0 = Some b \<Longrightarrow> CHR ''{'' \<notin> set argv0"
  using Binaries_no_brace by (auto simp: Lookup_def dest!: map_of_SomeD)

lemma subst_plain:
  "CHR ''{'' \<notin> set tok \<Longrightarrow>
   subst tok args = Some \<lparr>eRaw = tok, eOut = tok, eTmpl = False, eFields = []\<rparr>"
  by (simp add: subst_def str_contains_def open_tag_def str_index_absent)

lemma sole_needs_brace: "CHR ''{'' \<notin> set tok \<Longrightarrow> solePlaceholder tok = None"
  by (auto simp: solePlaceholder_def has_prefix_iff open_tag_def)

lemma arg_specs_in: "map_of (arg_specs as) name = Some spec \<Longrightarrow> spec \<in> set as"
proof -
  have "map_of (fold (\<lambda>a m. AList.update (aName a) a m) as m) name = Some spec \<Longrightarrow>
      spec \<in> set as \<or> map_of m name = Some spec" for m
  proof (induction as arbitrary: m)
    case (Cons a as)
    have "map_of (fold (\<lambda>a m. AList.update (aName a) a m) as (AList.update (aName a) a m)) name = Some spec"
      using Cons.prems by simp
    from Cons.IH [OF this] show ?case by (auto split: if_splits)
  qed simp
  then show "map_of (arg_specs as) name = Some spec \<Longrightarrow> spec \<in> set as"
    by (fastforce simp: arg_specs_def)
qed

lemma first_token_kept:
  assumes "Lookup (eRaw e) = Some b"
    and "\<forall>a \<in> set as. aFlag a = [] \<or> has_prefix (aFlag a) ''-''"
  shows "kept (e # es) (drop_marks (arg_specs as) (e # es)) = e # kept es (tl (marks (arg_specs as) (e # es)))"
proof -
  have "\<not> omitted (arg_specs as) e"
    using sole_needs_brace [OF Lookup_no_brace [OF assms(1)]] by (simp add: omitted_def)
  moreover have "\<not> is_flag_of (arg_specs as) e e'" for e'
  proof
    assume "is_flag_of (arg_specs as) e e'"
    then obtain spec where "spec \<in> set as" "aFlag spec \<noteq> []" "eRaw e = aFlag spec"
      by (auto simp: is_flag_of_def dest: arg_specs_in split: option.splits)
    with assms(2) have "has_prefix (eRaw e) ''-''" by auto
    with Lookup_Name [OF assms(1)] show False by (auto simp: has_prefix_iff)
  qed
  ultimately show ?thesis
    unfolding drop_marks_eq by (cases es) simp_all
qed

lemma expandArgv_Inr:
  assumes "expandArgv v args stdin = Some (Inr (argv, red))"
  obtains ex where "expand_all (vArgv v) args = Some ex"
    and "argv = map eOut (kept ex (drop_marks (arg_specs (vArgs v)) ex))"
    and "red = map (redact_token (SecretFields v) stdin) (kept ex (drop_marks (arg_specs (vArgs v)) ex))"
  using assms by (auto simp: expandArgv_def Let_def split: option.splits)

lemma redact_token_safe:
  "stdin \<noteq> [] \<Longrightarrow> str_contains (redact_token secrets stdin e) stdin \<Longrightarrow>
   redact_token secrets stdin e = RedactedMarker"
  by (auto simp: redact_token_def Let_def split: if_splits)

text \<open>A token of literal pieces and holes, rendered.\<close>

lemma subst_render:
  assumes "list_all seg_ok segs" and "brace_free args"
  shows "map_option (\<lambda>e. (eOut e, eFields e)) (subst (concat (map seg_text segs)) args) =
         Some (concat (map (seg_value args) segs), concat (map hole_name segs))"
proof -
  let ?tok = "concat (map seg_text segs)"
  have loop: "subst_loop args ?tok [] =
      Some (concat (map (seg_value args) segs), concat (map hole_name segs))"
    using subst_loop_render [OF assms, of "[]" "[]"] by simp
  show ?thesis
  proof (cases "str_contains ?tok open_tag")
    case True
    with loop show ?thesis by (simp add: subst_def)
  next
    case False
    have "Hole name \<notin> set segs" for name
    proof
      assume "Hole name \<in> set segs"
      then obtain xs ys where "segs = xs @ Hole name # ys" by (meson split_list)
      then have "?tok = concat (map seg_text xs) @ open_tag @ (name @ close_tag @ concat (map seg_text ys))"
        by (simp add: placeholder_def)
      with False show False by (metis str_contains_appendI)
    qed
    then have "\<forall>seg \<in> set segs. seg_value args seg = seg_text seg \<and> hole_name seg = []"
      by (metis hole_name.simps(1) seg_text.simps(1) seg_value.simps(1) segment.exhaust)
    then have vals: "map (seg_value args) segs = map seg_text segs"
      and holes: "concat (map hole_name segs) = []"
      by simp_all
    show ?thesis unfolding vals holes using False by (simp add: subst_def)
  qed
qed

text \<open>Which tokens are withheld.\<close>

lemma redact_token_eq:
  assumes "subst tok args = Some e"
  shows "redact_token secrets stdin e =
    (if set (eFields e) \<inter> set secrets \<noteq> {} \<or> stdin \<noteq> [] \<and> str_contains (eOut e) stdin
     then RedactedMarker else eOut e)"
proof -
  have "eFields e = [] \<or> eTmpl e" using assms by (auto simp: subst_def split: if_splits)
  then show ?thesis by (auto simp: redact_token_def Let_def list_ex_iff)
qed

lemma subst_raw: "subst tok args = Some e \<Longrightarrow> eRaw e = tok"
  by (auto simp: subst_def split: if_splits)

lemma expand_all_raw: "expand_all toks args = Some ex \<Longrightarrow> map eRaw ex = toks"
  by (induction toks arbitrary: ex) (auto dest: subst_raw split: option.splits)

lemma expand_all_subst: "expand_all toks args = Some ex \<Longrightarrow> e \<in> set ex \<Longrightarrow> subst (eRaw e) args = Some e"
proof (induction toks arbitrary: ex)
  case (Cons tok toks)
  then obtain e' es where e': "subst tok args = Some e'" "expand_all toks args = Some es" "ex = e' # es"
    by (auto split: option.splits)
  with Cons.IH [of es] Cons.prems(2) subst_raw [OF e'(1)] show ?case by auto
qed simp

lemma subseq_kept: "subseq (kept ex ds) ex"
proof (induction ex arbitrary: ds)
  case (Cons e ex)
  then show ?case by (cases ds) (auto simp: kept_def)
qed (simp add: kept_def)

lemma fields_of_segments:
  assumes "list_all seg_ok segs" and "brace_free args" and "subst (concat (map seg_text segs)) args = Some e"
  shows "set (eFields e) = set (concat (map hole_name segs))"
  using subst_render [OF assms(1,2)] assms(3) by simp

subsection \<open>Pairs of a flag and an optional argument\<close>

lemma subst_placeholder:
  assumes "CHR ''}'' \<notin> set name" and "CHR ''{'' \<notin> set (arg_text args name)"
  shows "subst (placeholder name) args =
    Some \<lparr>eRaw = placeholder name, eOut = arg_text args name, eTmpl = True, eFields = [name]\<rparr>"
proof -
  have "subst_loop args (placeholder name) [] = Some (arg_text args name, [name])"
    using subst_loop_round [of "[]" name args "[]" "[]"] subst_loop_done [OF assms(2), of args "[name]"]
      assms(1) by simp
  moreover have "str_contains (placeholder name) open_tag"
    using str_contains_appendI [of "[]" open_tag] by (simp add: placeholder_def)
  ultimately show ?thesis by (simp add: subst_def)
qed

definition name_ok :: "string \<Rightarrow> bool" where
  "name_ok name \<longleftrightarrow> name \<noteq> [] \<and> \<not> contains_any name ''./{} ''"

lemma name_ok_brace: "name_ok name \<Longrightarrow> CHR ''}'' \<notin> set name"
  by (auto simp: name_ok_def contains_any_def list_ex_iff)

lemma sole_placeholder: "name_ok name \<Longrightarrow> solePlaceholder (placeholder name) = Some name"
proof -
  assume ok: "name_ok name"
  have "has_prefix (placeholder name) open_tag" by (simp add: placeholder_def)
  moreover have "has_suffix (placeholder name) close_tag"
    unfolding has_suffix_iff placeholder_def by (rule exI [of _ "open_tag @ name"]) simp
  moreover have "drop (length open_tag)
      (take (length (placeholder name) - length close_tag) (placeholder name)) = name"
    by (simp add: placeholder_def)
  ultimately show ?thesis using ok unfolding solePlaceholder_def name_ok_def Let_def by simp
qed

definition optional_pair :: "verb \<Rightarrow> string \<Rightarrow> string \<Rightarrow> bool" where
  "optional_pair v f n \<longleftrightarrow>
     f \<noteq> [] \<and> CHR ''{'' \<notin> set f \<and> name_ok n \<and>
     (case map_of (arg_specs (vArgs v)) n of
        None \<Rightarrow> False
      | Some spec \<Rightarrow> \<not> aRequired spec \<and> aFlag spec = f)"

definition plain :: "string \<Rightarrow> expanded" where
  "plain tok = \<lparr>eRaw = tok, eOut = tok, eTmpl = False, eFields = []\<rparr>"

definition hole :: "args \<Rightarrow> string \<Rightarrow> expanded" where
  "hole args n = \<lparr>eRaw = placeholder n, eOut = arg_text args n, eTmpl = True, eFields = [n]\<rparr>"

definition pair_tokens :: "args \<Rightarrow> (string \<times> string) list \<Rightarrow> expanded list" where
  "pair_tokens args ps = concat (map (\<lambda>(f, n). [plain f, hole args n]) ps)"

lemma omitted_plain: "CHR ''{'' \<notin> set f \<Longrightarrow> \<not> omitted specs (plain f)"
  by (simp add: omitted_def plain_def sole_needs_brace)

lemma omitted_hole:
  "optional_pair v f n \<Longrightarrow> omitted (arg_specs (vArgs v)) (hole args n) \<longleftrightarrow> arg_text args n = []"
  by (auto simp: omitted_def hole_def optional_pair_def sole_placeholder split: option.splits)

lemma flag_of_hole:
  "optional_pair v f n \<Longrightarrow> is_flag_of (arg_specs (vArgs v)) (plain f) (hole args n)"
  by (auto simp: is_flag_of_def hole_def plain_def optional_pair_def sole_placeholder split: option.splits)

lemma kept_pairs:
  assumes "\<forall>(f, n) \<in> set ps. optional_pair v f n"
  shows "map eOut (kept (pair_tokens args ps) (marks (arg_specs (vArgs v)) (pair_tokens args ps))) =
         concat (map (\<lambda>(f, n). if arg_text args n = [] then [] else [f, arg_text args n]) ps)"
  using assms
proof (induction ps)
  case Nil
  then show ?case by (simp add: pair_tokens_def)
next
  case (Cons p ps)
  obtain f n where p: "p = (f, n)" by (cases p)
  with Cons.prems have opt: "optional_pair v f n" by simp
  let ?specs = "arg_specs (vArgs v)" and ?rest = "pair_tokens args ps"
  have toks: "pair_tokens args (p # ps) = plain f # hole args n # ?rest"
    by (simp add: pair_tokens_def p)
  have no: "\<not> omitted ?specs (plain f')" if "optional_pair v f' n'" for f' n'
    using that by (intro omitted_plain) (simp add: optional_pair_def)
  have second: "marks ?specs (hole args n # ?rest) = (arg_text args n = []) # marks ?specs ?rest"
  proof (cases ps)
    case Nil
    then show ?thesis using omitted_hole [OF opt] by (simp add: pair_tokens_def)
  next
    case (Cons q qs)
    then obtain f' n' where "q = (f', n')" by (cases q) auto
    with Cons Cons.prems have "\<not> omitted ?specs (plain f')" using \<open>\<forall>(f, n) \<in> set (p # ps). _ f n\<close> no by auto
    with Cons \<open>q = (f', n')\<close> omitted_hole [OF opt] show ?thesis by (simp add: pair_tokens_def)
  qed
  have "marks ?specs (plain f # hole args n # ?rest) =
      (arg_text args n = []) # (arg_text args n = []) # marks ?specs ?rest"
    using second no [OF opt] omitted_hole [OF opt] flag_of_hole [OF opt] by simp
  with Cons.IH Cons.prems show ?case
    unfolding toks by (simp add: p plain_def hole_def)
qed

lemma expand_all_pairs:
  assumes "\<forall>(f, n) \<in> set ps. optional_pair v f n" and "brace_free args"
  shows "expand_all (concat (map (\<lambda>(f, n). [f, placeholder n]) ps)) args = Some (pair_tokens args ps)"
  using assms(1)
proof (induction ps)
  case Nil
  then show ?case by (simp add: pair_tokens_def)
next
  case (Cons p ps)
  obtain f n where p: "p = (f, n)" by (cases p)
  with Cons.prems have "CHR ''{'' \<notin> set f" "CHR ''}'' \<notin> set n"
    using name_ok_brace by (auto simp: optional_pair_def)
  with Cons subst_placeholder [of n args] subst_plain [of f args] brace_free_text [OF assms(2)] p
  show ?case by (simp add: pair_tokens_def plain_def hole_def)
qed

lemma expand_pairs:
  assumes "vArgv v = argv0 # concat (map (\<lambda>(f, n). [f, placeholder n]) ps)"
    and "CHR ''{'' \<notin> set argv0" and "\<forall>(f, n) \<in> set ps. optional_pair v f n"
    and "first_missing (vArgs v) args = None" and "brace_free args"
  shows "\<exists>ex. expand_all (vArgv v) args = Some ex \<and>
    map eOut (kept ex (drop_marks (arg_specs (vArgs v)) ex)) =
    argv0 # concat (map (\<lambda>(f, n). if arg_text args n = [] then [] else [f, arg_text args n]) ps)"
proof -
  let ?specs = "arg_specs (vArgs v)" and ?ex = "plain argv0 # pair_tokens args ps"
  have "expand_all (vArgv v) args = Some ?ex"
    using expand_all_pairs [OF assms(3,5)] subst_plain [OF assms(2)] by (simp add: assms(1) plain_def)
  moreover have "marks ?specs ?ex = False # marks ?specs (pair_tokens args ps)"
  proof (cases ps)
    case Nil
    then show ?thesis using omitted_plain [OF assms(2)] by (simp add: pair_tokens_def)
  next
    case (Cons p qs)
    then obtain f n where "p = (f, n)" by (cases p) auto
    with Cons assms(3) have "\<not> omitted ?specs (plain f)"
      by (intro omitted_plain) (simp add: optional_pair_def)
    with Cons \<open>p = (f, n)\<close> omitted_plain [OF assms(2)] show ?thesis by (simp add: pair_tokens_def)
  qed
  ultimately show ?thesis
    using kept_pairs [OF assms(3), of args] by (simp add: drop_marks_eq plain_def)
qed

subsection \<open>A verb of the shipped catalog\<close>

text \<open>\<open>location.once\<close> of \<open>verbs.yaml\<close>.\<close>

definition location_once :: verb where
  "location_once =
     \<lparr>vName = ''location.once'', vTier = ''A'',
      vArgv = [''termux-location'', ''-p'', ''{{.provider}}'', ''-r'', ''{{.request}}''],
      vArgs = [\<lparr>aName = ''provider'', aFlag = ''-p'', aType = ''string'', aRequired = False\<rparr>,
               \<lparr>aName = ''request'', aFlag = ''-r'', aType = ''string'', aRequired = False\<rparr>],
      vStdinArg = None, vTimeoutS = 0, vRetries = None, vRetryBackoff = [], vCBThreshold = None,
      vParser = ''json'', vWatch = WAny (VBool False)\<rparr>"

lemma location_once_ok: "verb_ok location_once"
proof -
  have "validateVerb (\<lambda>_. Inl []) location_once Default = None" by code_simp
  then show ?thesis by (rule validateVerb_ok)
qed

lemma location_once_pairs:
  "vArgv location_once = ''termux-location'' # concat (map (\<lambda>(f, n). [f, placeholder n])
     [(''-p'', ''provider''), (''-r'', ''request'')])"
  "optional_pair location_once ''-p'' ''provider''" "optional_pair location_once ''-r'' ''request''"
  "first_missing (vArgs location_once) args = None"
  by (simp_all add: location_once_def placeholder_def tag_defs optional_pair_def name_ok_def
      contains_any_def arg_specs_def)

text \<open>Whatever the provider is, it becomes a token of its own.\<close>

lemma expand_provider:
  assumes "s \<noteq> []" and "CHR ''{'' \<notin> set s"
  shows "\<exists>red. expandArgv location_once [(''provider'', VStr s)] stdin =
         Some (Inr ([''termux-location'', ''-p'', s], red))"
proof -
  have "brace_free [(''provider'', VStr s)]" using assms(2) by (simp add: brace_free_def)
  then obtain ex where "expand_all (vArgv location_once) [(''provider'', VStr s)] = Some ex"
    "map eOut (kept ex (drop_marks (arg_specs (vArgs location_once)) ex)) =
     [''termux-location'', ''-p'', s]"
    using expand_pairs [OF location_once_pairs(1), where args = "[(''provider'', VStr s)]"]
      location_once_pairs assms(1) by (auto simp: arg_text_def)
  then show ?thesis by (simp add: expandArgv_def location_once_pairs(4) Let_def)
qed

text \<open>
  C19: The expansion of an argv returns for every request whose argument values contain no
  opening brace: the substitution loop, which rescans its own output, ends because every round
  removes a pair of braces.
\<close>

theorem expand_terminates:
  assumes "brace_free args"
  shows "\<exists>r. expandArgv v args stdin = Some r"
  using assms by (rule expandArgv_total)

theorem expand_terminates_witness:
  "\<exists>r. expandArgv location_once [(''provider'', VStr ''gps'')] [] = Some r"
  by (rule expand_terminates) (simp add: brace_free_def)

text \<open>
  C20: The substitution does not always end. When the text of an argument contains the argument's own
  placeholder with no opening brace before it, expanding a token in which that placeholder comes before
  any other brace never returns, so a request body can hang its handler. The condition on the text is needed:
  an opening tag in front can swallow the placeholder (\<open>shielded_reference_ends\<close>).
\<close>

theorem self_reference_hangs:
  assumes "arg_text args name = a @ placeholder name @ b"
    and "CHR ''{'' \<notin> set a" and "CHR ''}'' \<notin> set name" and "CHR ''{'' \<notin> set pre"
  shows "subst (pre @ placeholder name @ post) args = None"
proof -
  have "subst_loop args (pre @ placeholder name @ post) [] = None"
  proof (rule ccontr)
    assume "subst_loop args (pre @ placeholder name @ post) [] \<noteq> None"
    then obtain r where "subst_loop args (pre @ placeholder name @ post) [] = Some r" by auto
    from subst_loop_diverges [OF assms(1-3) this] assms(4) show False by blast
  qed
  moreover have "str_contains (pre @ placeholder name @ post) open_tag"
    using str_contains_appendI [of pre open_tag "name @ close_tag @ post"] by (simp add: placeholder_def)
  ultimately show ?thesis by (simp add: subst_def)
qed

theorem self_reference_hangs_witness:
  "subst ''--p={{.provider}}'' [(''provider'', VStr ''x{{.provider}}'')] = None"
  using self_reference_hangs [of "[(''provider'', VStr ''x{{.provider}}'')]" "''provider''" "''x''" "[]" "''--p=''" "[]"]
  by (simp add: arg_text_def placeholder_def tag_defs)

lemma shielded_reference_ends:
  "subst ''{{.provider}}'' [(''provider'', VStr ''{{.x {{.provider}}'')] =
     Some \<lparr>eRaw = ''{{.provider}}'', eOut = [], eTmpl = True, eFields = [''provider'', ''x {{.provider'']\<rparr>"
proof -
  let ?args = "[(''provider'', VStr ''{{.x {{.provider}}'')]"
  have "subst_loop ?args (placeholder ''provider'') [] = Some ([], [''provider'', ''x {{.provider''])"
    using subst_loop_round [of "[]" "''provider''" ?args "[]" "[]"]
      subst_loop_round [of "[]" "''x {{.provider''" ?args "[]" "[''provider'']"]
    by (simp add: arg_text_def placeholder_def tag_defs subst_loop_done)
  then show ?thesis by (simp add: subst_def placeholder_def tag_defs str_contains_def has_prefix_def)
qed

text \<open>
  C21: A well-formed token (literal pieces without braces, holes) is rendered by putting for each
  hole the text of its argument, and the expansion reports the hole names in order, which is what
  the redaction looks at.
\<close>

theorem subst_renders_template:
  assumes "list_all seg_ok segs" and "brace_free args"
  shows "map_option (\<lambda>e. (eOut e, eFields e)) (subst (concat (map seg_text segs)) args) =
         Some (concat (map (seg_value args) segs), concat (map hole_name segs))"
  by (rule subst_render [OF assms])

theorem subst_renders_template_witness:
  "map_option (\<lambda>e. (eOut e, eFields e))
     (subst ''a={{.x}},b={{.y}}'' [(''x'', VStr ''7''), (''y'', VBool True)]) =
   Some (''a=7,b=true'', [''x'', ''y''])"
proof -
  let ?args = "[(''x'', VStr ''7''), (''y'', VBool True)]"
  let ?segs = "[Lit ''a='', Hole ''x'', Lit '',b='', Hole ''y'']"
  have "list_all seg_ok ?segs" "brace_free ?args"
    by (simp_all add: brace_free_def)
  from subst_renders_template [OF this] show ?thesis
    by (simp add: arg_text_def placeholder_def tag_defs)
qed

text \<open>
  C15: No argument value can change which binary runs. For every verb of a validated catalog and
  every request that expands, the first token is the template's own first token, an allowlisted
  binary, and for a tier A verb one that does not mutate the device; and the redacted argv has as
  many tokens.
\<close>

theorem expand_keeps_binary:
  assumes "verb_ok v" and "expandArgv v args stdin = Some (Inr (argv, red))"
  shows "\<exists>toks b. argv = hd (vArgv v) # toks \<and> Lookup (hd (vArgv v)) = Some b \<and>
    (vTier v = TierA \<longrightarrow> \<not> Mutating b) \<and> length red = length argv"
proof -
  obtain argv0 toks b where v: "vArgv v = argv0 # toks" "Lookup argv0 = Some b"
    "vTier v = TierA \<longrightarrow> \<not> Mutating b" "\<forall>a \<in> set (vArgs v). aFlag a = [] \<or> has_prefix (aFlag a) ''-''"
    using assms(1) unfolding verb_ok_def by blast
  obtain ex where ex: "expand_all (argv0 # toks) args = Some ex"
    and argv: "argv = map eOut (kept ex (drop_marks (arg_specs (vArgs v)) ex))"
    and red: "length red = length argv"
    using expandArgv_Inr [OF assms(2)] v(1) by (metis length_map)
  let ?e = "\<lparr>eRaw = argv0, eOut = argv0, eTmpl = False, eFields = []\<rparr>"
  from ex subst_plain [OF Lookup_no_brace [OF v(2)]] obtain es where "ex = ?e # es" by auto
  with argv first_token_kept [of ?e b "vArgs v" es] v have "\<exists>toks. argv = argv0 # toks" by simp
  with v red show ?thesis by simp
qed

theorem expand_keeps_binary_witness:
  "\<exists>argv red toks. expandArgv location_once [(''provider'', VStr ''--evil'')] [] = Some (Inr (argv, red)) \<and>
     argv = ''termux-location'' # toks"
proof -
  obtain red where "expandArgv location_once [(''provider'', VStr ''--evil'')] [] =
      Some (Inr ([''termux-location'', ''-p'', ''--evil''], red))"
    using expand_provider [of "''--evil''" "[]"] by auto
  from this expand_keeps_binary [OF location_once_ok this] show ?thesis
    by (auto simp: location_once_def)
qed

text \<open>
  C34: Optional flag and value pairs come and go together. For a template that is a binary followed
  by pairs of a flag and a hole whose argument is declared optional with that flag, the expansion
  is the binary followed by exactly the pairs whose argument has a non-empty text.
\<close>

theorem expand_optional_pairs:
  assumes "vArgv v = argv0 # concat (map (\<lambda>(f, n). [f, placeholder n]) ps)"
    and "CHR ''{'' \<notin> set argv0" and "\<forall>(f, n) \<in> set ps. optional_pair v f n"
    and "first_missing (vArgs v) args = None" and "brace_free args"
  shows "\<exists>red. expandArgv v args stdin = Some (Inr
    (argv0 # concat (map (\<lambda>(f, n). if arg_text args n = [] then [] else [f, arg_text args n]) ps), red))"
  using expand_pairs [OF assms] by (simp add: expandArgv_def assms(4) Let_def)

theorem expand_optional_pairs_witness:
  "\<exists>red. expandArgv location_once [(''provider'', VStr ''gps'')] [] =
     Some (Inr ([''termux-location'', ''-p'', ''gps''], red))"
proof -
  have "brace_free [(''provider'', VStr ''gps'')]" by (simp add: brace_free_def)
  then show ?thesis
    using expand_optional_pairs [OF location_once_pairs(1) _ _ location_once_pairs(4),
        where args = "[(''provider'', VStr ''gps'')]" and stdin = "[]"] location_once_pairs(2,3)
    by (simp add: arg_text_def)
qed

text \<open>
  C16: What the redacted argv shows. Its tokens are those of the argv, each a token of the template after
  substitution. A token is replaced by the marker exactly when a hole that was filled in it names a
  secret field (the stdin argument) or when it contains the stdin body; every other token is shown as
  it runs. So a well-formed template token that mentions the stdin argument is always withheld, and no
  token but the marker contains the stdin body.
\<close>

theorem redacted_argv_hides_stdin:
  assumes "expandArgv v args stdin = Some (Inr (argv, red))"
  shows "length red = length argv \<and>
    (\<exists>toks. subseq toks (vArgv v) \<and> length toks = length argv \<and>
      (\<forall>i < length argv. \<exists>e. subst (toks ! i) args = Some e \<and> argv ! i = eOut e \<and>
         red ! i = (if set (eFields e) \<inter> set (SecretFields v) \<noteq> {} \<or> stdin \<noteq> [] \<and> str_contains (argv ! i) stdin
                    then RedactedMarker else argv ! i) \<and>
         (\<forall>segs a. toks ! i = concat (map seg_text segs) \<and> list_all seg_ok segs \<and> brace_free args \<and>
            Hole a \<in> set segs \<and> vStdinArg v = Some a \<and> a \<noteq> [] \<longrightarrow> red ! i = RedactedMarker))) \<and>
    (stdin \<noteq> [] \<longrightarrow> (\<forall>r \<in> set red. str_contains r stdin \<longrightarrow> r = RedactedMarker))"
  using assms
proof (rule expandArgv_Inr)
  fix ex
  let ?es = "kept ex (drop_marks (arg_specs (vArgs v)) ex)"
  assume ex: "expand_all (vArgv v) args = Some ex" and argv: "argv = map eOut ?es"
    and red: "red = map (redact_token (SecretFields v) stdin) ?es"
  have toks: "subseq (map eRaw ?es) (vArgv v)"
    using subseq_map [OF subseq_kept, of eRaw ex] expand_all_raw [OF ex] by simp
  have "\<exists>e. subst (map eRaw ?es ! i) args = Some e \<and> argv ! i = eOut e \<and>
      red ! i = (if set (eFields e) \<inter> set (SecretFields v) \<noteq> {} \<or> stdin \<noteq> [] \<and> str_contains (argv ! i) stdin
                 then RedactedMarker else argv ! i) \<and>
      (\<forall>segs a. map eRaw ?es ! i = concat (map seg_text segs) \<and> list_all seg_ok segs \<and> brace_free args \<and>
         Hole a \<in> set segs \<and> vStdinArg v = Some a \<and> a \<noteq> [] \<longrightarrow> red ! i = RedactedMarker)"
    if i: "i < length argv" for i
  proof -
    let ?e = "?es ! i"
    have "?e \<in> set ex" using i argv set_kept by (metis length_map nth_mem subsetD)
    then have e: "subst (eRaw ?e) args = Some ?e" using expand_all_subst [OF ex] by simp
    have r: "red ! i = (if set (eFields ?e) \<inter> set (SecretFields v) \<noteq> {} \<or> stdin \<noteq> [] \<and> str_contains (eOut ?e) stdin
        then RedactedMarker else eOut ?e)"
      using i red argv redact_token_eq [OF e] by simp
    have "red ! i = RedactedMarker"
      if "eRaw ?e = concat (map seg_text segs)" "list_all seg_ok segs" "brace_free args" "Hole a \<in> set segs"
        "vStdinArg v = Some a" "a \<noteq> []" for segs a
    proof -
      have "set (eFields ?e) = set (concat (map hole_name segs))"
        using fields_of_segments [OF that(2,3), of ?e] e that(1) by simp
      moreover have "a \<in> set (concat (map hole_name segs))" using that(4) by force
      ultimately show ?thesis using that(5,6) r by (auto simp: SecretFields_def)
    qed
    with i argv e r show ?thesis by auto
  qed
  with toks argv red show ?thesis
    using redact_token_safe [of stdin "SecretFields v"] by (intro conjI exI [of _ "map eRaw ?es"]) auto
qed

text \<open>The same verb with its provider declared to be the stdin body.\<close>

definition secret_location :: verb where
  "secret_location = location_once\<lparr>vStdinArg := Some ''provider''\<rparr>"

theorem redacted_argv_hides_stdin_witness:
  "expandArgv secret_location [(''provider'', VStr ''gps'')] [] =
     Some (Inr ([''termux-location'', ''-p'', ''gps''], [''termux-location'', ''-p'', RedactedMarker]))"
proof -
  let ?args = "[(''provider'', VStr ''gps'')]" and ?argv = "[''termux-location'', ''-p'', ''gps'']"
  obtain red0 where r0: "expandArgv location_once ?args [] = Some (Inr (?argv, red0))"
    using expand_provider [of "''gps''" "[]"] by auto
  obtain red where e: "expandArgv secret_location ?args [] = Some (Inr (?argv, red))"
  proof (rule expandArgv_Inr [OF r0])
    fix ex assume "expand_all (vArgv location_once) ?args = Some ex"
      "?argv = map eOut (kept ex (drop_marks (arg_specs (vArgs location_once)) ex))"
    with that show thesis by (simp add: expandArgv_def secret_location_def location_once_pairs(4) Let_def)
  qed
  have bf: "brace_free ?args" by (simp add: brace_free_def)
  have outs: "tok \<in> set (vArgv secret_location) \<Longrightarrow> subst tok ?args = Some e \<Longrightarrow>
      tok = placeholder ''provider'' \<and> eOut e = ''gps'' \<or> eOut e \<noteq> ''gps'' \<and> ''provider'' \<notin> set (eFields e)" for tok e
    using subst_placeholder [of "''provider''" ?args] subst_placeholder [of "''request''" ?args]
    by (auto simp: secret_location_def location_once_def subst_plain arg_text_def placeholder_def tag_defs)
  have s: "SecretFields secret_location = [''provider'']" "vStdinArg secret_location = Some ''provider''"
    by (simp_all add: SecretFields_def secret_location_def)
  note t = redacted_argv_hides_stdin [OF e]
  then obtain toks where toks: "subseq toks (vArgv secret_location)" "length toks = 3" "length red = 3"
    and each: "\<And>i. i < 3 \<Longrightarrow> \<exists>e. subst (toks ! i) ?args = Some e \<and> ?argv ! i = eOut e \<and>
         red ! i = (if set (eFields e) \<inter> set (SecretFields secret_location) \<noteq> {} then RedactedMarker else ?argv ! i) \<and>
         (\<forall>segs a. toks ! i = concat (map seg_text segs) \<and> list_all seg_ok segs \<and> brace_free ?args \<and>
            Hole a \<in> set segs \<and> vStdinArg secret_location = Some a \<and> a \<noteq> [] \<longrightarrow> red ! i = RedactedMarker)"
    by auto
  have mem: "toks ! i \<in> set (vArgv secret_location)" if "i < 3" for i
    using list_emb_set [OF toks(1) nth_mem [of i toks]] toks(2) that by auto
  have plain: "red ! i = ?argv ! i" if "i < 3" "?argv ! i \<noteq> ''gps''" for i
    using each [OF that(1)] outs [OF mem [OF that(1)]] that(2) s(1) by auto
  obtain e2 where e2: "subst (toks ! 2) ?args = Some e2" "eOut e2 = ''gps''" using each [of 2] by auto
  with outs [OF mem [of 2]] have "toks ! 2 = concat (map seg_text [Hole ''provider''])" by auto
  moreover have "list_all seg_ok [Hole ''provider'']" "Hole ''provider'' \<in> set [Hole ''provider'']" by simp_all
  moreover obtain e where "\<forall>segs a. toks ! 2 = concat (map seg_text segs) \<and> list_all seg_ok segs \<and> brace_free ?args \<and>
      Hole a \<in> set segs \<and> vStdinArg secret_location = Some a \<and> a \<noteq> [] \<longrightarrow> red ! 2 = RedactedMarker"
    using each [of 2] by auto
  ultimately have "red ! 2 = RedactedMarker" using bf s(2) by blast
  with plain [of 0] plain [of 1] toks(3) have "red = [''termux-location'', ''-p'', RedactedMarker]"
    by (auto simp: list_eq_iff_nth_eq less_Suc_eq numeral_3_eq_3 numeral_2_eq_2)
  with e show ?thesis by simp
qed

text \<open>
  C35: The allowlist check of load time does not extend to argument values: for the tier A verb
  \<open>location.once\<close>, any non-empty provider without an opening brace becomes an argv token as it is,
  so \<open>--evil\<close> reaches the binary although the allowlist refuses the resulting argv.
\<close>

theorem argument_values_unchecked:
  "(\<forall>s. s \<noteq> [] \<and> CHR ''{'' \<notin> set s \<longrightarrow>
      (\<exists>red. expandArgv location_once [(''provider'', VStr s)] [] =
         Some (Inr ([''termux-location'', ''-p'', s], red)))) \<and>
   ValidateArgv (vArgv location_once) = None \<and>
   ValidateArgv [''termux-location'', ''-p'', ''--evil''] \<noteq> None"
proof -
  have "ValidateArgv (vArgv location_once) = None" by code_simp
  moreover have "ValidateArgv [''termux-location'', ''-p'', ''--evil''] \<noteq> None" by code_simp
  ultimately show ?thesis using expand_provider by blast
qed

theorem argument_values_unchecked_witness:
  "\<exists>red. expandArgv location_once [(''provider'', VStr ''--evil'')] [] =
     Some (Inr ([''termux-location'', ''-p'', ''--evil''], red))"
  using argument_values_unchecked by simp

end
