(* ===== verification/Token.thy ===== *)
theory Token
  imports Go_Strings
begin

unbundle bit_operations_syntax

text \<open>
  \<open>internal/auth/token.go\<close>: loading or generating the agent token, and the check of a request's
  \<open>X-Agent-Token\<close> header. The part of the file system the code touches is a map from paths to
  file contents and permission bits; the calls of package os and the random generator may fail,
  which is what the record \<open>os_faults\<close> says. The 32 random bytes are an argument.
\<close>

record token =
  raw :: string

record filedata =
  contents :: string
  perm :: int

record os_faults =
  readFault :: bool
  statFault :: bool
  dirName :: string
  mkdirFault :: bool
  randFault :: bool
  openFault :: bool
  writeFault :: "nat option"
  closeFault :: bool
  umask :: int

datatype token_error =
    EmptyPath
  | StatFailed
  | TooPermissive int
  | EmptyFile
  | ReadFailed
  | MkdirFailed
  | RandFailed
  | WriteFailed
  | CloseFailed

definition group_other_bits :: int where "group_other_bits = 63"
definition owner_rw :: int where "owner_rw = 384"

definition hex_digit :: "nat \<Rightarrow> char" where
  "hex_digit n = (if n < 10 then char_of (48 + n) else char_of (87 + n))"

text \<open>\<open>hex.EncodeToString\<close>\<close>

definition hex_encode :: "string \<Rightarrow> string" where
  "hex_encode bs =
     concat (map (\<lambda>c. [hex_digit (of_char c div 16), hex_digit (of_char c mod 16)]) bs)"

definition load_existing :: "os_faults \<Rightarrow> filedata \<Rightarrow> token_error + token" where
  "load_existing fl f =
     (if statFault fl then Inl StatFailed
      else if perm f AND group_other_bits \<noteq> 0 then Inl (TooPermissive (perm f))
      else let s = trim_space (contents f)
           in if s = [] then Inl EmptyFile else Inr \<lparr>raw = s\<rparr>)"

text \<open>
  The creation path. A failing write leaves the file that was just created, with the bytes
  written so far; every other failure after the open leaves it complete.
\<close>

definition create_token ::
  "os_faults \<Rightarrow> string \<Rightarrow> string \<Rightarrow> filedata gomap \<Rightarrow> (token_error + token) \<times> filedata gomap" where
  "create_token fl rnd path disk =
     (if mkdirFault fl \<and> dirName fl \<noteq> ''.'' \<and> dirName fl \<noteq> [] then (Inl MkdirFailed, disk)
      else if randFault fl then (Inl RandFailed, disk)
      else
        let s = hex_encode rnd; mode = owner_rw AND (NOT (umask fl))
        in if openFault fl then (Inl WriteFailed, disk)
           else case writeFault fl of
             Some n \<Rightarrow>
               (Inl WriteFailed, AList.update path \<lparr>contents = take n (s @ [CHR 0x0A]), perm = mode\<rparr> disk)
           | None \<Rightarrow>
               if closeFault fl
               then (Inl CloseFailed, AList.update path \<lparr>contents = s @ [CHR 0x0A], perm = mode\<rparr> disk)
               else (Inr \<lparr>raw = s\<rparr>,
                     AList.update path \<lparr>contents = s @ [CHR 0x0A], perm = owner_rw\<rparr> disk))"

definition LoadOrCreate ::
  "os_faults \<Rightarrow> string \<Rightarrow> string \<Rightarrow> filedata gomap \<Rightarrow> (token_error + token) \<times> filedata gomap" where
  "LoadOrCreate fl rnd path disk =
     (if path = [] then (Inl EmptyPath, disk)
      else if readFault fl then (Inl ReadFailed, disk)
      else case map_of disk path of
        Some f \<Rightarrow> (load_existing fl f, disk)
      | None \<Rightarrow> create_token fl rnd path disk)"

text \<open>
  The receiver of \<open>Valid\<close> may be nil. \<open>subtle.ConstantTimeCompare\<close> of two slices of the same
  length is 1 exactly when all bytes agree.
\<close>

definition ConstantTimeCompare :: "string \<Rightarrow> string \<Rightarrow> int" where
  "ConstantTimeCompare a b =
     (if length a = length b \<and> list_all2 (=) a b then 1 else 0)"

definition Valid :: "token option \<Rightarrow> string \<Rightarrow> bool" where
  "Valid t provided =
     (case t of
        None \<Rightarrow> False
      | Some t \<Rightarrow>
          (let a = raw t; b = trim_space provided
           in if length a \<noteq> length b then False else ConstantTimeCompare a b = 1))"

definition token_ok :: "token \<Rightarrow> bool" where
  "token_ok t \<longleftrightarrow> raw t \<noteq> []"

lemma Valid_iff: "Valid (Some t) p \<longleftrightarrow> trim_space p = raw t"
  by (auto simp: Valid_def ConstantTimeCompare_def Let_def list_all2_eq [symmetric])

subsection \<open>Trimming a printed token\<close>

definition ws_free :: "char \<Rightarrow> bool" where
  "ws_free c \<longleftrightarrow> (\<forall>w \<in> set ws_seqs. c \<noteq> hd w \<and> c \<noteq> last w)"

lemma ws_nonempty: "w \<in> set ws_seqs \<Longrightarrow> w \<noteq> []"
  by (auto simp: ws_seqs_def)

lemma trim_fuel_stop:
  assumes "\<forall>w \<in> set ws. w \<noteq> [] \<and> c \<noteq> hd w"
  shows "trim_fuel n ws (c # s) = c # s"
proof -
  have "\<not> has_prefix (c # s) w" if "w \<in> set ws" for w
    using assms that by (cases w) (auto simp: has_prefix_def)
  then have "find (has_prefix (c # s)) ws = None" by (simp add: find_None_iff)
  then show ?thesis by (cases n) simp_all
qed

lemma trim_left_stop: "ws_free c \<Longrightarrow> trim_left (c # s) = c # s"
  using ws_nonempty by (simp add: trim_left_def ws_free_def trim_fuel_stop del: trim_fuel.simps)

lemma rev_ws_stop: "ws_free c \<Longrightarrow> \<forall>w \<in> set (map rev ws_seqs). w \<noteq> [] \<and> c \<noteq> hd w"
  using ws_nonempty by (auto simp: ws_free_def hd_rev)

lemma trim_right_stop: "ws_free c \<Longrightarrow> trim_right (s @ [c]) = s @ [c]"
  using trim_fuel_stop [OF rev_ws_stop] by (simp add: trim_right_def del: trim_fuel.simps)

lemma find_newline: "find (has_prefix (CHR 0x0A # s)) (map rev ws_seqs) = Some [CHR 0x0A]"
  by (simp add: ws_seqs_def has_prefix_def)

lemma trim_right_newline: "ws_free c \<Longrightarrow> trim_right (s @ [c] @ [CHR 0x0A]) = s @ [c]"
proof -
  assume c: "ws_free c"
  have "trim_fuel (Suc (Suc n)) (map rev ws_seqs) (CHR 0x0A # c # rev s) = c # rev s" for n
    using trim_fuel_stop [OF rev_ws_stop [OF c], of "Suc n"]
    by (simp only: trim_fuel.simps(2) [of "Suc n"] find_newline) simp
  then show ?thesis by (simp add: trim_right_def del: trim_fuel.simps)
qed

lemma trim_space_line:
  assumes "s \<noteq> []" and "\<forall>c \<in> set s. ws_free c"
  shows "trim_space s = s" and "trim_space (s @ [CHR 0x0A]) = s"
proof -
  from assms(1) obtain c t where ct: "s = c # t" by (cases s) auto
  from assms(1) obtain u d where ud: "s = u @ [d]" by (cases s rule: rev_cases) auto
  have "c \<in> set s" by (simp add: ct)
  moreover have "d \<in> set s" by (simp only: ud) simp
  ultimately
  have free: "ws_free c" "ws_free d" using assms(2) by blast+
  have left: "trim_left s = s" "trim_left (s @ [CHR 0x0A]) = s @ [CHR 0x0A]"
    using trim_left_stop [OF free(1)] by (simp_all add: ct)
  show "trim_space s = s"
    using left(1) trim_right_stop [OF free(2), of u] by (simp add: trim_space_def ud)
  show "trim_space (s @ [CHR 0x0A]) = s"
    using left(2) trim_right_newline [OF free(2), of u] by (simp add: trim_space_def ud)
qed

lemma hex_digits_free: "list_all (\<lambda>n. ws_free (hex_digit n)) [0..<16]"
  by (simp add: ws_free_def ws_seqs_def upt_rec hex_digit_def char_of_def)

lemma hex_digit_free: "n < 16 \<Longrightarrow> ws_free (hex_digit n)"
  using hex_digits_free by (simp add: list_all_iff)

lemma hex_encode_free: "c \<in> set (hex_encode bs) \<Longrightarrow> ws_free c"
  by (auto simp: hex_encode_def hex_digit_free less_mult_imp_div_less)

lemma hex_encode_Nil_iff: "hex_encode bs = [] \<longleftrightarrow> bs = []"
  by (cases bs) (simp_all add: hex_encode_def)

lemma owner_only: "owner_rw AND group_other_bits = 0"
  by (simp add: owner_rw_def group_other_bits_def)

lemma LoadOrCreate_Inr:
  assumes "LoadOrCreate fl rnd path disk = (Inr t, disk')" and "rnd \<noteq> []"
  shows "path \<noteq> [] \<and> (\<exists>f. map_of disk' path = Some f \<and> perm f AND group_other_bits = 0 \<and>
    trim_space (contents f) = raw t) \<and> raw t \<noteq> []"
proof -
  from assms(1) have path: "path \<noteq> []" and read: "\<not> readFault fl"
    by (auto simp: LoadOrCreate_def split: if_splits)
  have "(\<exists>f. map_of disk' path = Some f \<and> perm f AND group_other_bits = 0 \<and>
            trim_space (contents f) = raw t) \<and> raw t \<noteq> []"
  proof (cases "map_of disk path")
    case (Some f)
    with assms(1) path read have "load_existing fl f = Inr t" and "disk' = disk"
      by (simp_all add: LoadOrCreate_def)
    with Some show ?thesis by (auto simp: load_existing_def Let_def split: if_splits)
  next
    case None
    with assms(1) path read have "create_token fl rnd path disk = (Inr t, disk')"
      by (simp add: LoadOrCreate_def)
    then have "t = \<lparr>raw = hex_encode rnd\<rparr>"
      and "disk' = AList.update path \<lparr>contents = hex_encode rnd @ [CHR 0x0A], perm = owner_rw\<rparr> disk"
      by (auto simp: create_token_def Let_def split: if_splits option.splits)
    with assms(2) show ?thesis
      using trim_space_line(2) [of "hex_encode rnd"] hex_encode_free
      by (simp add: owner_only hex_encode_Nil_iff)
  qed
  with path show ?thesis by blast
qed

subsection \<open>Properties\<close>

text \<open>
  C31: The daemon fails closed on its token. Whatever the file system does, a token is handed out
  only when, afterwards, the token file exists, is inaccessible to group and others or was just
  created with mode 0600, and holds exactly that token up to surrounding white space; and such a
  token is never empty, so a request without a token (or with a blank one) is never authorised.
\<close>

theorem token_fail_closed:
  assumes "LoadOrCreate fl rnd path disk = (Inr t, disk')" and "rnd \<noteq> []"
  shows "(\<exists>f. map_of disk' path = Some f \<and> perm f AND group_other_bits = 0 \<and>
            trim_space (contents f) = raw t) \<and>
    (\<forall>p. trim_space p = [] \<longrightarrow> \<not> Valid (Some t) p)"
proof -
  show ?thesis using LoadOrCreate_Inr [OF assms] by (auto simp: Valid_iff)
qed

definition no_faults :: os_faults where
  "no_faults = \<lparr>readFault = False, statFault = False, dirName = ''.'', mkdirFault = False,
     randFault = False, openFault = False, writeFault = None, closeFault = False, umask = 18\<rparr>"

lemma create_example:
  "LoadOrCreate no_faults [CHR 0xAB] ''.agent-token'' [] =
   (Inr \<lparr>raw = ''ab''\<rparr>, [(''.agent-token'', \<lparr>contents = [CHR ''a'', CHR ''b'', CHR 0x0A], perm = 384\<rparr>)])"
  by code_simp

theorem token_fail_closed_witness:
  "\<not> Valid (Some \<lparr>raw = ''ab''\<rparr>) [] \<and> Valid (Some \<lparr>raw = ''ab''\<rparr>) ''ab'' \<and>
   fst (LoadOrCreate no_faults [] ''t'' [(''t'', \<lparr>contents = ''ab'', perm = 416\<rparr>)]) =
     Inl (TooPermissive 416)"
proof -
  have "\<not> Valid (Some \<lparr>raw = ''ab''\<rparr>) []"
    using token_fail_closed [OF create_example] by (simp add: trim_space_def trim_left_def trim_right_def)
  moreover have "Valid (Some \<lparr>raw = ''ab''\<rparr>) ''ab''"
    by (simp add: Valid_iff trim_space_line(1) ws_free_def ws_seqs_def)
  moreover have "fst (LoadOrCreate no_faults [] ''t'' [(''t'', \<lparr>contents = ''ab'', perm = 416\<rparr>)]) =
      Inl (TooPermissive 416)"
    by (simp add: LoadOrCreate_def load_existing_def no_faults_def group_other_bits_def)
  ultimately show ?thesis by blast
qed

text \<open>
  C32: The token survives a restart: once \<open>LoadOrCreate\<close> has handed out a token, every later start
  that can read the file hands out the same token, leaves the disk alone, and accepts exactly
  the requests whose header, up to surrounding white space, is that token.
\<close>

theorem token_survives_restart:
  assumes "LoadOrCreate fl rnd path disk = (Inr t, disk')" and "rnd \<noteq> []"
    and "\<not> readFault fl'" and "\<not> statFault fl'"
  shows "LoadOrCreate fl' rnd' path disk' = (Inr t, disk') \<and>
    (\<forall>p. Valid (Some t) p \<longleftrightarrow> trim_space p = raw t)"
proof -
  note LoadOrCreate_Inr [OF assms(1,2)]
  with assms(3,4) show ?thesis
    by (cases t) (auto simp: LoadOrCreate_def load_existing_def Valid_iff)
qed

theorem token_survives_restart_witness:
  "LoadOrCreate no_faults [] ''.agent-token''
     [(''.agent-token'', \<lparr>contents = [CHR ''a'', CHR ''b'', CHR 0x0A], perm = 384\<rparr>)] =
   (Inr \<lparr>raw = ''ab''\<rparr>, [(''.agent-token'', \<lparr>contents = [CHR ''a'', CHR ''b'', CHR 0x0A], perm = 384\<rparr>)])"
  using token_survives_restart [OF create_example, of no_faults "[]"] by (simp add: no_faults_def)

end
