(* ===== verification/Json.thy ===== *)
theory Json
  imports Go_Value
begin

text \<open>
  The part of Go's encoding/json the dispatcher relies on: \<open>json.Marshal\<close> of strings, string
  slices and generic values, and the decoder with \<open>UseNumber\<close> (numbers stay literals). Strings
  are byte sequences; as in Go, invalid UTF-8 becomes U+FFFD, and the encoder escapes \<open><\<close>, \<open>>\<close>,
  \<open>&\<close>, U+2028 and U+2029.
\<close>

subsection \<open>UTF-8\<close>

definition byte :: "char \<Rightarrow> nat" where
  "byte c = of_char c"

text \<open>
  The table of \<open>utf8.DecodeRune\<close>: for a first byte the number of continuation bytes and the range
  of the second byte.
\<close>

definition lead :: "nat \<Rightarrow> (nat \<times> nat \<times> nat) option" where
  "lead b =
     (if b < 0x80 then Some (0, 0, 0)
      else if b < 0xC2 then None
      else if b < 0xE0 then Some (1, 0x80, 0xBF)
      else if b = 0xE0 then Some (2, 0xA0, 0xBF)
      else if b = 0xED then Some (2, 0x80, 0x9F)
      else if b < 0xF0 then Some (2, 0x80, 0xBF)
      else if b = 0xF0 then Some (3, 0x90, 0xBF)
      else if b < 0xF4 then Some (3, 0x80, 0xBF)
      else if b = 0xF4 then Some (3, 0x80, 0x8F)
      else None)"

fun tail_ok :: "nat \<Rightarrow> nat \<Rightarrow> string \<Rightarrow> bool" where
  "tail_ok lo hi [] = True"
| "tail_ok lo hi (c # cs) = (lo \<le> byte c \<and> byte c \<le> hi \<and> tail_ok 0x80 0xBF cs)"

text \<open>The number of bytes of the rune at the head, 0 when it is invalid.\<close>

fun utf8_len :: "string \<Rightarrow> nat" where
  "utf8_len [] = 0"
| "utf8_len (c # cs) =
     (case lead (byte c) of
        None \<Rightarrow> 0
      | Some (k, lo, hi) \<Rightarrow> if k \<le> length cs \<and> tail_ok lo hi (take k cs) then Suc k else 0)"

definition utf8_encode :: "nat \<Rightarrow> string" where
  "utf8_encode n =
     (if n < 0x80 then [char_of n]
      else if n < 0x800 then [char_of (0xC0 + n div 64), char_of (0x80 + n mod 64)]
      else if n < 0x10000 then
        [char_of (0xE0 + n div 4096), char_of (0x80 + n div 64 mod 64), char_of (0x80 + n mod 64)]
      else
        [char_of (0xF0 + n div 262144), char_of (0x80 + n div 4096 mod 64),
         char_of (0x80 + n div 64 mod 64), char_of (0x80 + n mod 64)])"

definition replacement :: string where
  "replacement = [CHR 0xEF, CHR 0xBF, CHR 0xBD]"

fun utf8_valid :: "string \<Rightarrow> bool" where
  "utf8_valid [] = True"
| "utf8_valid (c # cs) = (0 < utf8_len (c # cs) \<and> utf8_valid (drop (utf8_len (c # cs) - 1) cs))"

lemma utf8_len_le: "utf8_len s \<le> length s"
  by (cases s) (auto split: option.splits)

lemma utf8_len_take: "0 < utf8_len s \<Longrightarrow> utf8_len (take (utf8_len s) s @ r) = utf8_len s"
  by (cases s) (auto split: option.splits if_splits)

lemma utf8_len_ascii: "byte c < 0x80 \<Longrightarrow> utf8_len (c # cs) = 1"
  by (simp add: lead_def)

subsection \<open>Encoding\<close>

definition hex_lower :: "nat \<Rightarrow> char" where
  "hex_lower n = (if n < 10 then char_of (48 + n) else char_of (87 + n))"

definition backslash :: char where "backslash = CHR 0x5C"
definition quote :: char where "quote = CHR 0x22"

definition u_escape :: "nat \<Rightarrow> string" where
  "u_escape n =
     [backslash, CHR ''u'', hex_lower (n div 4096 mod 16), hex_lower (n div 256 mod 16),
      hex_lower (n div 16 mod 16), hex_lower (n mod 16)]"

definition json_escape :: "char \<Rightarrow> string" where
  "json_escape c =
     (if c = backslash \<or> c = quote then [backslash, c]
      else if c = CHR 0x08 then [backslash, CHR ''b'']
      else if c = CHR 0x0C then [backslash, CHR ''f'']
      else if c = CHR 0x0A then [backslash, CHR ''n'']
      else if c = CHR 0x0D then [backslash, CHR ''r'']
      else if c = CHR 0x09 then [backslash, CHR ''t'']
      else if byte c < 0x20 \<or> c = CHR ''<'' \<or> c = CHR ''>'' \<or> c = CHR ''&'' then u_escape (byte c)
      else [c])"

definition line_separator :: string where
  "line_separator = [CHR 0xE2, CHR 0x80, CHR 0xA8]"

definition paragraph_separator :: string where
  "paragraph_separator = [CHR 0xE2, CHR 0x80, CHR 0xA9]"

definition json_rune :: "string \<Rightarrow> string" where
  "json_rune r =
     (if r = line_separator then u_escape 0x2028
      else if r = paragraph_separator then u_escape 0x2029
      else r)"

fun json_body :: "string \<Rightarrow> string" where
  "json_body [] = []"
| "json_body (c # cs) =
     (if byte c < 0x80 then json_escape c @ json_body cs
      else let k = utf8_len (c # cs)
           in if k = 0 then u_escape 0xFFFD @ json_body cs
              else json_rune (take k (c # cs)) @ json_body (drop (k - 1) cs))"

definition json_string :: "string \<Rightarrow> string" where
  "json_string s = [quote] @ json_body s @ [quote]"

text \<open>Floats: plain decimals, or exponents below 1e-6 and from 1e21 on, without padding.\<close>

definition json_float :: "f64 \<Rightarrow> string option" where
  "json_float f =
     (case f of
        F64 neg ds p \<Rightarrow>
          Some ((if neg then ''-'' else []) @
            (if ds \<noteq> [] \<and> (p - 1 < -6 \<or> 21 \<le> p - 1)
             then (let e = fmtE ds p; n = length e
                   in if 4 \<le> n \<and> take 3 (drop (n - 4) e) = ''e-0'' then take (n - 2) e @ drop (n - 1) e
                      else e)
             else fmtF ds p))
      | _ \<Rightarrow> None)"

definition all_some :: "'a option list \<Rightarrow> 'a list option" where
  "all_some xs = (if None \<in> set xs then None else Some (map the xs))"

primrec json_marshal :: "goval \<Rightarrow> string option" where
  "json_marshal VNil = Some ''null''"
| "json_marshal (VBool b) = Some (if b then ''true'' else ''false'')"
| "json_marshal (VInt i) = Some (itoa i)"
| "json_marshal (VFloat f) = json_float f"
| "json_marshal (VNumber s) = Some (if s = [] then ''0'' else s)"
| "json_marshal (VStr s) = Some (json_string s)"
| "json_marshal (VList vs) =
     map_option (\<lambda>es. ''['' @ str_join es '','' @ '']'') (all_some (map json_marshal vs))"
| "json_marshal (VMap kvs) =
     (let es = sort_key fst (map (map_prod id json_marshal) kvs)
      in map_option
           (\<lambda>vs. ''{'' @ str_join (map (\<lambda>(k, v). json_string k @ '':'' @ v) (zip (map fst es) vs)) '','' @ ''}'')
           (all_some (map snd es)))"

subsection \<open>Decoding\<close>

definition hex_val :: "char \<Rightarrow> nat option" where
  "hex_val c =
     (let n = byte c
      in if 48 \<le> n \<and> n \<le> 57 then Some (n - 48)
         else if 97 \<le> n \<and> n \<le> 102 then Some (n - 87)
         else if 65 \<le> n \<and> n \<le> 70 then Some (n - 55)
         else None)"

fun hex4 :: "string \<Rightarrow> nat option" where
  "hex4 (a # b # c # d # rest) =
     (case (hex_val a, hex_val b, hex_val c, hex_val d) of
        (Some w, Some x, Some y, Some z) \<Rightarrow> Some (4096 * w + 256 * x + 16 * y + z)
      | _ \<Rightarrow> None)"
| "hex4 _ = None"

text \<open>A surrogate joins a following low surrogate escape; otherwise it stands for U+FFFD.\<close>

definition unescape_u :: "string \<Rightarrow> (string \<times> string) option" where
  "unescape_u cs =
     (case hex4 cs of
        None \<Rightarrow> None
      | Some r1 \<Rightarrow>
          (let rest = drop 4 cs
           in if 0xD800 \<le> r1 \<and> r1 < 0xE000
              then (case (if take 2 rest = [backslash, CHR ''u''] then hex4 (drop 2 rest) else None) of
                      Some r2 \<Rightarrow>
                        if r1 < 0xDC00 \<and> 0xDC00 \<le> r2 \<and> r2 < 0xE000
                        then Some (utf8_encode ((r1 - 0xD800) * 1024 + (r2 - 0xDC00) + 0x10000), drop 6 rest)
                        else Some (replacement, rest)
                    | None \<Rightarrow> Some (replacement, rest))
              else Some (utf8_encode r1, rest)))"

definition unescape :: "string \<Rightarrow> (string \<times> string) option" where
  "unescape s =
     (case s of
        [] \<Rightarrow> None
      | c # cs \<Rightarrow>
          if c = quote \<or> c = backslash \<or> c = CHR ''/'' then Some ([c], cs)
          else if c = CHR ''b'' then Some ([CHR 0x08], cs)
          else if c = CHR ''f'' then Some ([CHR 0x0C], cs)
          else if c = CHR ''n'' then Some ([CHR 0x0A], cs)
          else if c = CHR ''r'' then Some ([CHR 0x0D], cs)
          else if c = CHR ''t'' then Some ([CHR 0x09], cs)
          else if c = CHR ''u'' then unescape_u cs
          else None)"

text \<open>The rest of a string after its opening quote; every step consumes at least one byte.\<close>

fun pstr :: "nat \<Rightarrow> string \<Rightarrow> (string \<times> string) option" where
  "pstr 0 s = None"
| "pstr (Suc n) [] = None"
| "pstr (Suc n) (c # cs) =
     (if c = quote then Some ([], cs)
      else if c = backslash then
        (case unescape cs of
           None \<Rightarrow> None
         | Some (out, rest) \<Rightarrow> map_option (apfst ((@) out)) (pstr n rest))
      else if byte c < 0x20 then None
      else let k = utf8_len (c # cs)
           in if k = 0 then map_option (apfst ((@) replacement)) (pstr n cs)
              else map_option (apfst ((@) (take k (c # cs)))) (pstr n (drop k (c # cs))))"

definition json_space :: "char \<Rightarrow> bool" where
  "json_space c \<longleftrightarrow> c = CHR '' '' \<or> c = CHR 0x09 \<or> c = CHR 0x0A \<or> c = CHR 0x0D"

definition skip_ws :: "string \<Rightarrow> string" where
  "skip_ws s = dropWhile json_space s"

definition is_digit :: "char \<Rightarrow> bool" where
  "is_digit c \<longleftrightarrow> 48 \<le> byte c \<and> byte c \<le> 57"

definition num_int :: "string \<Rightarrow> (string \<times> string) option" where
  "num_int s =
     (case s of
        [] \<Rightarrow> None
      | c # cs \<Rightarrow>
          if c = CHR ''0'' then Some (''0'', cs)
          else if is_digit c then Some (takeWhile is_digit s, dropWhile is_digit s)
          else None)"

definition num_frac :: "string \<Rightarrow> (string \<times> string) option" where
  "num_frac s =
     (case s of
        [] \<Rightarrow> Some ([], [])
      | c # cs \<Rightarrow>
          if c = CHR ''.'' then
            (if takeWhile is_digit cs = [] then None
             else Some (c # takeWhile is_digit cs, dropWhile is_digit cs))
          else Some ([], s))"

definition num_exp :: "string \<Rightarrow> (string \<times> string) option" where
  "num_exp s =
     (case s of
        [] \<Rightarrow> Some ([], [])
      | c # cs \<Rightarrow>
          if c = CHR ''e'' \<or> c = CHR ''E'' then
            (let (sgn, ds) = (case cs of
                   x # xs \<Rightarrow> if x = CHR ''+'' \<or> x = CHR ''-'' then ([x], xs) else ([], cs)
                 | [] \<Rightarrow> ([], []))
             in if takeWhile is_digit ds = [] then None
                else Some (c # sgn @ takeWhile is_digit ds, dropWhile is_digit ds))
          else Some ([], s))"

definition pnumber :: "string \<Rightarrow> (string \<times> string) option" where
  "pnumber s =
     (let (sgn, s1) = (if take 1 s = ''-'' then (''-'', drop 1 s) else ([], s))
      in case num_int s1 of
           None \<Rightarrow> None
         | Some (i, s2) \<Rightarrow>
             (case num_frac s2 of
                None \<Rightarrow> None
              | Some (f, s3) \<Rightarrow>
                  (case num_exp s3 of
                     None \<Rightarrow> None
                   | Some (e, s4) \<Rightarrow> Some (sgn @ i @ f @ e, s4))))"

definition max_depth :: nat where "max_depth = 10000"

text \<open>
  Values, the elements of an array and the members of an object. \<open>d\<close> is the nesting depth. Two
  steps of fuel per byte are enough: a call either consumes a byte or is the call of \<open>pval\<close> that
  \<open>pelems\<close> makes on the same input.
\<close>

fun pval :: "nat \<Rightarrow> nat \<Rightarrow> string \<Rightarrow> (goval \<times> string) option"
and pelems :: "nat \<Rightarrow> nat \<Rightarrow> string \<Rightarrow> (goval list \<times> string) option"
and pmembers :: "nat \<Rightarrow> nat \<Rightarrow> goval gomap \<Rightarrow> string \<Rightarrow> (goval gomap \<times> string) option" where
  "pval 0 d s = None"
| "pval (Suc n) d s =
     (case skip_ws s of
        [] \<Rightarrow> None
      | c # cs \<Rightarrow>
          if c = CHR ''{'' then
            (if max_depth \<le> d then None
             else if take 1 (skip_ws cs) = ''}'' then Some (VMap [], drop 1 (skip_ws cs))
             else map_option (apfst VMap) (pmembers n (Suc d) [] cs))
          else if c = CHR ''['' then
            (if max_depth \<le> d then None
             else if take 1 (skip_ws cs) = '']'' then Some (VList [], drop 1 (skip_ws cs))
             else map_option (apfst VList) (pelems n (Suc d) cs))
          else if c = quote then map_option (apfst VStr) (pstr (Suc (length cs)) cs)
          else if has_prefix (c # cs) ''true'' then Some (VBool True, drop 3 cs)
          else if has_prefix (c # cs) ''false'' then Some (VBool False, drop 4 cs)
          else if has_prefix (c # cs) ''null'' then Some (VNil, drop 3 cs)
          else map_option (apfst VNumber) (pnumber (c # cs)))"
| "pelems 0 d s = None"
| "pelems (Suc n) d s =
     (case pval n d s of
        None \<Rightarrow> None
      | Some (v, r) \<Rightarrow>
          (case skip_ws r of
             [] \<Rightarrow> None
           | c # cs \<Rightarrow>
               if c = CHR '','' then map_option (apfst ((#) v)) (pelems n d cs)
               else if c = CHR '']'' then Some ([v], cs)
               else None))"
| "pmembers 0 d m s = None"
| "pmembers (Suc n) d m s =
     (case skip_ws s of
        [] \<Rightarrow> None
      | q # qs \<Rightarrow>
          if q \<noteq> quote then None
          else
            (case pstr (Suc (length qs)) qs of
               None \<Rightarrow> None
             | Some (k, r) \<Rightarrow>
                 if take 1 (skip_ws r) \<noteq> '':'' then None
                 else
                   (case pval n d (drop 1 (skip_ws r)) of
                      None \<Rightarrow> None
                    | Some (v, r2) \<Rightarrow>
                        (case skip_ws r2 of
                           [] \<Rightarrow> None
                         | c # cs \<Rightarrow>
                             if c = CHR '','' then pmembers n d (AList.update k v m) cs
                             else if c = CHR ''}'' then Some (AList.update k v m, cs)
                             else None))))"

text \<open>One \<open>Decode\<close> of a decoder that uses numbers: the value and the unread input.\<close>

definition json_decode :: "string \<Rightarrow> (goval \<times> string) option" where
  "json_decode s = pval (2 * length s + 2) 0 s"

text \<open>\<open>json.Unmarshal\<close> into a \<open>[]string\<close>; on any error the slice decoded so far is not used.\<close>

definition unmarshal_strings :: "string \<Rightarrow> string list option" where
  "unmarshal_strings s =
     (case json_decode s of
        Some (VList vs, r) \<Rightarrow>
          if skip_ws r = [] \<and> list_all (\<lambda>v. case v of VStr _ \<Rightarrow> True | VNil \<Rightarrow> True | _ \<Rightarrow> False) vs
          then Some (map (\<lambda>v. case v of VStr t \<Rightarrow> t | _ \<Rightarrow> []) vs) else None
      | Some (VNil, r) \<Rightarrow> if skip_ws r = [] then Some [] else None
      | _ \<Rightarrow> None)"

subsection \<open>Round trip of strings\<close>

lemma byte_less [simp]: "byte c < 256"
  by (simp add: byte_def)

lemma char_of_byte [simp]: "char_of (byte c) = c"
  by (simp add: byte_def)

lemma byte_char_of [simp]: "n < 256 \<Longrightarrow> byte (char_of n) = n"
  by (simp add: byte_def)

lemma hex_val_lower: "n < 16 \<Longrightarrow> hex_val (hex_lower n) = Some n"
  by (simp add: hex_val_def hex_lower_def Let_def)

lemma hex4_escape:
  assumes "n < 65536"
  shows "hex4 (drop 2 (u_escape n) @ t) = Some n"
proof -
  let ?a = "n div 16" and ?b = "n div 16 div 16" and ?c = "n div 16 div 16 div 16"
  have d: "n div 256 = ?b" "n div 4096 = ?c" by (simp_all flip: div_mult2_eq)
  have "?c < 16" using assms by (simp add: less_mult_imp_div_less flip: div_mult2_eq)
  then have m: "?c mod 16 = ?c" by simp
  have "n = 16 * ?a + n mod 16" "?a = 16 * ?b + ?a mod 16" "?b = 16 * ?c + ?b mod 16"
    by simp_all
  then have "4096 * (n div 4096 mod 16) + 256 * (n div 256 mod 16) + 16 * (?a mod 16) + n mod 16 = n"
    unfolding d m by linarith
  moreover have "n div 4096 mod 16 = n div 4096" using m d(2) by simp
  moreover have "n div 4096 < 16" using \<open>?c < 16\<close> d(2) by simp
  ultimately show ?thesis by (simp add: u_escape_def hex_val_lower)
qed

lemma pstr_u_escape:
  assumes "n < 0xD800"
  shows "pstr (Suc m) (u_escape n @ t) = map_option (apfst ((@) (utf8_encode n))) (pstr m t)"
proof -
  define h where "h = drop 2 (u_escape n)"
  have split: "u_escape n @ t = backslash # CHR ''u'' # (h @ t)" and len: "length h = 4"
    by (simp_all add: u_escape_def h_def)
  have "hex4 (h @ t) = Some n" using hex4_escape [of n t] assms by (simp add: h_def)
  with len assms have "unescape (CHR ''u'' # h @ t) = Some (utf8_encode n, t)"
    by (simp add: unescape_def unescape_u_def backslash_def quote_def)
  then show ?thesis unfolding split by (simp add: backslash_def quote_def)
qed

lemma pstr_escape:
  assumes "byte c < 0x80"
  shows "pstr (Suc m) (json_escape c @ t) = map_option (apfst ((@) [c])) (pstr m t)"
proof -
  have "c = backslash \<or> c = quote \<or> c \<in> {CHR 0x08, CHR 0x0C, CHR 0x0A, CHR 0x0D, CHR 0x09} \<or>
      json_escape c = u_escape (byte c) \<or>
      json_escape c = [c] \<and> 0x20 \<le> byte c \<and> c \<noteq> backslash \<and> c \<noteq> quote"
    by (simp add: json_escape_def not_less)
  then consider "c = backslash" | "c = quote" | "c \<in> {CHR 0x08, CHR 0x0C, CHR 0x0A, CHR 0x0D, CHR 0x09}"
    | "json_escape c = u_escape (byte c)" | "json_escape c = [c]" "0x20 \<le> byte c"
      "c \<noteq> backslash" "c \<noteq> quote"
    by blast
  then show ?thesis
  proof cases
    case 4
    with assms show ?thesis by (simp add: pstr_u_escape utf8_encode_def)
  next
    case 5
    with assms show ?thesis by (simp add: lead_def)
  qed (auto simp: json_escape_def unescape_def backslash_def quote_def)
qed

lemma pstr_rune:
  assumes "0x80 \<le> byte c" and "utf8_len (c # cs) = Suc k"
  shows "pstr (Suc m) (json_rune (take (Suc k) (c # cs)) @ t) =
         map_option (apfst ((@) (take (Suc k) (c # cs)))) (pstr m t)"
proof (cases "json_rune (take (Suc k) (c # cs)) = take (Suc k) (c # cs)")
  case True
  have "c \<noteq> quote" and "c \<noteq> backslash" using assms(1) by (auto simp: quote_def backslash_def byte_def)
  moreover have "utf8_len (c # take k cs @ t) = Suc k"
    using utf8_len_take [of "c # cs" t] assms(2) by simp
  moreover have "k \<le> length cs" using utf8_len_le [of "c # cs"] assms(2) by simp
  ultimately show ?thesis using assms(1) True by (simp del: utf8_len.simps)
next
  case False
  then have "take (Suc k) (c # cs) \<in> {line_separator, paragraph_separator}"
    by (auto simp: json_rune_def split: if_splits)
  moreover have "utf8_encode 0x2028 = line_separator" "utf8_encode 0x2029 = paragraph_separator"
    by (simp_all add: utf8_encode_def line_separator_def paragraph_separator_def char_of_def bit_0)
  moreover have "line_separator \<noteq> paragraph_separator"
    by (simp add: line_separator_def paragraph_separator_def)
  ultimately show ?thesis
    using pstr_u_escape [of "0x2028" m t] pstr_u_escape [of "0x2029" m t]
    by (auto simp: json_rune_def simp del: pstr.simps take_Suc_Cons)
qed

lemma pstr_json_body:
  assumes "utf8_valid s" and "length s < n"
  shows "pstr n (json_body s @ quote # t) = Some (s, t)"
  using assms
proof (induction s arbitrary: n rule: json_body.induct)
  case 1
  then show ?case by (cases n) simp_all
next
  case (2 c cs)
  obtain m where n: "n = Suc m" using "2.prems"(2) by (cases n) auto
  show ?case
  proof (cases "byte c < 0x80")
    case True
    with "2.prems" have "utf8_valid cs" by (simp add: lead_def)
    with "2.IH"(1) [OF True] "2.prems" n True show ?thesis
      by (simp add: pstr_escape del: pstr.simps)
  next
    case False
    from "2.prems"(1) obtain k where k: "utf8_len (c # cs) = Suc k"
      by (metis gr0_implies_Suc utf8_valid.simps(2))
    with "2.prems"(1) have v: "utf8_valid (drop k cs)" by (simp del: utf8_len.simps)
    have "k \<le> length cs" using utf8_len_le [of "c # cs"] k by simp
    then have l: "length (drop k cs) < m" using "2.prems"(2) n k by simp
    have "pstr m (json_body (drop k cs) @ quote # t) = Some (drop k cs, t)"
      by (rule "2.IH"(3) [OF False refl, unfolded k diff_Suc_1, OF _ v l]) simp
    with False k n show ?thesis
      using pstr_rune [of c cs k m "json_body (drop k cs) @ quote # t"]
      by (simp add: Let_def del: pstr.simps utf8_len.simps)
  qed
qed

lemma json_body_length: "utf8_valid s \<Longrightarrow> length s \<le> length (json_body s)"
proof (induction s rule: json_body.induct)
  case 1
  then show ?case by simp
next
  case (2 c cs)
  show ?case
  proof (cases "byte c < 0x80")
    case True
    with "2.prems" have "utf8_valid cs" by (simp add: lead_def)
    moreover have "Suc 0 \<le> length (json_escape c)" by (simp add: json_escape_def u_escape_def)
    ultimately show ?thesis using "2.IH"(1) [OF True] True by simp
  next
    case False
    from "2.prems"(1) obtain k where k: "utf8_len (c # cs) = Suc k"
      by (metis gr0_implies_Suc utf8_valid.simps(2))
    with "2.prems"(1) have v: "utf8_valid (drop k cs)" by (simp del: utf8_len.simps)
    have le: "k \<le> length cs" using utf8_len_le [of "c # cs"] k by simp
    have "Suc k \<le> length (json_rune (take (Suc k) (c # cs)))"
      using le by (auto simp: json_rune_def u_escape_def line_separator_def paragraph_separator_def
          dest: arg_cong [of _ _ length])
    with "2.IH"(3) [OF False refl] False k v le show ?thesis
      by (simp add: Let_def del: utf8_len.simps)
  qed
qed

lemma pval_string:
  assumes "utf8_valid s"
  shows "pval (Suc n) d (json_string s @ t) = Some (VStr s, t)"
proof -
  have "pstr (Suc (length (json_body s @ quote # t))) (json_body s @ quote # t) = Some (s, t)"
    using json_body_length [OF assms] by (intro pstr_json_body [OF assms]) simp
  then show ?thesis
    by (simp add: json_string_def skip_ws_def json_space_def quote_def del: pstr.simps)
qed

text \<open>A slice of strings as \<open>json.Marshal\<close> prints it.\<close>

definition marshal_strings :: "string list \<Rightarrow> string" where
  "marshal_strings xs = ''['' @ str_join (map json_string xs) '','' @ '']''"

lemma pelems_strings:
  assumes "xs \<noteq> []" and "\<forall>x \<in> set xs. utf8_valid x" and "length xs < n"
  shows "pelems n d (str_join (map json_string xs) '','' @ '']'' @ t) = Some (map VStr xs, t)"
  using assms
proof (induction xs arbitrary: n)
  case Nil
  then show ?case by simp
next
  case (Cons x xs)
  obtain m where n: "n = Suc (Suc m)" using Cons.prems by (cases n; cases "n - 1") auto
  show ?case
  proof (cases xs)
    case Nil
    with Cons.prems n show ?thesis
      by (simp add: pval_string skip_ws_def json_space_def del: pval.simps)
  next
    case (Cons y ys)
    with Cons.IH [of "Suc m"] Cons.prems n show ?thesis
      by (simp add: pval_string skip_ws_def json_space_def del: pval.simps)
  qed
qed

lemma length_str_join: "length xs \<le> length (str_join (map json_string xs) '','')"
  by (induction xs rule: induct_list012) (simp_all add: json_string_def)

lemma unmarshal_marshal_strings:
  assumes "\<forall>x \<in> set xs. utf8_valid x"
  shows "unmarshal_strings (marshal_strings xs) = Some xs"
proof (cases xs)
  case Nil
  have "unmarshal_strings (marshal_strings []) = Some []" by code_simp
  with Nil show ?thesis by simp
next
  case (Cons x ys)
  let ?body = "str_join (map json_string xs) '','' @ '']''"
  let ?n = "2 * length (marshal_strings xs) + 1"
  have "length xs < ?n"
    using length_str_join [of xs] by (simp add: marshal_strings_def)
  then have el: "pelems ?n 1 ?body = Some (map VStr xs, [])"
    using pelems_strings [of xs ?n 1 "[]"] assms Cons by simp
  have "take 1 (skip_ws ?body) \<noteq> '']''"
    by (cases ys) (simp_all add: Cons json_string_def skip_ws_def json_space_def quote_def)
  with el have "json_decode (marshal_strings xs) = Some (VList (map VStr xs), [])"
    by (simp add: json_decode_def marshal_strings_def skip_ws_def json_space_def max_depth_def)
  then show ?thesis
    by (simp add: unmarshal_strings_def skip_ws_def list_all_iff o_def)
qed

end
