(* ===== verification/Audit_Log.thy ===== *)
theory Audit_Log
  imports Json Bounded_Buffer
begin

text \<open>
  \<open>internal/audit/log.go\<close>: the lifecycle log. An event is one line of NDJSON; the newest
  \<open>maxMemEvents\<close> events are also kept in memory. The file is the text written so far (\<open>None\<close>: no
  file handle). The answers of the operating system are arguments: whether a write succeeds and
  how many bytes a failing one still wrote.
\<close>

record audit_event =
  evTS :: string
  evTaskID :: string
  evVerb :: string
  evTier :: string
  evState :: string
  evArgv :: "string list"
  evExitCode :: "int option"
  evLatencyMS :: int
  evAttempt :: int
  evError :: string

definition maxMemEvents :: nat where
  "maxMemEvents = 1000"

record logger =
  logPath :: string
  logFile :: "string option"
  Mem :: "audit_event list"
  MemOnly :: bool

text \<open>\<open>json.Marshal\<close> of an event, with the omitempty fields of the struct tags.\<close>

definition json_field :: "string \<Rightarrow> string \<Rightarrow> string" where
  "json_field k v = json_string k @ '':'' @ v"

definition marshal_event :: "audit_event \<Rightarrow> string" where
  "marshal_event ev =
     ''{'' @
     str_join
       ([json_field ''ts'' (json_string (evTS ev)),
         json_field ''task_id'' (json_string (evTaskID ev)),
         json_field ''verb'' (json_string (evVerb ev))] @
        (if evTier ev = [] then [] else [json_field ''tier'' (json_string (evTier ev))]) @
        [json_field ''state'' (json_string (evState ev))] @
        (if evArgv ev = [] then [] else [json_field ''argv_redacted'' (marshal_strings (evArgv ev))]) @
        (case evExitCode ev of None \<Rightarrow> [] | Some c \<Rightarrow> [json_field ''exit_code'' (itoa c)]) @
        (if evLatencyMS ev = 0 then [] else [json_field ''latency_ms'' (itoa (evLatencyMS ev))]) @
        (if evAttempt ev = 0 then [] else [json_field ''attempt'' (itoa (evAttempt ev))]) @
        (if evError ev = [] then [] else [json_field ''error'' (json_string (evError ev))])) '','' @
     ''}''"

definition Open_log :: "bool \<Rightarrow> string \<Rightarrow> bool \<Rightarrow> string \<Rightarrow> string \<Rightarrow> logger option" where
  "Open_log mkdirFault dir openFault path existing =
     (if path = [] then Some \<lparr>logPath = path, logFile = None, Mem = [], MemOnly = True\<rparr>
      else if mkdirFault \<and> dir \<noteq> ''.'' then None
      else if openFault then None
      else Some \<lparr>logPath = path, logFile = Some existing, Mem = [], MemOnly = False\<rparr>)"

definition appendMem :: "audit_event \<Rightarrow> logger \<Rightarrow> logger" where
  "appendMem ev l =
     (let m = Mem l @ [ev]
      in if length m > maxMemEvents
         then l\<lparr>Mem := take maxMemEvents (drop (length m - maxMemEvents) m)\<rparr>
         else l\<lparr>Mem := m\<rparr>)"

datatype write_result = Written | WriteFailed nat | SyncFailed

text \<open>
  \<open>Log\<close> on a logger that may be nil: whether it failed, and the logger. \<open>ts\<close> is the formatted
  clock reading.
\<close>

definition Log :: "write_result \<Rightarrow> string \<Rightarrow> audit_event \<Rightarrow> logger option \<Rightarrow> bool \<times> logger option" where
  "Log w ts ev lo =
     (case lo of
        None \<Rightarrow> (False, None)
      | Some l \<Rightarrow>
          (let ev = (if evTS ev = [] then ev\<lparr>evTS := ts\<rparr> else ev);
               l = appendMem ev l
           in if MemOnly l then (False, Some l)
              else
                (let b = marshal_event ev @ [CHR 0x0A]
                 in case logFile l of
                      None \<Rightarrow> (False, Some l)
                    | Some f \<Rightarrow>
                        (case w of
                           Written \<Rightarrow> (False, Some (l\<lparr>logFile := Some (f @ b)\<rparr>))
                         | WriteFailed n \<Rightarrow> (True, Some (l\<lparr>logFile := Some (f @ take n b)\<rparr>))
                         | SyncFailed \<Rightarrow> (True, Some (l\<lparr>logFile := Some (f @ b)\<rparr>))))))"

definition Contains :: "string \<Rightarrow> logger option \<Rightarrow> bool" where
  "Contains sub lo =
     (case lo of
        None \<Rightarrow> False
      | Some l \<Rightarrow> sub \<noteq> [] \<and> list_ex (\<lambda>ev. str_contains (marshal_event ev) sub) (Mem l))"

definition logger_inv :: "logger \<Rightarrow> bool" where
  "logger_inv l \<longleftrightarrow> length (Mem l) \<le> maxMemEvents \<and> (MemOnly l \<longrightarrow> logFile l = None)"

lemma logger_inv_Open [inv_intros]: "Open_log a b c d e = Some l \<Longrightarrow> logger_inv l"
  by (auto simp: Open_log_def logger_inv_def split: if_splits)

lemma Mem_appendMem: "Mem (appendMem ev l) = lastn maxMemEvents (Mem l @ [ev])"
  by (auto simp: appendMem_def lastn_def Let_def not_less)

lemma appendMem_other [simp]:
  "MemOnly (appendMem ev l) = MemOnly l" "logFile (appendMem ev l) = logFile l"
  by (simp_all add: appendMem_def Let_def)

lemma logger_inv_appendMem [inv_intros]: "logger_inv l \<Longrightarrow> logger_inv (appendMem ev l)"
  by (simp add: logger_inv_def Mem_appendMem)

interpretation audit_mem: bounded_buffer appendMem Mem "\<lambda>l. maxMemEvents" logger_inv
  by unfold_locales
    (simp_all add: Mem_appendMem logger_inv_appendMem, simp_all add: maxMemEvents_def logger_inv_def)

lemma Log_inv [inv_intros]:
  "logger_inv l \<Longrightarrow> snd (Log w ts ev (Some l)) = Some l' \<Longrightarrow> logger_inv l'"
  using logger_inv_appendMem [of l]
  by (auto simp: Log_def Let_def logger_inv_def split: if_splits option.splits write_result.splits)

subsection \<open>An event is one line\<close>

definition one_line :: "string \<Rightarrow> bool" where
  "one_line s \<longleftrightarrow> CHR 0x0A \<notin> set s"

lemma one_line_simps [simp]:
  "one_line []"
  "one_line (c # s) \<longleftrightarrow> c \<noteq> CHR 0x0A \<and> one_line s"
  "one_line (s @ t) \<longleftrightarrow> one_line s \<and> one_line t"
  by (auto simp: one_line_def)

lemma newline_byte: "CHR 0x0A = c \<longleftrightarrow> byte c = 10" "c = CHR 0x0A \<longleftrightarrow> byte c = 10"
proof -
  have "byte (CHR 0x0A) = 10" by (simp add: byte_def)
  then show "CHR 0x0A = c \<longleftrightarrow> byte c = 10" "c = CHR 0x0A \<longleftrightarrow> byte c = 10"
    using char_of_byte by metis+
qed

lemma hex_lower_line: "n < 16 \<Longrightarrow> hex_lower n \<noteq> CHR 0x0A"
  by (simp add: newline_byte hex_lower_def)

lemma u_escape_line: "one_line (u_escape n)"
  by (simp add: u_escape_def backslash_def hex_lower_line)

lemma json_escape_line: "one_line (json_escape c)"
  by (simp add: json_escape_def u_escape_line) (auto simp: newline_byte backslash_def quote_def byte_def)

lemma utf8_len_bytes:
  "0x80 \<le> byte c \<Longrightarrow> \<forall>x \<in> set (take (utf8_len (c # cs)) (c # cs)). 0x80 \<le> byte x"
proof -
  assume c: "0x80 \<le> byte c"
  have tail: "tail_ok lo hi t \<Longrightarrow> 0x80 \<le> lo \<Longrightarrow> \<forall>x \<in> set t. 0x80 \<le> byte x" for lo hi t
    by (induction t arbitrary: lo hi) auto
  have "lead (byte c) = Some (k, lo, hi) \<Longrightarrow> 0x80 \<le> lo" for k lo hi
    using c by (auto simp: lead_def split: if_splits)
  with c tail show ?thesis by (auto split: option.splits)
qed

lemma json_rune_line:
  assumes "0x80 \<le> byte c"
  shows "one_line (json_rune (take (utf8_len (c # cs)) (c # cs)))"
  using utf8_len_bytes [OF assms, of cs] u_escape_line
  by (fastforce simp: json_rune_def one_line_def byte_def simp del: utf8_len.simps)

lemma json_body_line: "one_line (json_body s)"
proof (induction s rule: json_body.induct)
  case 1
  then show ?case by simp
next
  case (2 c cs)
  then show ?case
    using json_rune_line [of c cs]
    by (auto simp: Let_def json_escape_line u_escape_line simp del: utf8_len.simps)
qed

lemma json_string_line [simp]: "one_line (json_string s)"
  by (simp add: json_string_def json_body_line quote_def)

lemma nat_digits_line: "one_line (nat_digits n)"
proof (induction n rule: nat_digits.induct)
  case (1 n)
  then show ?case by (subst nat_digits.simps) (simp add: newline_byte)
qed

lemma itoa_line [simp]: "one_line (itoa i)"
  by (simp add: itoa_def nat_digits_line)

lemma str_join_line: "(\<forall>x \<in> set xs. one_line x) \<Longrightarrow> one_line sep \<Longrightarrow> one_line (str_join xs sep)"
  by (induction xs rule: induct_list012) auto

lemma marshal_strings_line [simp]: "one_line (marshal_strings xs)"
  by (simp add: marshal_strings_def str_join_line)

lemma json_field_line [simp]: "one_line (json_field k v) \<longleftrightarrow> one_line v"
  by (simp add: json_field_def)

lemma marshal_event_line: "one_line (marshal_event ev)"
  unfolding marshal_event_def
  by (auto intro!: str_join_line split: option.splits)

subsection \<open>A sequence of events\<close>

text \<open>Logging a list of stamped events on a healthy file.\<close>

definition log_all :: "audit_event list \<Rightarrow> logger \<Rightarrow> logger" where
  "log_all evs l = fold (\<lambda>ev l. the (snd (Log Written [] ev (Some l)))) evs l"

definition stamped :: "audit_event \<Rightarrow> bool" where
  "stamped ev \<longleftrightarrow> evTS ev \<noteq> []"

lemma Log_written:
  "stamped ev \<Longrightarrow> logFile l = Some f \<Longrightarrow> \<not> MemOnly l \<Longrightarrow>
   Log Written ts ev (Some l) =
     (False, Some ((appendMem ev l)\<lparr>logFile := Some (f @ marshal_event ev @ [CHR 0x0A])\<rparr>))"
  by (simp add: Log_def stamped_def)

lemma split_line:
  "one_line s \<Longrightarrow> split_byte (CHR 0x0A) (s @ [CHR 0x0A] @ t) = s # split_byte (CHR 0x0A) t"
  by (induction s) auto

lemma split_lines:
  "\<forall>s \<in> set ls. one_line s \<Longrightarrow>
   split_byte (CHR 0x0A) (concat (map (\<lambda>s. s @ [CHR 0x0A]) ls)) = ls @ [[]]"
  by (induction ls) (simp_all add: split_line [simplified])

lemma appendMem_upd: "appendMem ev (l\<lparr>logFile := x\<rparr>) = (appendMem ev l)\<lparr>logFile := x\<rparr>"
  by (simp add: appendMem_def Let_def)

lemma log_all_file:
  assumes "\<forall>ev \<in> set evs. stamped ev" and "logFile l = Some f" and "\<not> MemOnly l"
  shows "logFile (log_all evs l) =
      Some (f @ concat (map (\<lambda>ev. marshal_event ev @ [CHR 0x0A]) evs)) \<and>
    Mem (log_all evs l) = Mem (audit_mem.push_all evs l)"
  using assms
proof (induction evs arbitrary: l f)
  case Nil
  then show ?case by (simp add: log_all_def audit_mem.push_all_def)
next
  case (Cons ev evs)
  let ?l = "(appendMem ev l)\<lparr>logFile := Some (f @ marshal_event ev @ [CHR 0x0A])\<rparr>"
  have "log_all (ev # evs) l = log_all evs ?l"
    using Cons.prems by (simp add: log_all_def Log_written)
  moreover have "Mem (audit_mem.push_all evs (l\<lparr>logFile := x\<rparr>)) = Mem (audit_mem.push_all evs l)" for l x
    by (induction evs arbitrary: l) (simp_all add: audit_mem.push_all_def appendMem_upd)
  ultimately show ?case
    using Cons.IH [of ?l] Cons.prems by (simp add: audit_mem.push_all_def)
qed

subsection \<open>Properties\<close>

text \<open>
  C33: The audit file is NDJSON and the memory is its tail: after logging any sequence of stamped
  events on an empty healthy file, the file cut at its newlines is exactly the JSON of the events,
  in order, one line each whatever bytes their fields contain, and the memory holds the newest
  1000 events and never more.
\<close>

theorem audit_file_is_ndjson:
  assumes "\<forall>ev \<in> set evs. stamped ev" and "logger_inv l"
    and "logFile l = Some []" and "\<not> MemOnly l" and "Mem l = []"
  shows "map_option (split_byte (CHR 0x0A)) (logFile (log_all evs l)) =
      Some (map marshal_event evs @ [[]]) \<and>
    Mem (log_all evs l) = lastn 1000 evs"
  using log_all_file [OF assms(1,3,4)] split_lines [of "map marshal_event evs"]
    marshal_event_line audit_mem.items_push_all [OF assms(2)] assms(5)
  by (simp add: o_def maxMemEvents_def)

definition sample_event :: audit_event where
  "sample_event = \<lparr>evTS = ''t0'', evTaskID = ''id1'', evVerb = ''torch.set'', evTier = ''A'',
     evState = ''executed'', evArgv = [''termux-torch'', [CHR 0x0A]], evExitCode = Some 0,
     evLatencyMS = 12, evAttempt = 1, evError = []\<rparr>"

theorem audit_file_is_ndjson_witness:
  "map_option (split_byte (CHR 0x0A))
     (logFile (log_all [sample_event] \<lparr>logPath = ''a'', logFile = Some [], Mem = [], MemOnly = False\<rparr>)) =
   Some [marshal_event sample_event, []] \<and> CHR 0x0A \<in> set (concat (evArgv sample_event))"
  using audit_file_is_ndjson
    [of "[sample_event]" "\<lparr>logPath = ''a'', logFile = Some [], Mem = [], MemOnly = False\<rparr>"]
  by (simp add: stamped_def sample_event_def logger_inv_def)

end
