(* ===== verification/Streams.thy ===== *)
theory Streams
  imports Ring Verbs
begin

text \<open>
  \<open>internal/streams/registry.go\<close>: the registry of live watch subscriptions. A stream is its ring
  and what clients see of it; the child process appears through what it makes the code do: lines
  arrive, scanning fails, the process is killed. \<open>Start\<close> takes the registry lock twice, with the
  start of the process between; it is modelled both as one function, and, for the concurrent
  server, as steps that interleave with everything else.
\<close>

definition MaxBufferSize :: int where "MaxBufferSize = 4096"
definition MaxStreams :: nat where "MaxStreams = 16"

record stream =
  stID :: string
  stVerb :: string
  stArgv :: "string list"
  stRing :: ring
  stErr :: bool
  stKilled :: bool

record stream_registry =
  streams :: "stream gomap"
  defaultBuf :: int

datatype stream_error =
    EmptyArgv
  | InvalidBuffer int
  | TooManyStreams
  | SpawnFailed

definition NewStreamRegistry :: "int \<Rightarrow> stream_registry" where
  "NewStreamRegistry def = \<lparr>streams = [], defaultBuf = (if def \<le> 0 then 128 else def)\<rparr>"

text \<open>\<open>asInt\<close>: the numeric kinds convert to int (which wraps), anything else does not count.\<close>

definition asInt :: "goval \<Rightarrow> int option" where
  "asInt v =
     (case v of
        VInt n \<Rightarrow> Some (wrap64 n)
      | VFloat f \<Rightarrow> Some (f64_to_int f)
      | _ \<Rightarrow> None)"

definition buffer_ok :: "int \<Rightarrow> bool" where
  "buffer_ok n \<longleftrightarrow> 0 < n \<and> n \<le> MaxBufferSize"

text \<open>The cases of the type switch: the buffer an override asks for, \<open>None\<close> to keep the default.\<close>

definition watch_buffer :: "watch_any \<Rightarrow> int option" where
  "watch_buffer w =
     (case w of
        WAny (VMap m) \<Rightarrow> (case map_of m ''buffer'' of None \<Rightarrow> None | Some raw \<Rightarrow> asInt raw)
      | WAny _ \<Rightarrow> None
      | WStruct ww \<Rightarrow> if wBuffer ww = 0 then None else Some (wBuffer ww)
      | WPtr None \<Rightarrow> None
      | WPtr (Some ww) \<Rightarrow> if wBuffer ww = 0 then None else Some (wBuffer ww))"

definition resolveBuffer :: "watch_any \<Rightarrow> int \<Rightarrow> stream_error + int" where
  "resolveBuffer w def =
     (if def \<le> 0 \<or> def > MaxBufferSize then Inl (InvalidBuffer def)
      else case watch_buffer w of
        Some n \<Rightarrow> if n \<le> 0 \<or> n > MaxBufferSize then Inl (InvalidBuffer n) else Inr n
      | None \<Rightarrow> Inr def)"

lemma resolveBuffer_Inr:
  "resolveBuffer w def = Inr n \<longleftrightarrow>
   buffer_ok def \<and> buffer_ok n \<and> n = (case watch_buffer w of None \<Rightarrow> def | Some b \<Rightarrow> b)"
  by (auto simp: resolveBuffer_def buffer_ok_def split: option.splits)

subsection \<open>Starting a stream\<close>

text \<open>Up to the first unlock: argument, buffer and capacity checks.\<close>

definition start_check :: "verb \<Rightarrow> string list \<Rightarrow> stream_registry \<Rightarrow> stream_error + int" where
  "start_check v argv r =
     (if argv = [] then Inl EmptyArgv
      else case resolveBuffer (vWatch v) (defaultBuf r) of
        Inl e \<Rightarrow> Inl e
      | Inr bsize \<Rightarrow> if length (streams r) \<ge> MaxStreams then Inl TooManyStreams else Inr bsize)"

definition new_stream :: "string \<Rightarrow> verb \<Rightarrow> string list \<Rightarrow> int \<Rightarrow> stream" where
  "new_stream sid v argv bsize =
     \<lparr>stID = sid, stVerb = vName v, stArgv = argv, stRing = NewRing bsize, stErr = False, stKilled = False\<rparr>"

text \<open>Killing a stream ends its process; the record stays with whoever holds the pointer.\<close>

definition Kill :: "stream \<Rightarrow> stream" where
  "Kill s = s\<lparr>stKilled := True\<rparr>"

text \<open>The second critical section: the capacity check is repeated before the stream is listed.\<close>

definition register :: "stream \<Rightarrow> stream_registry \<Rightarrow> (stream_error + stream) \<times> stream_registry" where
  "register s r =
     (if length (streams r) \<ge> MaxStreams then (Inl TooManyStreams, r)
      else (Inr s, r\<lparr>streams := AList.update (stID s) s (streams r)\<rparr>))"

definition Start ::
  "bool \<Rightarrow> string \<Rightarrow> verb \<Rightarrow> string list \<Rightarrow> stream_registry \<Rightarrow> (stream_error + stream) \<times> stream_registry" where
  "Start spawnFault sid v argv r =
     (case start_check v argv r of
        Inl e \<Rightarrow> (Inl e, r)
      | Inr bsize \<Rightarrow>
          if spawnFault then (Inl SpawnFailed, r)
          else register (new_stream sid v argv bsize) r)"

definition GetStream :: "string \<Rightarrow> stream_registry \<Rightarrow> stream option" where
  "GetStream sid r = map_of (streams r) sid"

text \<open>\<open>Delete\<close>: the stream that was killed (None: not found), and the registry.\<close>

definition DeleteStream :: "string \<Rightarrow> stream_registry \<Rightarrow> stream option \<times> stream_registry" where
  "DeleteStream sid r =
     (case map_of (streams r) sid of
        None \<Rightarrow> (None, r)
      | Some s \<Rightarrow> (Some (Kill s), r\<lparr>streams := AList.delete sid (streams r)\<rparr>))"

definition CountStreams :: "stream_registry \<Rightarrow> nat" where
  "CountStreams r = length (streams r)"

text \<open>\<open>CloseAll\<close>: the ids are snapshot first, then each is deleted.\<close>

definition CloseAll :: "stream_registry \<Rightarrow> stream_registry" where
  "CloseAll r = fold (\<lambda>sid r. snd (DeleteStream sid r)) (map fst (streams r)) r"

subsection \<open>The read loop\<close>

text \<open>
  \<open>bufio.Scanner\<close> with a limit of 1 MiB: the lines of the output, a final unterminated line
  included, a trailing carriage return removed, up to the first line that does not fit.
\<close>

definition max_line :: nat where "max_line = 1048576"

definition drop_cr :: "string \<Rightarrow> string" where
  "drop_cr s = (if s \<noteq> [] \<and> last s = CHR 0x0D then butlast s else s)"

fun scan_fields :: "string list \<Rightarrow> string list \<times> bool" where
  "scan_fields [] = ([], False)"
| "scan_fields [f] =
     (if f = [] then ([], False)
      else if max_line \<le> length f then ([], True)
      else ([drop_cr f], False))"
| "scan_fields (f # g # fs) =
     (if max_line \<le> length f then ([], True)
      else (let (ls, err) = scan_fields (g # fs) in (drop_cr f # ls, err)))"

definition scan_lines :: "string \<Rightarrow> string list \<times> bool" where
  "scan_lines out = scan_fields (split_byte (CHR 0x0A) out)"

text \<open>\<open>readLoop\<close> over the whole output; \<open>stamps\<close> are the formatted clock readings, one per line.\<close>

definition readLoop :: "string list \<Rightarrow> string \<Rightarrow> stream \<Rightarrow> stream" where
  "readLoop stamps out s =
     (let (ls, err) = scan_lines out;
          s = s\<lparr>stRing := feed (zip stamps ls) (stRing s)\<rparr>
      in if err then s\<lparr>stErr := True\<rparr> else s)"

subsection \<open>Invariant\<close>

definition stream_ok :: "stream \<Rightarrow> bool" where
  "stream_ok s \<longleftrightarrow> ring_inv (stRing s) \<and> int (cap (stRing s)) \<le> MaxBufferSize"

definition streams_inv :: "stream_registry \<Rightarrow> bool" where
  "streams_inv r \<longleftrightarrow>
     wf_map (streams r) \<and> length (streams r) \<le> MaxStreams \<and>
     (\<forall>(sid, s) \<in> set (streams r). stID s = sid \<and> stream_ok s)"

lemma set_update_cases: "kv \<in> set (AList.update k v m) \<Longrightarrow> kv = (k, v) \<or> kv \<in> set m"
  by (induction m) (auto split: if_splits)

lemma streams_inv_New [inv_intros]: "streams_inv (NewStreamRegistry def)"
  by (simp add: streams_inv_def NewStreamRegistry_def)

lemma cap_NewRing: "0 < n \<Longrightarrow> int (cap (NewRing n)) = n"
  by (simp add: NewRing_def Let_def)

lemma stream_ok_new: "buffer_ok n \<Longrightarrow> stream_ok (new_stream sid v argv n)"
  by (simp add: stream_ok_def new_stream_def ring_inv_New cap_NewRing buffer_ok_def)

lemma streams_inv_register [inv_intros]:
  assumes "streams_inv r" and "stream_ok s"
  shows "streams_inv (snd (register s r))"
  using assms length_update [of "stID s" s "streams r"]
  by (auto simp: streams_inv_def register_def dest!: set_update_cases)

lemma start_check_buffer: "start_check v argv r = Inr n \<Longrightarrow> buffer_ok n"
  by (auto simp: start_check_def resolveBuffer_Inr split: if_splits sum.splits)

lemma streams_inv_Start [inv_intros]:
  "streams_inv r \<Longrightarrow> streams_inv (snd (Start fault sid v argv r))"
  by (auto simp: Start_def intro!: streams_inv_register stream_ok_new start_check_buffer split: sum.splits)

lemma set_delete_subset: "set (AList.delete k m) \<subseteq> set m"
  by (auto simp: AList.delete_eq)

lemma streams_inv_Delete [inv_intros]:
  assumes "streams_inv r"
  shows "streams_inv (snd (DeleteStream sid r))"
proof -
  have "length (AList.delete sid (streams r)) \<le> MaxStreams"
    using length_delete_le [of sid "streams r"] assms by (simp add: streams_inv_def)
  with assms set_delete_subset [of sid "streams r"] show ?thesis
    by (auto simp: DeleteStream_def streams_inv_def split: option.splits)
qed

lemma delete_all: "fst ` set m \<subseteq> set ks \<Longrightarrow> fold AList.delete ks m = []"
proof (induction ks arbitrary: m)
  case Nil
  then show ?case by simp
next
  case (Cons k ks)
  have "fst ` set (AList.delete k m) \<subseteq> set ks"
    using Cons.prems by (auto simp: AList.delete_eq)
  then show ?case by (simp add: Cons.IH)
qed

lemma streams_Delete: "streams (snd (DeleteStream sid r)) = AList.delete sid (streams r)"
  by (auto simp: DeleteStream_def map_of_None_iff delete_id split: option.splits)

lemma streams_fold_Delete:
  "streams (fold (\<lambda>sid r. snd (DeleteStream sid r)) ids r) = fold AList.delete ids (streams r)"
  by (induction ids arbitrary: r) (simp_all add: streams_Delete)

lemma streams_CloseAll: "streams (CloseAll r) = []"
  by (simp add: CloseAll_def streams_fold_Delete delete_all)

lemma stream_ok_Push: "stream_ok s \<Longrightarrow> stream_ok (s\<lparr>stRing := snd (Push ts line (stRing s))\<rparr>)"
  by (simp add: stream_ok_def ring_inv_Push)

subsection \<open>Concurrent operations\<close>

text \<open>
  Several handlers and the read loops of the streams run at once. \<open>Pending\<close> holds the starts that
  have passed the first check and whose process is being started.
\<close>

record stream_sys =
  Reg :: stream_registry
  Pending :: "stream list"

inductive stream_step :: "stream_sys \<Rightarrow> stream_sys \<Rightarrow> bool" where
  begin_start: "start_check v argv (Reg s) = Inr bsize \<Longrightarrow>
    stream_step s (s\<lparr>Pending := new_stream sid v argv bsize # Pending s\<rparr>)"
| spawn_failed: "Pending s = xs @ st # ys \<Longrightarrow> stream_step s (s\<lparr>Pending := xs @ ys\<rparr>)"
| finish_start: "Pending s = xs @ st # ys \<Longrightarrow>
    stream_step s (s\<lparr>Reg := snd (register st (Reg s)), Pending := xs @ ys\<rparr>)"
| pending_line: "Pending s = xs @ st # ys \<Longrightarrow>
    stream_step s (s\<lparr>Pending := xs @ st\<lparr>stRing := snd (Push ts line (stRing st))\<rparr> # ys\<rparr>)"
| stream_line: "map_of (streams (Reg s)) sid = Some st \<Longrightarrow>
    stream_step s (s\<lparr>Reg := (Reg s)\<lparr>streams :=
      AList.update sid (st\<lparr>stRing := snd (Push ts line (stRing st))\<rparr>) (streams (Reg s))\<rparr>\<rparr>)"
| stream_broken: "map_of (streams (Reg s)) sid = Some st \<Longrightarrow>
    stream_step s (s\<lparr>Reg := (Reg s)\<lparr>streams :=
      AList.update sid (st\<lparr>stErr := True\<rparr>) (streams (Reg s))\<rparr>\<rparr>)"
| delete_stream: "stream_step s (s\<lparr>Reg := snd (DeleteStream sid (Reg s))\<rparr>)"

inductive_cases stream_stepE: "stream_step s s'"

definition sys_inv :: "stream_sys \<Rightarrow> bool" where
  "sys_inv s \<longleftrightarrow> streams_inv (Reg s) \<and> (\<forall>st \<in> set (Pending s). stream_ok st)"

lemma streams_inv_put:
  assumes "streams_inv r" and "map_of (streams r) sid = Some st" and "stream_ok st'" and "stID st' = stID st"
  shows "streams_inv (r\<lparr>streams := AList.update sid st' (streams r)\<rparr>)"
proof -
  have mem: "(sid, st) \<in> set (streams r)" using assms(2) by (rule map_of_SomeD)
  with assms have "stID st' = sid" by (auto simp: streams_inv_def)
  moreover have "sid \<in> fst ` set (streams r)" using mem by force
  ultimately show ?thesis using assms(1,3)
    by (auto simp: streams_inv_def length_update dest!: set_update_cases)
qed

lemma lookup_ok: "streams_inv r \<Longrightarrow> map_of (streams r) sid = Some st \<Longrightarrow> stream_ok st"
  by (auto simp: streams_inv_def dest: map_of_SomeD)

lemma sys_inv_step:
  assumes "stream_step s s'" and "sys_inv s"
  shows "sys_inv s'"
  using assms
proof (induction rule: stream_step.induct)
  case (begin_start v argv s bsize sid)
  then show ?case by (simp add: sys_inv_def stream_ok_new start_check_buffer)
next
  case (stream_line s sid st ts line)
  then have "streams_inv (Reg s)" "stream_ok st" by (auto simp: sys_inv_def dest: lookup_ok)
  with stream_line show ?case
    by (simp add: sys_inv_def streams_inv_put stream_ok_Push)
next
  case (stream_broken s sid st)
  then have "streams_inv (Reg s)" "stream_ok st" by (auto simp: sys_inv_def dest: lookup_ok)
  with stream_broken show ?case
    using streams_inv_put [of "Reg s" sid st "st\<lparr>stErr := True\<rparr>"]
    by (simp add: sys_inv_def stream_ok_def)
qed (auto simp: sys_inv_def streams_inv_register streams_inv_Delete stream_ok_Push)

lemma sys_inv_steps: "stream_step\<^sup>*\<^sup>* s s' \<Longrightarrow> sys_inv s \<Longrightarrow> sys_inv s'"
  by (induction rule: rtranclp_induct) (auto intro: sys_inv_step)

definition empty_sys :: "int \<Rightarrow> stream_sys" where
  "empty_sys def = \<lparr>Reg = NewStreamRegistry def, Pending = []\<rparr>"

lemma sys_inv_empty: "sys_inv (empty_sys def)"
  by (simp add: sys_inv_def empty_sys_def streams_inv_New)

subsection \<open>Properties\<close>

text \<open>
  C29: However concurrent starts, deletions, lines and failures interleave, the registry never
  lists more than 16 streams, every listed stream is found under its own sid, and no stream
  buffers more than 4096 lines. The second capacity check is what makes this hold: many starts
  may pass the first one.
\<close>

theorem streams_bounded:
  assumes "stream_step\<^sup>*\<^sup>* (empty_sys def) s"
  shows "CountStreams (Reg s) \<le> MaxStreams \<and>
    (\<forall>sid st. GetStream sid (Reg s) = Some st \<longrightarrow>
       stID st = sid \<and> int (Len (stRing st)) \<le> MaxBufferSize)"
proof -
  have inv: "streams_inv (Reg s)"
    using sys_inv_steps [OF assms sys_inv_empty] by (simp add: sys_inv_def)
  have "stID st = sid \<and> int (Len (stRing st)) \<le> MaxBufferSize"
    if "GetStream sid (Reg s) = Some st" for sid st
  proof -
    from that have "(sid, st) \<in> set (streams (Reg s))" by (simp add: GetStream_def map_of_SomeD)
    with inv have "stID st = sid" and "stream_ok st" by (auto simp: streams_inv_def)
    then show ?thesis by (auto simp: stream_ok_def ring_inv_def Len_def)
  qed
  with inv show ?thesis by (simp add: streams_inv_def CountStreams_def)
qed

definition sensor_verb :: verb where
  "sensor_verb = \<lparr>vName = ''sensor.stream'', vTier = ''A'', vArgv = [''termux-sensor'', ''-a''],
     vArgs = [], vStdinArg = None, vTimeoutS = 0, vRetries = None, vRetryBackoff = [],
     vCBThreshold = None, vParser = ''json'',
     vWatch = WAny (VMap [(''mode'', VStr ''stream''), (''buffer'', VInt 2)])\<rparr>"

lemma sensor_check:
  "start_check sensor_verb [''termux-sensor''] (NewStreamRegistry 8) = Inr 2"
  by code_simp

theorem streams_bounded_witness:
  "CountStreams (Reg ((empty_sys 8)
     \<lparr>Pending := [new_stream ''s1'' sensor_verb [''termux-sensor''] 2]\<rparr>)) \<le> MaxStreams"
proof -
  have "stream_step\<^sup>*\<^sup>* (empty_sys 8)
      ((empty_sys 8)\<lparr>Pending := [new_stream ''s1'' sensor_verb [''termux-sensor''] 2]\<rparr>)"
    using begin_start [of sensor_verb "[''termux-sensor'']" "empty_sys 8" 2 "''s1''"] sensor_check
    by (auto simp: empty_sys_def)
  from streams_bounded [OF this] show ?thesis by blast
qed

text \<open>
  The buffer of a stream is the \<open>watch.buffer\<close> of its verb when that is a number from 1 to
  4096 and the daemon's default otherwise; any number out of that range is refused, never
  clamped. And shutdown leaves no stream behind.
\<close>

theorem stream_buffer_resolution:
  "(resolveBuffer w def = Inr n \<longleftrightarrow>
      buffer_ok def \<and> buffer_ok n \<and> n = (case watch_buffer w of None \<Rightarrow> def | Some b \<Rightarrow> b)) \<and>
   ((\<exists>e. resolveBuffer w def = Inl e) \<longleftrightarrow>
      \<not> (buffer_ok def \<and> buffer_ok (case watch_buffer w of None \<Rightarrow> def | Some b \<Rightarrow> b))) \<and>
   CountStreams (CloseAll r) = 0"
  by (auto simp: resolveBuffer_Inr CountStreams_def streams_CloseAll resolveBuffer_def buffer_ok_def
      split: option.splits)

text \<open>
  C30: What a subscriber reads back is the child's output: after the read loop of a fresh stream
  has consumed an output without over-long lines, polling from 0 returns the newest lines of that
  output in order, as many as the buffer holds.
\<close>

theorem stream_reads_output:
  assumes "scan_lines out = (ls, False)" and "length stamps = length ls" and "length ls < 2 ^ 64"
    and "buffer_ok bsize"
  shows "map Line (Since 0 (stRing (readLoop stamps out (new_stream sid v argv bsize)))) =
      lastn (nat bsize) ls \<and> \<not> stErr (readLoop stamps out (new_stream sid v argv bsize))"
proof -
  have lines: "map Line (numbered (zip stamps ls)) = ls"
    using assms(2) by (intro nth_equalityI) (simp_all add: numbered_def nth_enumerate_eq)
  have c: "cap (NewRing bsize) = nat bsize" using assms(4) by (simp add: NewRing_def Let_def buffer_ok_def)
  have "Since 0 (feed (zip stamps ls) (NewRing bsize)) =
      filter (\<lambda>ev. Seq ev > word_of_nat 0) (lastn (cap (NewRing bsize)) (numbered (zip stamps ls)))"
    by (simp add: Since_filter contents_feed)
  also have "\<dots> = lastn (nat bsize) (numbered (zip stamps ls))"
    using filter_numbered [of "zip stamps ls" 0 "length ls - nat bsize"] assms(2,3)
    by (simp add: lastn_def c)
  finally have "map Line (Since 0 (feed (zip stamps ls) (NewRing bsize))) =
      lastn (nat bsize) (map Line (numbered (zip stamps ls)))"
    by (simp add: lastn_def drop_map)
  with assms(1) lines show ?thesis by (simp add: readLoop_def new_stream_def)
qed

theorem stream_reads_output_witness:
  "map Line (Since 0 (stRing (readLoop [[], [], []] (''a'' @ [CHR 0x0D, CHR 0x0A] @ ''b'' @ [CHR 0x0A] @ ''c'')
     (new_stream ''s1'' sensor_verb [''termux-sensor''] 2)))) = [''b'', ''c'']"
proof -
  have "scan_lines (''a'' @ [CHR 0x0D, CHR 0x0A] @ ''b'' @ [CHR 0x0A] @ ''c'') =
      ([''a'', ''b'', ''c''], False)"
    by (simp add: scan_lines_def max_line_def drop_cr_def)
  from stream_reads_output [OF this, of "[[], [], []]" 2 "''s1''" sensor_verb "[''termux-sensor'']"]
  show ?thesis by (simp add: buffer_ok_def MaxBufferSize_def lastn_def)
qed

end
