(* ===== verification/Go_Clock.thy ===== *)
theory Go_Clock
  imports Go_Strings Go_Time
begin

text \<open>
  \<open>t.UTC().Format(time.RFC3339Nano)\<close> and its inverse \<open>time.Parse\<close>: how the store keeps instants in
  text columns. The calendar is the proleptic Gregorian one, computed in eras of 400 years that
  start in March. Parsing covers the texts the formatter produces (zone \<open>Z\<close>).
\<close>

definition digit :: "int \<Rightarrow> char" where
  "digit n = char_of (nat (48 + n mod 10))"

definition pad2 :: "int \<Rightarrow> string" where
  "pad2 n = [digit (n div 10), digit n]"

definition pad4 :: "int \<Rightarrow> string" where
  "pad4 n = [digit (n div 1000), digit (n div 100), digit (n div 10), digit n]"

definition pad9 :: "int \<Rightarrow> string" where
  "pad9 n =
     [digit (n div 100000000), digit (n div 10000000), digit (n div 1000000),
      digit (n div 100000), digit (n div 10000), digit (n div 1000), digit (n div 100),
      digit (n div 10), digit n]"

text \<open>Year, month and day of a day number (days since 1 January 1970), and back.\<close>

definition year_of_era :: "int \<Rightarrow> int" where
  "year_of_era doe = (doe - doe div 1460 + doe div 36524 - doe div 146096) div 365"

definition civil :: "int \<Rightarrow> int \<times> int \<times> int" where
  "civil days =
     (let z = days + 719468;
          era = z div 146097;
          doe = z mod 146097;
          yoe = year_of_era doe;
          doy = doe - (365 * yoe + yoe div 4 - yoe div 100);
          mp = (5 * doy + 2) div 153;
          d = doy - (153 * mp + 2) div 5 + 1;
          m = (if mp < 10 then mp + 3 else mp - 9)
      in (yoe + era * 400 + (if m \<le> 2 then 1 else 0), m, d))"

definition days_of_civil :: "int \<Rightarrow> int \<Rightarrow> int \<Rightarrow> int" where
  "days_of_civil y m d =
     (let y' = (if m \<le> 2 then y - 1 else y);
          era = y' div 400;
          yoe = y' mod 400;
          mp = (if m > 2 then m - 3 else m + 9);
          doy = (153 * mp + 2) div 5 + d - 1;
          doe = 365 * yoe + yoe div 4 - yoe div 100 + doy
      in era * 146097 + doe - 719468)"

definition year_text :: "int \<Rightarrow> string" where
  "year_text y =
     (if 0 \<le> y \<and> y < 10000 then pad4 y
      else if y < 0 then CHR ''-'' # (if - y < 10000 then pad4 (- y) else itoa (- y))
      else itoa y)"

definition trim_zeros :: "string \<Rightarrow> string" where
  "trim_zeros s = rev (dropWhile (\<lambda>c. c = CHR ''0'') (rev s))"

definition frac_text :: "int \<Rightarrow> string" where
  "frac_text n = (if n = 0 then [] else CHR ''.'' # trim_zeros (pad9 n))"

definition fmtTime :: "time \<Rightarrow> string" where
  "fmtTime t =
     (let secs = t div 1000000000;
          (y, m, d) = civil (secs div 86400);
          tod = secs mod 86400
      in year_text y @ ''-'' @ pad2 m @ ''-'' @ pad2 d @ ''T'' @
         pad2 (tod div 3600) @ '':'' @ pad2 (tod div 60 mod 60) @ '':'' @ pad2 (tod mod 60) @
         frac_text (t mod 1000000000) @ ''Z'')"

definition num2 :: "string \<Rightarrow> int option" where
  "num2 s = (if length s = 2 then digits_val 0 s else None)"

definition num4 :: "string \<Rightarrow> int option" where
  "num4 s = (if length s = 4 then digits_val 0 s else None)"

text \<open>The fraction: at most nine digits after a dot, padded to nanoseconds.\<close>

definition parse_frac :: "string \<Rightarrow> int option" where
  "parse_frac s =
     (case s of
        [] \<Rightarrow> Some 0
      | c # ds \<Rightarrow>
          if c \<noteq> CHR ''.'' \<or> ds = [] \<or> 9 < length ds then None
          else digits_val 0 (ds @ replicate (9 - length ds) (CHR ''0'')))"

definition slice :: "nat \<Rightarrow> nat \<Rightarrow> string \<Rightarrow> string" where
  "slice i n s = take n (drop i s)"

definition parseTime :: "string \<Rightarrow> time option" where
  "parseTime s =
     (if length s < 20 \<or> last s \<noteq> CHR ''Z'' \<or> slice 4 1 s \<noteq> ''-'' \<or> slice 7 1 s \<noteq> ''-'' \<or>
         slice 10 1 s \<noteq> ''T'' \<or> slice 13 1 s \<noteq> '':'' \<or> slice 16 1 s \<noteq> '':''
      then None
      else
        (case (num4 (slice 0 4 s), num2 (slice 5 2 s), num2 (slice 8 2 s)) of
           (Some y, Some m, Some d) \<Rightarrow>
             (case (num2 (slice 11 2 s), num2 (slice 14 2 s), num2 (slice 17 2 s),
                    parse_frac (butlast (drop 19 s))) of
                (Some hh, Some mm, Some ss, Some ns) \<Rightarrow>
                  if 1 \<le> m \<and> m \<le> 12 \<and> 1 \<le> d \<and> d \<le> 31 \<and> hh < 24 \<and> mm < 60 \<and> ss < 60
                  then Some ((days_of_civil y m d * 86400 + hh * 3600 + mm * 60 + ss) * 1000000000 + ns)
                  else None
              | _ \<Rightarrow> None)
         | _ \<Rightarrow> None))"

text \<open>The instants whose year has four digits.\<close>

definition year_ok :: "time \<Rightarrow> bool" where
  "year_ok t \<longleftrightarrow>
     (let y = fst (civil (t div 1000000000 div 86400)) in 0 \<le> y \<and> y < 10000)"

subsection \<open>The calendar\<close>

lemma year_of_era_bounds:
  assumes "0 \<le> doe" and "doe < 146097"
  shows "0 \<le> year_of_era doe" and "year_of_era doe < 400"
    and "0 \<le> doe - (365 * year_of_era doe + year_of_era doe div 4 - year_of_era doe div 100)"
    and "doe - (365 * year_of_era doe + year_of_era doe div 4 - year_of_era doe div 100) \<le> 365"
proof -
  define a where "a = doe div 1460"
  define b where "b = doe div 36524"
  define c where "c = doe div 146096"
  define y where "y = year_of_era doe"
  define q where "q = y div 4"
  define h where "h = y div 100"
  have a: "1460 * a \<le> doe" "doe \<le> 1460 * a + 1459" unfolding a_def by linarith+
  have b: "36524 * b \<le> doe" "doe \<le> 36524 * b + 36523" unfolding b_def by linarith+
  have c: "146096 * c \<le> doe" "doe \<le> 146096 * c + 146095" unfolding c_def by linarith+
  have y: "365 * y \<le> doe - a + b - c" "doe - a + b - c \<le> 365 * y + 364"
    unfolding y_def year_of_era_def a_def b_def c_def by linarith+
  have q: "4 * q \<le> y" "y \<le> 4 * q + 3" unfolding q_def by linarith+
  have h: "100 * h \<le> y" "y \<le> 100 * h + 99" unfolding h_def by linarith+
  have "b \<in> {0, 1, 2, 3, 4}" "c \<in> {0, 1}" using a b c assms by auto
  have y0: "0 \<le> y" using a b c y assms by linarith
  have "y < 400"
    using \<open>b \<in> _\<close> \<open>c \<in> _\<close> a b c y assms by (elim insertE emptyE; hypsubst; linarith)
  with y0 have y400: "0 \<le> y" "y < 400" by simp_all
  then show "0 \<le> year_of_era doe" "year_of_era doe < 400" by (simp_all add: y_def)
  from y400 h have "h \<in> {0, 1, 2, 3}" by auto
  show "0 \<le> doe - (365 * year_of_era doe + year_of_era doe div 4 - year_of_era doe div 100)"
    using \<open>b \<in> _\<close> \<open>c \<in> _\<close> \<open>h \<in> _\<close> a b c y q h assms
    unfolding y_def [symmetric] q_def [symmetric] h_def [symmetric]
    by (elim insertE emptyE; hypsubst; linarith)
  show "doe - (365 * year_of_era doe + year_of_era doe div 4 - year_of_era doe div 100) \<le> 365"
    using \<open>b \<in> _\<close> \<open>c \<in> _\<close> \<open>h \<in> _\<close> a b c y q h assms
    unfolding y_def [symmetric] q_def [symmetric] h_def [symmetric]
    by (elim insertE emptyE; hypsubst; linarith)
qed

lemma civil_bounds:
  assumes "civil days = (y, m, d)"
  shows "1 \<le> m \<and> m \<le> 12 \<and> 1 \<le> d \<and> d \<le> 31"
proof -
  define doe where "doe = (days + 719468) mod 146097"
  define yoe where "yoe = year_of_era doe"
  define doy where "doy = doe - (365 * yoe + yoe div 4 - yoe div 100)"
  define mp where "mp = (5 * doy + 2) div 153"
  have "0 \<le> doe" "doe < 146097" by (simp_all add: doe_def)
  from year_of_era_bounds(3,4) [OF this] have doy: "0 \<le> doy" "doy \<le> 365"
    by (simp_all add: doy_def yoe_def)
  then have mp: "0 \<le> mp" "mp \<le> 11" unfolding mp_def by linarith+
  have day: "153 * mp \<le> 5 * doy + 2" "5 * doy + 2 \<le> 153 * mp + 152" unfolding mp_def by linarith+
  have "civil days = (yoe + (days + 719468) div 146097 * 400 +
      (if (if mp < 10 then mp + 3 else mp - 9) \<le> 2 then 1 else 0),
      if mp < 10 then mp + 3 else mp - 9, doy - (153 * mp + 2) div 5 + 1)"
    unfolding civil_def Let_def doe_def yoe_def doy_def mp_def by (rule refl)
  then have "d = doy - (153 * mp + 2) div 5 + 1" and "m = (if mp < 10 then mp + 3 else mp - 9)"
    unfolding assms prod.inject by blast+
  moreover have "1 \<le> doy - (153 * mp + 2) div 5 + 1" "doy - (153 * mp + 2) div 5 + 1 \<le> 31"
    using day by linarith+
  ultimately show ?thesis using mp by auto
qed

lemma days_of_civil_civil:
  assumes "civil days = (y, m, d)"
  shows "days_of_civil y m d = days"
proof -
  define era where "era = (days + 719468) div 146097"
  define doe where "doe = (days + 719468) mod 146097"
  define yoe where "yoe = year_of_era doe"
  define doy where "doy = doe - (365 * yoe + yoe div 4 - yoe div 100)"
  define mp where "mp = (5 * doy + 2) div 153"
  have doe: "0 \<le> doe" "doe < 146097" by (simp_all add: doe_def)
  note bounds = year_of_era_bounds [OF doe, folded yoe_def, folded doy_def]
  have mp: "0 \<le> mp" "mp \<le> 11" using bounds unfolding mp_def by linarith+
  have eq: "civil days = (yoe + era * 400 +
      (if (if mp < 10 then mp + 3 else mp - 9) \<le> 2 then 1 else 0),
      if mp < 10 then mp + 3 else mp - 9, doy - (153 * mp + 2) div 5 + 1)"
    unfolding civil_def Let_def era_def doe_def yoe_def doy_def mp_def by (rule refl)
  have m: "m = (if mp < 10 then mp + 3 else mp - 9)" and d: "d = doy - (153 * mp + 2) div 5 + 1"
    using eq unfolding assms prod.inject by blast+
  have y: "y = yoe + era * 400 + (if m \<le> 2 then 1 else 0)"
    using eq unfolding assms prod.inject m by blast
  have y': "(if m \<le> 2 then y - 1 else y) = yoe + era * 400" using y by simp
  have mp': "(if m > 2 then m - 3 else m + 9) = mp" using m mp by auto
  have era': "(yoe + era * 400) div 400 = era" "(yoe + era * 400) mod 400 = yoe"
    using bounds(1,2) by simp_all
  have "days_of_civil y m d = era * 146097 + doe - 719468"
    unfolding days_of_civil_def y' mp' Let_def era' by (simp add: d doy_def)
  also have "\<dots> = days" by (simp add: era_def doe_def)
  finally show ?thesis .
qed

text \<open>Every instant from year 0 to the year 9600 has a text form.\<close>

lemma year_ok_range:
  assumes "0 \<le> t" and "t < 200000000000000000000"
  shows "year_ok t"
proof -
  define days where "days = t div 1000000000 div 86400"
  define doe where "doe = (days + 719468) mod 146097"
  define era where "era = (days + 719468) div 146097"
  have "t div 1000000000 div 86400 = t div 86400000000000"
    using zdiv_zmult2_eq [of 86400 t 1000000000] by simp
  then have "0 \<le> days" "days < 2314815" using assms unfolding days_def by linarith+
  then have era: "0 \<le> era" "era < 23" unfolding era_def by linarith+
  have "0 \<le> doe" "doe < 146097" by (simp_all add: doe_def)
  note b = year_of_era_bounds(1,2) [OF this]
  have "\<exists>b'. 0 \<le> b' \<and> b' \<le> 1 \<and> (z :: int) + (if c then 1 else 0) = z + b'" for z c by (cases c) auto
  then have "\<exists>b'. 0 \<le> b' \<and> b' \<le> 1 \<and> fst (civil days) = year_of_era doe + era * 400 + b'"
    unfolding civil_def Let_def doe_def [symmetric] era_def [symmetric] fst_conv by blast
  then obtain b' where "0 \<le> b'" "b' \<le> 1" and y: "fst (civil days) = year_of_era doe + era * 400 + b'"
    by blast
  with b era have "0 \<le> fst (civil days)" "fst (civil days) < 10000" by linarith+
  then show ?thesis by (simp add: year_ok_def Let_def days_def)
qed

subsection \<open>Digits\<close>

lemma digit_val_digit: "digit_val (digit n) = Some (n mod 10)"
proof -
  have "0 \<le> n mod 10" "n mod 10 < 10" by simp_all
  then have "nat (48 + n mod 10) < 256" by simp
  then show ?thesis by (auto simp: digit_val_def digit_def Let_def nat_less_iff le_nat_iff)
qed

lemma digits_val_append:
  "digits_val a (s @ t) = (case digits_val a s of None \<Rightarrow> None | Some b \<Rightarrow> digits_val b t)"
  by (induction s arbitrary: a) (simp_all split: option.split)

lemma num2_pad2: "0 \<le> n \<Longrightarrow> n < 100 \<Longrightarrow> num2 (pad2 n) = Some n"
  by (simp add: num2_def pad2_def digit_val_digit)

lemma digit_step: "0 < k \<Longrightarrow> 10 * (n div (k * 10)) + n div k mod 10 = n div k" for n k :: int
  by (simp add: zdiv_zmult2_eq)

lemma digit_step1: "10 * (n div 10) + n mod 10 = n" for n :: int
  by simp

lemmas digit_steps = digit_step1 digit_step [of 10, simplified] digit_step [of 100, simplified]
  digit_step [of 1000, simplified] digit_step [of 10000, simplified]
  digit_step [of 100000, simplified] digit_step [of 1000000, simplified]
  digit_step [of 10000000, simplified]

lemma num4_pad4:
  assumes "0 \<le> n" and "n < 10000"
  shows "num4 (pad4 n) = Some n"
proof -
  have top: "n div 1000 mod 10 = n div 1000" using assms by simp
  have "num4 (pad4 n) = Some (10 * (10 * (10 * (10 * 0 + n div 1000 mod 10) + n div 100 mod 10)
      + n div 10 mod 10) + n mod 10)"
    by (simp only: num4_def pad4_def digit_val_digit digits_val.simps list.size option.case) simp
  then show ?thesis by (simp only: top digit_steps mult_zero_right add_0_left)
qed

lemma length_pads [simp]: "length (pad2 n) = 2" "length (pad4 n) = 4" "length (pad9 n) = 9"
  by (simp_all add: pad2_def pad4_def pad9_def)

lemma digits_pad9:
  assumes "0 \<le> n" and "n < 1000000000"
  shows "digits_val 0 (pad9 n) = Some n"
proof -
  have top: "n div 100000000 mod 10 = n div 100000000" using assms by simp
  have "digits_val 0 (pad9 n) =
     Some (10 * (10 * (10 * (10 * (10 * (10 * (10 * (10 * (10 * 0 + n div 100000000 mod 10)
       + n div 10000000 mod 10) + n div 1000000 mod 10) + n div 100000 mod 10)
       + n div 10000 mod 10) + n div 1000 mod 10) + n div 100 mod 10) + n div 10 mod 10) + n mod 10)"
    by (simp only: pad9_def digit_val_digit digits_val.simps option.case)
  then show ?thesis by (simp only: top digit_steps mult_zero_right add_0_left)
qed

lemma trim_zeros_pad: "trim_zeros s @ replicate (length s - length (trim_zeros s)) (CHR ''0'') = s"
proof (induction s rule: rev_induct)
  case Nil
  then show ?case by (simp add: trim_zeros_def)
next
  case (snoc c s)
  show ?case
  proof (cases "c = CHR ''0''")
    case True
    have le: "length (trim_zeros s) \<le> length s"
      using length_dropWhile_le [of "\<lambda>c. c = CHR ''0''" "rev s"] by (simp add: trim_zeros_def)
    have "trim_zeros (s @ [c]) = trim_zeros s" using True by (simp add: trim_zeros_def)
    with snoc le True show ?thesis
      using replicate_append_same [of "length s - length (trim_zeros s)" c]
      by (simp add: Suc_diff_le del: replicate_append_same) (metis append_assoc)
  qed (simp add: trim_zeros_def)
qed

lemma trim_zeros_all: "digits_val 0 s = Some n \<Longrightarrow> n \<noteq> 0 \<Longrightarrow> trim_zeros s \<noteq> []"
proof
  assume "digits_val 0 s = Some n" "n \<noteq> 0" "trim_zeros s = []"
  moreover have "digits_val 0 (replicate k (CHR ''0'')) = Some 0" for k
    by (induction k) (simp_all add: digit_val_def)
  ultimately show False using trim_zeros_pad [of s] by (metis append_Nil option.inject)
qed

lemma parse_frac_text:
  assumes "0 \<le> n" and "n < 1000000000"
  shows "parse_frac (frac_text n) = Some n"
proof (cases "n = 0")
  case False
  have "length (trim_zeros (pad9 n)) \<le> 9"
    using length_dropWhile_le [of "\<lambda>c. c = CHR ''0''" "rev (pad9 n)"] by (simp add: trim_zeros_def)
  moreover have "trim_zeros (pad9 n) \<noteq> []"
    using trim_zeros_all [OF digits_pad9 [OF assms] False] .
  ultimately show ?thesis
    using trim_zeros_pad [of "pad9 n"] digits_pad9 [OF assms] False
    by (simp add: parse_frac_def frac_text_def)
qed (simp add: parse_frac_def frac_text_def)

lemma parseTime_fmtTime:
  assumes "year_ok t"
  shows "parseTime (fmtTime t) = Some t"
proof -
  define secs where "secs = t div 1000000000"
  define ns where "ns = t mod 1000000000"
  define tod where "tod = secs mod 86400"
  obtain y m d where c: "civil (secs div 86400) = (y, m, d)" by (cases "civil (secs div 86400)") auto
  note b = civil_bounds [OF c]
  have y: "0 \<le> y" "y < 10000" using assms c by (simp_all add: year_ok_def secs_def Let_def)
  have tod: "0 \<le> tod" "tod < 86400" by (simp_all add: tod_def)
  have ns: "0 \<le> ns" "ns < 1000000000" by (simp_all add: ns_def)
  define hh where "hh = tod div 3600"
  define mm where "mm = tod div 60 mod 60"
  define ss where "ss = tod mod 60"
  have r: "0 \<le> hh" "hh < 24" "0 \<le> mm" "mm < 60" "0 \<le> ss" "ss < 60"
    using tod unfolding hh_def mm_def ss_def by auto
  have "hh = tod div 60 div 60" using zdiv_zmult2_eq [of 60 tod 60] by (simp add: hh_def)
  then have "60 * hh + mm = tod div 60" by (simp only: mm_def mult_div_mod_eq)
  moreover have "60 * (tod div 60) + ss = tod" by (simp only: ss_def mult_div_mod_eq)
  ultimately have tod_eq: "hh * 3600 + mm * 60 + ss = tod" by simp
  have layout: "fmtTime t = pad4 y @ ''-'' @ pad2 m @ ''-'' @ pad2 d @ ''T'' @ pad2 hh @ '':'' @ pad2 mm @
      '':'' @ pad2 ss @ frac_text ns @ ''Z''"
    unfolding fmtTime_def Let_def hh_def mm_def ss_def tod_def ns_def secs_def [symmetric] c prod.case
    using y by (simp only: year_text_def simp_thms if_True)
  have parse: "num4 (pad4 y) = Some y" "num2 (pad2 m) = Some m" "num2 (pad2 d) = Some d"
    "num2 (pad2 hh) = Some hh" "num2 (pad2 mm) = Some mm" "num2 (pad2 ss) = Some ss"
    using y b r by (simp_all add: num4_pad4 num2_pad2)
  have "parseTime (fmtTime t) = Some ((days_of_civil y m d * 86400 + hh * 3600 + mm * 60 + ss) * 1000000000 + ns)"
    unfolding layout using parse parse_frac_text [OF ns] b r
    by (simp add: parseTime_def slice_def butlast_append)
  also have "(days_of_civil y m d * 86400 + hh * 3600 + mm * 60 + ss) * 1000000000 + ns = t"
    using tod_eq by (simp add: days_of_civil_civil [OF c] add.assoc tod_def)
      (simp add: secs_def ns_def)
  finally show ?thesis .
qed

subsection \<open>Durations\<close>

text \<open>\<open>Duration.String\<close>: hours, minutes and seconds, or a smaller unit below a second.\<close>

definition dur_text :: "duration \<Rightarrow> string" where
  "dur_text d =
     (let u = \<bar>d\<bar>
      in (if d < 0 then ''-'' else []) @
         (if u = 0 then ''0s''
          else if u < 1000 then itoa u @ ''ns''
          else if u < 1000000 then
            itoa (u div 1000) @ frac_text (u mod 1000 * 1000000) @ [CHR 0xC2, CHR 0xB5] @ ''s''
          else if u < 1000000000 then
            itoa (u div 1000000) @ frac_text (u mod 1000000 * 1000) @ ''ms''
          else
            (let secs = u div 1000000000
             in (if 3600 \<le> secs then itoa (secs div 3600) @ ''h'' else []) @
                (if 60 \<le> secs then itoa (secs div 60 mod 60) @ ''m'' else []) @
                itoa (secs mod 60) @ frac_text (u mod 1000000000) @ ''s'')))"

text \<open>\<open>Duration.Milliseconds\<close> truncates towards zero.\<close>

definition milliseconds :: "duration \<Rightarrow> int" where
  "milliseconds d = (if 0 \<le> d then d div 1000000 else - (- d div 1000000))"

lemma dur_text_examples:
  "dur_text 30000000000 = ''30s''" "dur_text 5400000000000 = ''1h30m0s''"
  "dur_text 1500000000 = ''1.5s''" "dur_text 250000000 = ''250ms''"
  by code_simp+

end
