(* ===== verification/Task.thy ===== *)
theory Task
  imports Audit_Log Go_Clock
begin

text \<open>
  \<open>internal/queue/task.go\<close>: the task record, its states, the payload of a create, the idempotency
  record and the Store interface that the API and the worker are written against. The interface
  is a record of operations; what its clients rely on is the locale \<open>task_store\<close>, which the memory
  store and the SQLite store interpret.

  An operation takes an \<open>env\<close>: the clock reading, the fresh ids, the result of a write to the audit
  file, whether the database call fails (\<open>eFault\<close>) and whether the read after its write fails (\<open>eLate\<close>).
\<close>

datatype task_state =
    StateAccepted
  | StatePendingApproval
  | StatePending
  | StateExecuting
  | StateExecuted
  | StateFailed
  | StateTimeout
  | StateDenied
  | StateCanceled
  | StateRetryScheduled
  | StateExhausted

fun state_name :: "task_state \<Rightarrow> string" where
  "state_name StateAccepted = ''accepted''"
| "state_name StatePendingApproval = ''pending_approval''"
| "state_name StatePending = ''pending''"
| "state_name StateExecuting = ''executing''"
| "state_name StateExecuted = ''executed''"
| "state_name StateFailed = ''failed''"
| "state_name StateTimeout = ''timeout''"
| "state_name StateDenied = ''denied''"
| "state_name StateCanceled = ''canceled''"
| "state_name StateRetryScheduled = ''retry_scheduled''"
| "state_name StateExhausted = ''exhausted''"

definition all_states :: "task_state list" where
  "all_states =
     [StateAccepted, StatePendingApproval, StatePending, StateExecuting, StateExecuted, StateFailed,
      StateTimeout, StateDenied, StateCanceled, StateRetryScheduled, StateExhausted]"

definition state_of :: "string \<Rightarrow> task_state option" where
  "state_of s = find (\<lambda>st. state_name st = s) all_states"

lemma state_of_name [simp]: "state_of (state_name st) = Some st"
  by (cases st) (simp_all add: state_of_def all_states_def)

lemma state_name_inj [simp]: "state_name a = state_name b \<longleftrightarrow> a = b"
  by (metis option.inject state_of_name)

lemma state_name_nonempty [simp]: "state_name st \<noteq> []"
  by (cases st) simp_all

text \<open>The states counted against the queue capacity, and the states a task never leaves.\<close>

fun active_state :: "task_state \<Rightarrow> bool" where
  "active_state StatePending = True"
| "active_state StateRetryScheduled = True"
| "active_state StatePendingApproval = True"
| "active_state StateExecuting = True"
| "active_state StateAccepted = True"
| "active_state _ = False"

abbreviation terminal_state :: "task_state \<Rightarrow> bool" where
  "terminal_state s \<equiv> \<not> active_state s"

record task =
  tID :: string
  tVerb :: string
  tArgsJSON :: string
  tArgvJSON :: string
  tArgvRedacted :: "string list"
  tStdinPresent :: bool
  tStdinBlob :: string
  tState :: task_state
  tAttempt :: int
  tMaxRetries :: int
  tNextRunAt :: "time option"
  tLastOutcome :: string
  tExitCode :: "int option"
  tStdout :: string
  tStderr :: string
  tResultJSON :: string
  tResult :: goval
  tError :: string
  tCreatedAt :: time
  tUpdatedAt :: time

record idem_record =
  iKey :: string
  iVerb :: string
  iHash :: string
  iTaskID :: string
  iCreatedAt :: time

record create_input =
  ciVerb :: string
  ciArgsJSON :: string
  ciArgv :: "string list"
  ciArgvRedacted :: "string list"
  ciStdin :: string
  ciMaxRetries :: int

datatype store_error =
    NotFound string
  | RacedDelete string
  | QueueFull
  | KeyClaimed string
  | LogFailed
  | NoRows
  | DBError

record env =
  eNow :: time
  eID :: string
  eRowID :: string
  eWrite :: write_result
  eFault :: bool
  eLate :: bool

subsection \<open>Encoding\<close>

definition encodeArgv :: "string list \<Rightarrow> string" where
  "encodeArgv argv = marshal_strings argv"

text \<open>The error of \<open>json.Unmarshal\<close> is ignored: no arguments then.\<close>

definition decodeArgv :: "string \<Rightarrow> string list" where
  "decodeArgv s =
     (if s = [] then [] else case unmarshal_strings s of Some a \<Rightarrow> a | None \<Rightarrow> [])"

text \<open>\<open>(t *Task) Argv()\<close>\<close>

definition task_argv :: "task \<Rightarrow> string list" where
  "task_argv t = decodeArgv (tArgvJSON t)"

text \<open>\<open>json.Unmarshal\<close> into an \<open>any\<close>: numbers become float64, an overflow is an error.\<close>

primrec floats :: "goval \<Rightarrow> goval option" where
  "floats VNil = Some VNil"
| "floats (VBool b) = Some (VBool b)"
| "floats (VInt i) = Some (VInt i)"
| "floats (VFloat f) = Some (VFloat f)"
| "floats (VNumber s) = map_option VFloat (parse_float s)"
| "floats (VStr s) = Some (VStr s)"
| "floats (VList vs) = map_option VList (all_some (map (floats) vs))"
| "floats (VMap kvs) =
     (let es = map (map_prod id (floats)) kvs
      in map_option (\<lambda>vs. VMap (zip (map fst es) vs)) (all_some (map snd es)))"

definition unmarshal_any :: "string \<Rightarrow> goval option" where
  "unmarshal_any s =
     (case json_decode s of
        None \<Rightarrow> None
      | Some (v, r) \<Rightarrow> if skip_ws r = [] then floats v else None)"

definition cloneTask :: "task \<Rightarrow> task" where
  "cloneTask t =
     (if tResultJSON t \<noteq> [] \<and> tResult t = VNil
      then (case unmarshal_any (tResultJSON t) of
              None \<Rightarrow> t
            | Some v \<Rightarrow> t\<lparr>tResult := v\<rparr>)
      else t)"

text \<open>The task a create inserts.\<close>

definition new_task :: "env \<Rightarrow> create_input \<Rightarrow> task" where
  "new_task e i =
     \<lparr>tID = eID e, tVerb = ciVerb i, tArgsJSON = ciArgsJSON i, tArgvJSON = encodeArgv (ciArgv i),
      tArgvRedacted = ciArgvRedacted i, tStdinPresent = (ciStdin i \<noteq> []), tStdinBlob = ciStdin i,
      tState = StateAccepted, tAttempt = 0, tMaxRetries = ciMaxRetries i, tNextRunAt = None,
      tLastOutcome = [], tExitCode = None, tStdout = [], tStderr = [], tResultJSON = [],
      tResult = VNil, tError = [], tCreatedAt = eNow e, tUpdatedAt = eNow e\<rparr>"

text \<open>\<open>!t.NextRunAt.After(now)\<close>, or no time set.\<close>

definition run_due :: "time \<Rightarrow> task \<Rightarrow> bool" where
  "run_due now t = (case tNextRunAt t of None \<Rightarrow> True | Some n \<Rightarrow> n \<le> now)"

definition due :: "time \<Rightarrow> task \<Rightarrow> bool" where
  "due now t \<longleftrightarrow> tState t = StatePending \<or> tState t = StateRetryScheduled \<and> run_due now t"

subsection \<open>The Store interface\<close>

record 's store_ops =
  sCreate :: "env \<Rightarrow> create_input \<Rightarrow> 's \<Rightarrow> (store_error + task) \<times> 's"
  sGet :: "env \<Rightarrow> string \<Rightarrow> 's \<Rightarrow> task option"
  sList :: "env \<Rightarrow> string \<Rightarrow> 's \<Rightarrow> task list"
  sUpdate :: "env \<Rightarrow> string \<Rightarrow> (task \<Rightarrow> task) \<Rightarrow> 's \<Rightarrow> store_error option \<times> 's"
  sDepth :: "'s \<Rightarrow> nat"
  sClaimDue :: "env \<Rightarrow> time \<Rightarrow> 's \<Rightarrow> (store_error + task option) \<times> 's"
  sRecordAttempt ::
    "env \<Rightarrow> string \<Rightarrow> int \<Rightarrow> time \<Rightarrow> time \<Rightarrow> int option \<Rightarrow> string \<Rightarrow> string \<Rightarrow> 's \<Rightarrow> store_error option \<times> 's"
  sAppendAudit :: "env \<Rightarrow> audit_event \<Rightarrow> 's \<Rightarrow> store_error option \<times> 's"
  sCreateAndAudit :: "env \<Rightarrow> create_input \<Rightarrow> audit_event \<Rightarrow> 's \<Rightarrow> (store_error + task) \<times> 's"
  sCreateAndAuditLimited ::
    "env \<Rightarrow> create_input \<Rightarrow> audit_event \<Rightarrow> int \<Rightarrow> 's \<Rightarrow> (store_error + task) \<times> 's"
  sUpdateAndAudit :: "env \<Rightarrow> string \<Rightarrow> (task \<Rightarrow> task) \<Rightarrow> audit_event \<Rightarrow> 's \<Rightarrow> store_error option \<times> 's"
  sFindIdempotency :: "env \<Rightarrow> string \<Rightarrow> 's \<Rightarrow> store_error + idem_record option"
  sSaveIdempotency :: "env \<Rightarrow> idem_record \<Rightarrow> 's \<Rightarrow> store_error option \<times> 's"
  sDrainOutbox ::
    "env \<Rightarrow> logger option \<Rightarrow> int \<Rightarrow> 's \<Rightarrow> (nat \<times> store_error option) \<times> 's \<times> logger option"

lemma encode_decode_argv:
  "\<forall>x \<in> set argv. utf8_valid x \<Longrightarrow> decodeArgv (encodeArgv argv) = argv"
  using unmarshal_marshal_strings [of argv]
  by (simp add: decodeArgv_def encodeArgv_def marshal_strings_def)

text \<open>
  C36: What the worker executes is what the request expanded to: the argument vector survives its
  storage as JSON, whatever valid UTF-8 text the arguments hold (quotes, control characters,
  markup, line separators).
\<close>

theorem argv_round_trip:
  assumes "\<forall>x \<in> set (ciArgv i). utf8_valid x"
  shows "task_argv (new_task e i) = ciArgv i"
  using encode_decode_argv [OF assms] by (simp add: task_argv_def new_task_def)

definition sample_input :: create_input where
  "sample_input = \<lparr>ciVerb = ''toast.show'', ciArgsJSON = ''{}'',
     ciArgv = [''termux-toast'', [CHR 0x22, CHR 0x5C, CHR ''<'', CHR 0x0A, CHR 0xE2, CHR 0x80, CHR 0xA8, CHR 0xC3, CHR 0xA9]],
     ciArgvRedacted = [''termux-toast'', ''x''], ciStdin = [], ciMaxRetries = 5\<rparr>"

theorem argv_round_trip_witness:
  "\<forall>e. length (task_argv (new_task e sample_input) ! 1) = 9"
proof -
  have "utf8_valid ''termux-toast''" by (simp add: byte_def lead_def)
  moreover have "utf8_valid [CHR 0x22, CHR 0x5C, CHR ''<'', CHR 0x0A, CHR 0xE2, CHR 0x80, CHR 0xA8, CHR 0xC3, CHR 0xA9]"
    by (simp add: byte_def lead_def)
  ultimately have "\<forall>x \<in> set (ciArgv sample_input). utf8_valid x" by (simp add: sample_input_def)
  from argv_round_trip [OF this] show ?thesis by (simp add: sample_input_def)
qed

end
