(* ===== verification/Store.thy ===== *)
theory Store
  imports Task
begin

text \<open>
  The contract of the \<open>Store\<close> interface (\<open>internal/queue/task.go\<close>) as its clients rely on it: the
  worker, the API handlers and the crash-resume code are verified against this locale only. A
  provider shows its tasks through \<open>view\<close> and its idempotency keys through \<open>keys\<close>. Both providers
  keep every field of a task exactly except the ones SQLite re-encodes (the redacted argument
  vector and the parsed result); \<open>core\<close> blanks those.
\<close>

definition core :: "task \<Rightarrow> task" where
  "core t = t\<lparr>tArgvRedacted := [], tResult := VNil, tResultJSON := []\<rparr>"

text \<open>A fault-free call, at an instant that has a text representation.\<close>

definition env_ok :: "env \<Rightarrow> bool" where
  "env_ok e \<longleftrightarrow> eWrite e = Written \<and> \<not> eFault e \<and> \<not> eLate e \<and> year_ok (eNow e)"

text \<open>A task whose times have a text representation.\<close>

definition storable :: "task \<Rightarrow> bool" where
  "storable t \<longleftrightarrow> year_ok (tCreatedAt t) \<and> (\<forall>n. tNextRunAt t = Some n \<longrightarrow> year_ok n)"

text \<open>Changes a client may make to a task: anything but its identity.\<close>

definition fair_update :: "(task \<Rightarrow> task) \<Rightarrow> task \<Rightarrow> bool" where
  "fair_update fn t \<longleftrightarrow>
     tID (fn t) = tID t \<and> tCreatedAt (fn t) = tCreatedAt t \<and> storable (fn t)"

definition active_ids :: "(string \<Rightarrow> task option) \<Rightarrow> string set" where
  "active_ids v = {tid. \<exists>t. v tid = Some t \<and> active_state (tState t)}"

definition same_binding :: "idem_record \<Rightarrow> idem_record \<Rightarrow> bool" where
  "same_binding a b \<longleftrightarrow> iKey a = iKey b \<and> iVerb a = iVerb b \<and> iHash a = iHash b \<and> iTaskID a = iTaskID b"

lemma core_fields [simp]:
  "tID (core t) = tID t" "tVerb (core t) = tVerb t" "tState (core t) = tState t"
  "tAttempt (core t) = tAttempt t" "tMaxRetries (core t) = tMaxRetries t"
  "tNextRunAt (core t) = tNextRunAt t" "tLastOutcome (core t) = tLastOutcome t"
  "tExitCode (core t) = tExitCode t" "tStdout (core t) = tStdout t" "tStderr (core t) = tStderr t"
  "tError (core t) = tError t" "tCreatedAt (core t) = tCreatedAt t" "tUpdatedAt (core t) = tUpdatedAt t"
  "tArgvJSON (core t) = tArgvJSON t" "tStdinBlob (core t) = tStdinBlob t"
  "tArgsJSON (core t) = tArgsJSON t" "tStdinPresent (core t) = tStdinPresent t"
  by (simp_all add: core_def)

lemma core_core [simp]: "core (core t) = core t"
  by (simp add: core_def)

lemma core_eqD:
  assumes "core a = core b"
  shows "tID a = tID b" "tVerb a = tVerb b" "tState a = tState b" "tAttempt a = tAttempt b"
    "tMaxRetries a = tMaxRetries b" "tNextRunAt a = tNextRunAt b" "tLastOutcome a = tLastOutcome b"
    "tExitCode a = tExitCode b" "tStdout a = tStdout b" "tStderr a = tStderr b"
    "tError a = tError b" "tCreatedAt a = tCreatedAt b" "tUpdatedAt a = tUpdatedAt b"
    "tArgvJSON a = tArgvJSON b" "tStdinBlob a = tStdinBlob b"
  using assms by (metis core_fields)+

locale task_store =
  fixes ops :: "'s store_ops"
    and view :: "'s \<Rightarrow> string \<Rightarrow> task option"
    and keys :: "'s \<Rightarrow> string \<Rightarrow> idem_record option"
    and inv :: "'s \<Rightarrow> bool"
  assumes view_id: "inv s \<Longrightarrow> view s tid = Some t \<Longrightarrow> tID t = tid \<and> storable t"
    and view_finite: "inv s \<Longrightarrow> finite {tid. view s tid \<noteq> None}"
    and get: "inv s \<Longrightarrow> env_ok e \<Longrightarrow>
      map_option core (sGet ops e tid s) = map_option core (view s tid)"
    and list_ids: "inv s \<Longrightarrow> env_ok e \<Longrightarrow>
      distinct (map tID (sList ops e st s)) \<and>
      set (map tID (sList ops e st s)) =
        {tid. \<exists>t. view s tid = Some t \<and> (st = [] \<or> state_name (tState t) = st)}"
    and depth: "inv s \<Longrightarrow> sDepth ops s = card (active_ids (view s))"
    and update: "inv s \<Longrightarrow> env_ok e \<Longrightarrow> view s tid = Some t \<Longrightarrow> fair_update fn t \<Longrightarrow>
      \<exists>s' t'. sUpdate ops e tid fn s = (None, s') \<and> inv s' \<and> view s' = (view s)(tid \<mapsto> t') \<and>
        keys s' = keys s \<and> core t' = core ((fn t)\<lparr>tUpdatedAt := eNow e\<rparr>)"
    and update_audit: "inv s \<Longrightarrow> env_ok e \<Longrightarrow> view s tid = Some t \<Longrightarrow> fair_update fn t \<Longrightarrow>
      \<exists>s' t'. sUpdateAndAudit ops e tid fn ev s = (None, s') \<and> inv s' \<and>
        view s' = (view s)(tid \<mapsto> t') \<and> keys s' = keys s \<and>
        core t' = core ((fn t)\<lparr>tUpdatedAt := eNow e\<rparr>)"
    and update_missing: "inv s \<Longrightarrow> view s tid = None \<Longrightarrow>
      snd (sUpdateAndAudit ops e tid fn ev s) = s \<and> fst (sUpdateAndAudit ops e tid fn ev s) \<noteq> None"
    and claim_none: "inv s \<Longrightarrow> env_ok e \<Longrightarrow> sClaimDue ops e now s = (Inr None, s') \<Longrightarrow>
      s' = s \<and> (\<forall>tid t. view s tid = Some t \<longrightarrow> tState t \<noteq> StatePending)"
    and claim_some: "inv s \<Longrightarrow> env_ok e \<Longrightarrow> sClaimDue ops e now s = (Inr (Some c), s') \<Longrightarrow>
      \<exists>t t'. view s (tID c) = Some t \<and>
        (tState t = StatePending \<or> tState t = StateRetryScheduled) \<and>
        inv s' \<and> view s' = (view s)(tID c \<mapsto> t') \<and> keys s' = keys s \<and>
        core t' = core (t\<lparr>tState := StateExecuting, tUpdatedAt := eNow e\<rparr>) \<and> core c = core t'"
    and claim_total: "inv s \<Longrightarrow> env_ok e \<Longrightarrow> \<exists>r s'. sClaimDue ops e now s = (Inr r, s')"
    and record_attempt: "inv s \<Longrightarrow>
      view (snd (sRecordAttempt ops e tid n t0 t1 ec oc msg s)) = view s \<and>
      keys (snd (sRecordAttempt ops e tid n t0 t1 ec oc msg s)) = keys s \<and>
      inv (snd (sRecordAttempt ops e tid n t0 t1 ec oc msg s))"
    and drain: "inv s \<Longrightarrow>
      view (fst (snd (sDrainOutbox ops e log lim s))) = view s \<and>
      keys (fst (snd (sDrainOutbox ops e log lim s))) = keys s \<and>
      inv (fst (snd (sDrainOutbox ops e log lim s)))"
    and append: "inv s \<Longrightarrow>
      view (snd (sAppendAudit ops e ev s)) = view s \<and> keys (snd (sAppendAudit ops e ev s)) = keys s \<and>
      inv (snd (sAppendAudit ops e ev s))"
    and create_full: "inv s \<Longrightarrow> env_ok e \<Longrightarrow> maxDepth \<le> int (sDepth ops s) \<Longrightarrow>
      sCreateAndAuditLimited ops e i ev maxDepth s = (Inl QueueFull, s)"
    and create_room: "inv s \<Longrightarrow> env_ok e \<Longrightarrow> int (sDepth ops s) < maxDepth \<Longrightarrow>
      view s (eID e) = None \<Longrightarrow>
      \<exists>s' t t'. sCreateAndAuditLimited ops e i ev maxDepth s = (Inr t, s') \<and> inv s' \<and>
        view s' = (view s)(eID e \<mapsto> t') \<and> keys s' = keys s \<and>
        core t' = core (new_task e i) \<and> core t = core t'"
    and find_key: "inv s \<Longrightarrow> env_ok e \<Longrightarrow>
      \<exists>r. sFindIdempotency ops e k s = Inr r \<and> rel_option same_binding r (keys s k)"
    and save_key: "inv s \<Longrightarrow> env_ok e \<Longrightarrow> keys s (iKey rec) = None \<Longrightarrow>
      \<exists>s' r. sSaveIdempotency ops e rec s = (None, s') \<and> inv s' \<and> view s' = view s \<and>
        keys s' = (keys s)(iKey rec \<mapsto> r) \<and> same_binding r rec"
    and save_taken: "inv s \<Longrightarrow> env_ok e \<Longrightarrow> keys s (iKey rec) \<noteq> None \<Longrightarrow>
      \<exists>err. sSaveIdempotency ops e rec s = (Some err, s)"
begin

text \<open>Updates seen by a client: the store as a map from ids to tasks up to \<open>core\<close>.\<close>

definition cview :: "'s \<Rightarrow> string \<Rightarrow> task option" where
  "cview s tid = map_option core (view s tid)"

lemma cview_Some: "cview s tid = Some c \<Longrightarrow> \<exists>t. view s tid = Some t \<and> core t = c"
  by (auto simp: cview_def)

lemma view_other: "view s' = (view s)(tid \<mapsto> t) \<Longrightarrow> k \<noteq> tid \<Longrightarrow> view s' k = view s k"
  by simp

lemma finite_active: "inv s \<Longrightarrow> finite (active_ids (view s))"
  by (rule finite_subset [OF _ view_finite]) (auto simp: active_ids_def)

text \<open>The number of active tasks after one task changed.\<close>

lemma active_upd:
  "active_ids ((view s)(tid \<mapsto> t)) =
     (if active_state (tState t) then insert tid (active_ids (view s)) else active_ids (view s) - {tid})"
  by (auto simp: active_ids_def)

lemma depth_keep:
  assumes "inv s" and "inv s'" and "view s' = (view s)(tid \<mapsto> t')" and "view s tid = Some t"
    and "active_state (tState t)"
  shows "sDepth ops s' \<le> sDepth ops s"
proof -
  have "tid \<in> active_ids (view s)" using assms(4,5) by (auto simp: active_ids_def)
  then have "active_ids (view s') \<subseteq> active_ids (view s)"
    using assms(3) active_upd [of s tid t'] by auto
  then show ?thesis using assms(1,2) by (simp add: depth card_mono finite_active)
qed

lemma depth_create:
  assumes "inv s" and "inv s'" and "view s' = (view s)(tid \<mapsto> t')"
  shows "sDepth ops s' \<le> sDepth ops s + 1"
proof -
  have "active_ids (view s') \<subseteq> insert tid (active_ids (view s))"
    using assms(3) active_upd [of s tid t'] by auto
  then have "card (active_ids (view s')) \<le> card (insert tid (active_ids (view s)))"
    using assms(1) by (intro card_mono) (simp_all add: finite_active)
  also have "\<dots> \<le> Suc (card (active_ids (view s)))"
    using assms(1) by (simp add: card_insert_if finite_active)
  finally show ?thesis using assms(1,2) by (simp add: depth)
qed

end

subsection \<open>Stores that fail\<close>

text \<open>
  What a store still promises when a call may fail: an update takes effect as a whole or not at all,
  whatever the call returns. A call that fails without an effect also stands for a process that died
  before it.
\<close>

definition all_or_nothing ::
  "(string \<Rightarrow> task option) \<Rightarrow> (string \<Rightarrow> task option) \<Rightarrow> string \<Rightarrow> (task \<Rightarrow> task) \<Rightarrow> time \<Rightarrow> bool" where
  "all_or_nothing v v' tid fn now \<longleftrightarrow>
     v' = v \<or> (\<exists>t t'. v tid = Some t \<and> v' = v(tid \<mapsto> t') \<and> core t' = core ((fn t)\<lparr>tUpdatedAt := now\<rparr>))"

lemma all_or_nothing_same [simp]: "all_or_nothing v v tid fn now"
  by (simp add: all_or_nothing_def)

locale faulty_store = task_store ops view keys inv
  for ops :: "'s store_ops" and view :: "'s \<Rightarrow> string \<Rightarrow> task option"
    and keys :: "'s \<Rightarrow> string \<Rightarrow> idem_record option" and inv :: "'s \<Rightarrow> bool" +
  assumes list_any: "inv s \<Longrightarrow>
      distinct (map tID (sList ops e st s)) \<and>
      (\<forall>c \<in> set (sList ops e st s). \<exists>t. view s (tID c) = Some t \<and> (st = [] \<or> state_name (tState t) = st))"
    and update_any: "inv s \<Longrightarrow> year_ok (eNow e) \<Longrightarrow> (\<forall>t. view s tid = Some t \<longrightarrow> fair_update fn t) \<Longrightarrow>
      sUpdate ops e tid fn s = (r, s') \<Longrightarrow>
      inv s' \<and> keys s' = keys s \<and> all_or_nothing (view s) (view s') tid fn (eNow e)"
    and update_audit_any: "inv s \<Longrightarrow> year_ok (eNow e) \<Longrightarrow>
      (\<forall>t. view s tid = Some t \<longrightarrow> fair_update fn t) \<Longrightarrow>
      sUpdateAndAudit ops e tid fn ev s = (r, s') \<Longrightarrow>
      inv s' \<and> keys s' = keys s \<and> all_or_nothing (view s) (view s') tid fn (eNow e)"
    and claim_any: "inv s \<Longrightarrow> year_ok (eNow e) \<Longrightarrow> sClaimDue ops e now s = (claimed, s') \<Longrightarrow>
      inv s' \<and> keys s' = keys s \<and>
      (view s' = view s \<and> (\<forall>c. claimed \<noteq> Inr (Some c)) \<or>
       (\<exists>tid t t'. view s tid = Some t \<and> (tState t = StatePending \<or> tState t = StateRetryScheduled) \<and>
          tState t' = StateExecuting \<and> view s' = (view s)(tid \<mapsto> t') \<and>
          (\<forall>c. claimed = Inr (Some c) \<longrightarrow> tID c = tid)))"
    and create_any: "inv s \<Longrightarrow> year_ok (eNow e) \<Longrightarrow> view s (eID e) = None \<Longrightarrow>
      sCreateAndAuditLimited ops e i ev maxDepth s = (made, s') \<Longrightarrow>
      inv s' \<and> keys s' = keys s \<and>
      (view s' = view s \<and> (\<forall>t. made \<noteq> Inr t) \<or>
       int (sDepth ops s) < maxDepth \<and> (\<exists>t'. view s' = (view s)(eID e \<mapsto> t') \<and> tState t' = StateAccepted) \<and>
         (\<forall>t. made = Inr t \<longrightarrow> tID t = eID e))"
    and save_any: "inv s \<Longrightarrow> sSaveIdempotency ops e rec s = (r, s') \<Longrightarrow>
      inv s' \<and> view s' = view s \<and>
      (keys s' = keys s \<or>
       keys s (iKey rec) = None \<and> (\<exists>b. keys s' = (keys s)(iKey rec \<mapsto> b) \<and> same_binding b rec))"

end
