(* ===== verification/Memory_Store.thy ===== *)
theory Memory_Store
  imports Store "HOL-Library.Product_Lexorder"
begin

text \<open>
  \<open>internal/queue/memory.go\<close>: the process-local store. The map of tasks is an association list; the
  loops over it (whose order Go leaves open) are folds, and the results proved do not depend on the
  order. Every operation runs under the mutex, except that \<open>CreateAndAudit\<close> takes it twice.
\<close>

record memory =
  mTasks :: "task gomap"
  mAudit :: "audit_event list"
  mIdem :: "idem_record gomap"
  mLogger :: "logger option"

definition NewMemory :: memory where
  "NewMemory = \<lparr>mTasks = [], mAudit = [], mIdem = [], mLogger = None\<rparr>"

definition SetLogger :: "logger option \<Rightarrow> memory \<Rightarrow> memory" where
  "SetLogger l m = m\<lparr>mLogger := l\<rparr>"

text \<open>The mirror of an event to the logger, outside the lock.\<close>

definition mirror :: "env \<Rightarrow> audit_event \<Rightarrow> memory \<Rightarrow> store_error option \<times> memory" where
  "mirror e ev m =
     (case mLogger m of
        None \<Rightarrow> (None, m)
      | Some l \<Rightarrow>
          (case Log (eWrite e) (fmtTime (eNow e)) ev (Some l) of
             (failed, lo) \<Rightarrow> (if failed then Some LogFailed else None, m\<lparr>mLogger := lo\<rparr>)))"

definition with_task_id :: "audit_event \<Rightarrow> string \<Rightarrow> audit_event" where
  "with_task_id ev tid = (if evTaskID ev = [] then ev\<lparr>evTaskID := tid\<rparr> else ev)"

definition mem_put :: "task \<Rightarrow> memory \<Rightarrow> memory" where
  "mem_put t m = m\<lparr>mTasks := AList.update (tID t) t (mTasks m)\<rparr>"

definition mem_record :: "audit_event \<Rightarrow> memory \<Rightarrow> memory" where
  "mem_record ev m = m\<lparr>mAudit := mAudit m @ [ev]\<rparr>"

definition mem_Create :: "env \<Rightarrow> create_input \<Rightarrow> memory \<Rightarrow> (store_error + task) \<times> memory" where
  "mem_Create e i m = (let t = new_task e i in (Inr (cloneTask t), mem_put t m))"

definition mem_Get :: "env \<Rightarrow> string \<Rightarrow> memory \<Rightarrow> task option" where
  "mem_Get e tid m = map_option cloneTask (map_of (mTasks m) tid)"

definition mem_List :: "env \<Rightarrow> string \<Rightarrow> memory \<Rightarrow> task list" where
  "mem_List e st m =
     sort_key (\<lambda>t. (tCreatedAt t, tID t))
       (map cloneTask (filter (\<lambda>t. st = [] \<or> state_name (tState t) = st) (map snd (mTasks m))))"

definition mem_Update :: "env \<Rightarrow> string \<Rightarrow> (task \<Rightarrow> task) \<Rightarrow> memory \<Rightarrow> store_error option \<times> memory" where
  "mem_Update e tid fn m =
     (case map_of (mTasks m) tid of
        None \<Rightarrow> (Some (NotFound tid), m)
      | Some t \<Rightarrow>
          (None, m\<lparr>mTasks := AList.update tid ((fn t)\<lparr>tUpdatedAt := eNow e\<rparr>) (mTasks m)\<rparr>))"

definition mem_Depth :: "memory \<Rightarrow> nat" where
  "mem_Depth m = fold (\<lambda>t n. if active_state (tState t) then n + 1 else n) (map snd (mTasks m)) 0"

text \<open>The comparison of \<open>ClaimDue\<close>: earlier creation, ties by id.\<close>

definition older :: "task \<Rightarrow> task \<Rightarrow> bool" where
  "older t p \<longleftrightarrow> tCreatedAt t < tCreatedAt p \<or> tCreatedAt t = tCreatedAt p \<and> tID t < tID p"

definition pick_step :: "time \<Rightarrow> task \<Rightarrow> task option \<Rightarrow> task option" where
  "pick_step now t pick =
     (if \<not> due now t then pick
      else case pick of
        None \<Rightarrow> Some t
      | Some p \<Rightarrow> if older t p then Some t else Some p)"

definition pick_due :: "time \<Rightarrow> task list \<Rightarrow> task option" where
  "pick_due now ts = fold (pick_step now) ts None"

definition mem_ClaimDue :: "env \<Rightarrow> time \<Rightarrow> memory \<Rightarrow> (store_error + task option) \<times> memory" where
  "mem_ClaimDue e now m =
     (case pick_due now (map snd (mTasks m)) of
        None \<Rightarrow> (Inr None, m)
      | Some p \<Rightarrow>
          (let p = p\<lparr>tState := StateExecuting, tUpdatedAt := eNow e\<rparr>
           in (Inr (Some (cloneTask p)), mem_put p m)))"

definition mem_RecordAttempt ::
  "env \<Rightarrow> string \<Rightarrow> int \<Rightarrow> time \<Rightarrow> time \<Rightarrow> int option \<Rightarrow> string \<Rightarrow> string \<Rightarrow> memory \<Rightarrow> store_error option \<times> memory" where
  "mem_RecordAttempt e tid n started ended ec outcome errMsg m = (None, m)"

definition mem_AppendAudit :: "env \<Rightarrow> audit_event \<Rightarrow> memory \<Rightarrow> store_error option \<times> memory" where
  "mem_AppendAudit e ev m = mirror e ev (mem_record ev m)"

definition mem_DrainOutbox ::
  "env \<Rightarrow> logger option \<Rightarrow> int \<Rightarrow> memory \<Rightarrow> (nat \<times> store_error option) \<times> memory \<times> logger option" where
  "mem_DrainOutbox e log limit m = ((0, None), m, log)"

definition mem_CreateAndAudit ::
  "env \<Rightarrow> create_input \<Rightarrow> audit_event \<Rightarrow> memory \<Rightarrow> (store_error + task) \<times> memory" where
  "mem_CreateAndAudit e i ev m =
     (case mem_Create e i m of
        (Inl err, m) \<Rightarrow> (Inl err, m)
      | (Inr t, m) \<Rightarrow>
          (let ev = with_task_id ev (tID t)
           in case mirror e ev (mem_record ev m) of
                (Some err, m) \<Rightarrow> (Inl err, m)
              | (None, m) \<Rightarrow> (Inr t, m)))"

definition mem_CreateAndAuditLimited ::
  "env \<Rightarrow> create_input \<Rightarrow> audit_event \<Rightarrow> int \<Rightarrow> memory \<Rightarrow> (store_error + task) \<times> memory" where
  "mem_CreateAndAuditLimited e i ev maxDepth m =
     (let depth = fold (\<lambda>t n. if active_state (tState t) then n + 1 else n) (map snd (mTasks m)) (0::int)
      in if depth \<ge> maxDepth then (Inl QueueFull, m)
         else
           (let t = new_task e i;
                m = mem_put t m;
                ev = with_task_id ev (tID t)
            in case mirror e ev (mem_record ev m) of
                 (Some err, m) \<Rightarrow> (Inl err, m)
               | (None, m) \<Rightarrow> (Inr (cloneTask t), m)))"

definition mem_UpdateAndAudit ::
  "env \<Rightarrow> string \<Rightarrow> (task \<Rightarrow> task) \<Rightarrow> audit_event \<Rightarrow> memory \<Rightarrow> store_error option \<times> memory" where
  "mem_UpdateAndAudit e tid fn ev m =
     (case map_of (mTasks m) tid of
        None \<Rightarrow> (Some (NotFound tid), m)
      | Some t \<Rightarrow>
          (let m = m\<lparr>mTasks := AList.update tid ((fn t)\<lparr>tUpdatedAt := eNow e\<rparr>) (mTasks m)\<rparr>;
               ev = with_task_id ev tid
           in mirror e ev (mem_record ev m)))"

definition mem_FindIdempotency :: "env \<Rightarrow> string \<Rightarrow> memory \<Rightarrow> store_error + idem_record option" where
  "mem_FindIdempotency e key m = Inr (map_of (mIdem m) key)"

definition mem_SaveIdempotency :: "env \<Rightarrow> idem_record \<Rightarrow> memory \<Rightarrow> store_error option \<times> memory" where
  "mem_SaveIdempotency e rec m =
     (if map_of (mIdem m) (iKey rec) \<noteq> None then (Some (KeyClaimed (iKey rec)), m)
      else
        (let rec = (if iCreatedAt rec = zero_time then rec\<lparr>iCreatedAt := eNow e\<rparr> else rec)
         in (None, m\<lparr>mIdem := AList.update (iKey rec) rec (mIdem m)\<rparr>)))"

definition memory_ops :: "memory store_ops" where
  "memory_ops =
     \<lparr>sCreate = mem_Create, sGet = mem_Get, sList = mem_List, sUpdate = mem_Update,
      sDepth = mem_Depth, sClaimDue = mem_ClaimDue, sRecordAttempt = mem_RecordAttempt,
      sAppendAudit = mem_AppendAudit, sCreateAndAudit = mem_CreateAndAudit,
      sCreateAndAuditLimited = mem_CreateAndAuditLimited, sUpdateAndAudit = mem_UpdateAndAudit,
      sFindIdempotency = mem_FindIdempotency, sSaveIdempotency = mem_SaveIdempotency,
      sDrainOutbox = mem_DrainOutbox\<rparr>"

subsection \<open>Facts about the operations\<close>

definition mem_view :: "memory \<Rightarrow> string \<Rightarrow> task option" where
  "mem_view m = map_of (mTasks m)"

lemma Depth_count: "mem_Depth m = count_vals (\<lambda>t. active_state (tState t)) (mTasks m)"
proof -
  have "fold (\<lambda>t n. if active_state (tState t) then n + 1 else n) ts k =
      k + length (filter (\<lambda>t. active_state (tState t)) ts)" for ts :: "task list" and k :: nat
    by (induction ts arbitrary: k) auto
  then show ?thesis by (simp only: mem_Depth_def count_vals_def add_0)
qed

lemma depth_int:
  "fold (\<lambda>t n. if active_state (tState t) then n + 1 else n) (map snd (mTasks m)) (0::int) = int (mem_Depth m)"
proof -
  have "fold (\<lambda>t n. if active_state (tState t) then n + 1 else n) ts k =
      k + int (length (filter (\<lambda>t. active_state (tState t)) ts))" for ts :: "task list" and k :: int
    by (induction ts arbitrary: k) auto
  then show ?thesis by (simp only: Depth_count count_vals_def add_0)
qed

lemma mirror_tasks [simp]:
  "mTasks (snd (mirror e ev m)) = mTasks m" "mIdem (snd (mirror e ev m)) = mIdem m"
  "mAudit (snd (mirror e ev m)) = mAudit m"
  by (simp_all add: mirror_def split: option.splits prod.splits)

lemma mem_record_simps [simp]:
  "mTasks (mem_record ev m) = mTasks m" "mIdem (mem_record ev m) = mIdem m"
  "mAudit (mem_record ev m) = mAudit m @ [ev]"
  by (simp_all add: mem_record_def)

lemma mem_put_simps [simp]:
  "mTasks (mem_put t m) = AList.update (tID t) t (mTasks m)" "mIdem (mem_put t m) = mIdem m"
  "mAudit (mem_put t m) = mAudit m"
  by (simp_all add: mem_put_def)

lemma cloneTask_fields [simp]:
  "tID (cloneTask t) = tID t" "tState (cloneTask t) = tState t" "tAttempt (cloneTask t) = tAttempt t"
  "tVerb (cloneTask t) = tVerb t" "tMaxRetries (cloneTask t) = tMaxRetries t"
  "tNextRunAt (cloneTask t) = tNextRunAt t" "tCreatedAt (cloneTask t) = tCreatedAt t"
  "tArgvJSON (cloneTask t) = tArgvJSON t" "tArgvRedacted (cloneTask t) = tArgvRedacted t"
  "tStdinBlob (cloneTask t) = tStdinBlob t" "tStdinPresent (cloneTask t) = tStdinPresent t"
  "tError (cloneTask t) = tError t" "tStdout (cloneTask t) = tStdout t"
  "tStderr (cloneTask t) = tStderr t" "tExitCode (cloneTask t) = tExitCode t"
  "tLastOutcome (cloneTask t) = tLastOutcome t"
  by (simp_all add: cloneTask_def split: option.split)

lemma older_trans: "older a b \<Longrightarrow> older b c \<Longrightarrow> older a c"
  by (auto simp: older_def)

lemma older_total: "tID a \<noteq> tID b \<Longrightarrow> \<not> older a b \<Longrightarrow> older b a"
  by (auto simp: older_def)

text \<open>The scan finds the oldest due task, whatever the order of the map.\<close>

lemma older_irrefl [simp]: "\<not> older t t"
  by (simp add: older_def)

lemma pick_due_snoc: "pick_due now (ts @ [t]) = pick_step now t (pick_due now ts)"
  by (simp add: pick_due_def)

lemma pick_due_spec:
  "case pick_due now ts of
     None \<Rightarrow> \<forall>t \<in> set ts. \<not> due now t
   | Some p \<Rightarrow> p \<in> set ts \<and> due now p \<and> (\<forall>t \<in> set ts. due now t \<longrightarrow> \<not> older t p)"
proof (induction ts rule: rev_induct)
  case Nil
  then show ?case by (simp add: pick_due_def)
next
  case (snoc t ts)
  show ?case
  proof (cases "pick_due now ts")
    case None
    with snoc show ?thesis by (auto simp: pick_due_snoc pick_step_def)
  next
    case (Some p)
    with snoc have p: "p \<in> set ts" "due now p" "\<forall>u \<in> set ts. due now u \<longrightarrow> \<not> older u p" by simp_all
    then have "older t p \<Longrightarrow> \<forall>u \<in> set ts. due now u \<longrightarrow> \<not> older u t"
      using older_trans by blast
    with p Some show ?thesis by (simp add: pick_due_snoc pick_step_def)
  qed
qed

lemma pick_due_None: "pick_due now ts = None \<longleftrightarrow> (\<forall>t \<in> set ts. \<not> due now t)"
  using pick_due_spec [where now = now and ts = ts] by (cases "pick_due now ts") auto

lemma pick_due_Some:
  "pick_due now ts = Some p \<Longrightarrow>
   p \<in> set ts \<and> due now p \<and> (\<forall>t \<in> set ts. due now t \<longrightarrow> \<not> older t p)"
  using pick_due_spec [where now = now and ts = ts] by simp

subsection \<open>The memory store provides the Store contract\<close>

definition mem_keys :: "memory \<Rightarrow> string \<Rightarrow> idem_record option" where
  "mem_keys m = map_of (mIdem m)"

definition mem_ok :: "memory \<Rightarrow> bool" where
  "mem_ok m \<longleftrightarrow>
     wf_map (mTasks m) \<and> (\<forall>(k, t) \<in> set (mTasks m). tID t = k \<and> storable t) \<and>
     wf_map (mIdem m) \<and> (\<forall>(k, r) \<in> set (mIdem m). iKey r = k)"

lemma mem_ok_New [inv_intros]: "mem_ok NewMemory"
  by (simp add: mem_ok_def NewMemory_def)

lemma mem_ok_mirror [simp]: "mem_ok (snd (mirror e ev m)) = mem_ok m"
  by (simp add: mem_ok_def)

lemma mem_ok_record [simp]: "mem_ok (mem_record ev m) = mem_ok m"
  by (simp add: mem_ok_def)

lemma set_update_keys: "kv \<in> set (AList.update k v m) \<Longrightarrow> kv = (k, v) \<or> kv \<in> set m"
  by (induction m) (auto split: if_splits)

lemma mem_ok_update [inv_intros]:
  assumes "mem_ok m" and "tID t = tid" and "storable t"
  shows "mem_ok (m\<lparr>mTasks := AList.update tid t (mTasks m)\<rparr>)"
  using assms by (auto simp: mem_ok_def dest!: set_update_keys)

lemma mem_ok_put [inv_intros]: "mem_ok m \<Longrightarrow> storable t \<Longrightarrow> mem_ok (mem_put t m)"
  by (simp add: mem_put_def mem_ok_update)

lemma mem_view_put [simp]: "mem_view (mem_put t m) = (mem_view m)(tID t \<mapsto> t)"
  by (simp add: mem_view_def)

lemma mem_lookup: "mem_ok m \<Longrightarrow> mem_view m tid = Some t \<Longrightarrow> tID t = tid \<and> storable t"
  by (auto simp: mem_ok_def mem_view_def dest!: map_of_SomeD)

lemma mirror_ok: "env_ok e \<Longrightarrow> fst (mirror e ev m) = None"
  by (auto simp: mirror_def Log_def env_ok_def Let_def split: option.splits)

lemma mem_view_iff: "mem_ok m \<Longrightarrow> mem_view m tid = Some t \<longleftrightarrow> t \<in> snd ` set (mTasks m) \<and> tID t = tid"
  by (force simp: mem_view_def mem_ok_def wf_map_of_iff)

lemma storable_touch [simp]:
  "storable (t\<lparr>tUpdatedAt := u\<rparr>) = storable t" "storable (t\<lparr>tState := st\<rparr>) = storable t"
  by (simp_all add: storable_def)

lemma storable_new: "env_ok e \<Longrightarrow> storable (new_task e i)"
  by (simp add: storable_def new_task_def env_ok_def)

lemma core_clone [simp]: "core (cloneTask t) = core t"
  by (simp add: cloneTask_def core_def split: option.split)

lemma mem_list_ids:
  assumes "mem_ok m"
  shows "distinct (map tID (mem_List e st m)) \<and>
    set (map tID (mem_List e st m)) =
      {tid. \<exists>t. mem_view m tid = Some t \<and> (st = [] \<or> state_name (tState t) = st)}"
proof
  have ids: "map tID (map snd (mTasks m)) = map fst (mTasks m)"
    using assms by (auto simp: mem_ok_def)
  have "distinct (map tID (map snd (mTasks m)))"
    unfolding ids using assms by (simp add: mem_ok_def wf_map_def)
  then have dist: "distinct (map tID (filter P (map snd (mTasks m))))" for P
    by (rule distinct_map_filter)
  define ys where "ys = filter (\<lambda>t. st = [] \<or> state_name (tState t) = st) (map snd (mTasks m))"
  have "map tID (map cloneTask ys) = map tID ys" by simp
  then have "distinct (map tID (map cloneTask ys))" unfolding ys_def by (simp only: dist)
  then show "distinct (map tID (mem_List e st m))"
    unfolding mem_List_def ys_def [symmetric] distinct_map [of tID] distinct_sort set_sort .
  have "set (map tID (mem_List e st m)) = tID ` set ys"
    by (simp add: mem_List_def ys_def [symmetric] image_image)
  also have "\<dots> = {tid. \<exists>t. mem_view m tid = Some t \<and> (st = [] \<or> state_name (tState t) = st)}"
    by (auto simp: ys_def mem_view_iff [OF assms])
  finally show "set (map tID (mem_List e st m)) =
      {tid. \<exists>t. mem_view m tid = Some t \<and> (st = [] \<or> state_name (tState t) = st)}" .
qed

lemma mem_depth:
  assumes "mem_ok m"
  shows "mem_Depth m = card (active_ids (mem_view m))"
proof -
  let ?act = "filter (\<lambda>t. active_state (tState t)) (map snd (mTasks m))"
  have ids: "map tID (map snd (mTasks m)) = map fst (mTasks m)"
    using assms by (auto simp: mem_ok_def)
  have "distinct (map tID (map snd (mTasks m)))"
    unfolding ids using assms by (simp add: mem_ok_def wf_map_def)
  then have "distinct (map tID ?act)" by (rule distinct_map_filter)
  then have "length ?act = card (set (map tID ?act))" by (metis distinct_card length_map)
  moreover have "set (map tID ?act) = active_ids (mem_view m)"
    using mem_view_iff [OF assms] by (force simp: active_ids_def)
  ultimately show ?thesis by (simp add: Depth_count count_vals_def)
qed

lemma mem_claim_some:
  assumes "mem_ok m" and "mem_ClaimDue e now m = (Inr (Some c), m')"
  shows "\<exists>p. mem_view m (tID c) = Some p \<and> due now p \<and>
    (\<forall>tid t. mem_view m tid = Some t \<and> due now t \<longrightarrow> \<not> older t p) \<and>
    c = cloneTask (p\<lparr>tState := StateExecuting, tUpdatedAt := eNow e\<rparr>) \<and>
    m' = mem_put (p\<lparr>tState := StateExecuting, tUpdatedAt := eNow e\<rparr>) m"
proof -
  from assms(2) obtain p where p: "pick_due now (map snd (mTasks m)) = Some p"
    and c: "c = cloneTask (p\<lparr>tState := StateExecuting, tUpdatedAt := eNow e\<rparr>)"
    and m': "m' = mem_put (p\<lparr>tState := StateExecuting, tUpdatedAt := eNow e\<rparr>) m"
    by (auto simp: mem_ClaimDue_def Let_def split: option.splits)
  from pick_due_Some [OF p] have "p \<in> snd ` set (mTasks m)" "due now p"
    "\<forall>t \<in> snd ` set (mTasks m). due now t \<longrightarrow> \<not> older t p" by auto
  with mem_view_iff [OF assms(1)] c m' show ?thesis by auto
qed

lemma mem_claim_none:
  "mem_ok m \<Longrightarrow> mem_ClaimDue e now m = (Inr None, m') \<Longrightarrow>
   m' = m \<and> (\<forall>tid t. mem_view m tid = Some t \<longrightarrow> \<not> due now t)"
  using mem_view_iff [of m]
  by (auto simp: mem_ClaimDue_def pick_due_None Let_def split: option.splits)

lemma memory_ops_simps [simp]:
  "sCreate memory_ops = mem_Create" "sGet memory_ops = mem_Get" "sList memory_ops = mem_List"
  "sUpdate memory_ops = mem_Update" "sDepth memory_ops = mem_Depth"
  "sClaimDue memory_ops = mem_ClaimDue" "sRecordAttempt memory_ops = mem_RecordAttempt"
  "sAppendAudit memory_ops = mem_AppendAudit" "sCreateAndAudit memory_ops = mem_CreateAndAudit"
  "sCreateAndAuditLimited memory_ops = mem_CreateAndAuditLimited"
  "sUpdateAndAudit memory_ops = mem_UpdateAndAudit"
  "sFindIdempotency memory_ops = mem_FindIdempotency"
  "sSaveIdempotency memory_ops = mem_SaveIdempotency" "sDrainOutbox memory_ops = mem_DrainOutbox"
  by (simp_all add: memory_ops_def)

interpretation mem: task_store memory_ops mem_view mem_keys mem_ok
proof
  fix s :: memory and e tid t assume "mem_ok s"
  then show "mem_view s tid = Some t \<Longrightarrow> tID t = tid \<and> storable t" by (rule mem_lookup)
  show "finite {tid. mem_view s tid \<noteq> None}"
    unfolding mem_view_def using finite_dom_map_of [of "mTasks s"] by (simp add: dom_def)
  show "map_option core (sGet memory_ops e tid s) = map_option core (mem_view s tid)"
    by (simp add: mem_Get_def mem_view_def option.map_comp o_def)
next
  fix s :: memory and e st assume "mem_ok s"
  then show "distinct (map tID (sList memory_ops e st s)) \<and>
      set (map tID (sList memory_ops e st s)) =
        {tid. \<exists>t. mem_view s tid = Some t \<and> (st = [] \<or> state_name (tState t) = st)}"
    using mem_list_ids by (simp add: memory_ops_def)
next
  fix s :: memory assume "mem_ok s"
  then show "sDepth memory_ops s = card (active_ids (mem_view s))"
    by (simp add: mem_depth)
next
  fix s :: memory and e tid t fn
  assume a: "mem_ok s" "env_ok e" "mem_view s tid = Some t" "fair_update fn t"
  let ?t = "(fn t)\<lparr>tUpdatedAt := eNow e\<rparr>"
  let ?s = "s\<lparr>mTasks := AList.update tid ?t (mTasks s)\<rparr>"
  have ok: "mem_ok ?s" using a mem_lookup [OF a(1,3)] by (auto simp: fair_update_def intro!: mem_ok_update)
  have v: "mem_view ?s = (mem_view s)(tid \<mapsto> ?t)" "mem_keys ?s = mem_keys s"
    by (simp_all add: mem_view_def mem_keys_def)
  have up: "sUpdate memory_ops e tid fn s = (None, ?s)"
    using a(3) by (simp add: mem_Update_def mem_view_def)
  show "\<exists>s' t'. sUpdate memory_ops e tid fn s = (None, s') \<and> mem_ok s' \<and>
      mem_view s' = (mem_view s)(tid \<mapsto> t') \<and> mem_keys s' = mem_keys s \<and> core t' = core ?t"
    using ok v up by blast
  fix ev
  let ?r = "mirror e (with_task_id ev tid) (mem_record (with_task_id ev tid) ?s)"
  have "sUpdateAndAudit memory_ops e tid fn ev s = ?r"
    using a(3) by (simp add: mem_UpdateAndAudit_def mem_view_def Let_def)
  moreover have "?r = (None, snd ?r)" using mirror_ok [OF a(2)] by (metis prod.collapse)
  moreover have "mem_view (snd ?r) = (mem_view s)(tid \<mapsto> ?t)" "mem_keys (snd ?r) = mem_keys s"
    by (simp_all add: mem_view_def mem_keys_def)
  ultimately show "\<exists>s' t'. sUpdateAndAudit memory_ops e tid fn ev s = (None, s') \<and> mem_ok s' \<and>
      mem_view s' = (mem_view s)(tid \<mapsto> t') \<and> mem_keys s' = mem_keys s \<and> core t' = core ?t"
    using ok by (metis mem_ok_mirror mem_ok_record)
next
  fix s :: memory and e tid fn ev assume "mem_view s tid = None"
  then show "snd (sUpdateAndAudit memory_ops e tid fn ev s) = s \<and>
      fst (sUpdateAndAudit memory_ops e tid fn ev s) \<noteq> None"
    by (simp add: mem_UpdateAndAudit_def mem_view_def)
next
  fix s s' :: memory and e now
  assume "mem_ok s" "sClaimDue memory_ops e now s = (Inr None, s')"
  then show "s' = s \<and> (\<forall>tid t. mem_view s tid = Some t \<longrightarrow> tState t \<noteq> StatePending)"
    using mem_claim_none by (fastforce simp: due_def)
next
  fix s s' :: memory and e now c
  assume a: "mem_ok s" "env_ok e" "sClaimDue memory_ops e now s = (Inr (Some c), s')"
  then have "mem_ClaimDue e now s = (Inr (Some c), s')" by simp
  from mem_claim_some [OF a(1) this] obtain p where p: "mem_view s (tID c) = Some p" "due now p"
      "c = cloneTask (p\<lparr>tState := StateExecuting, tUpdatedAt := eNow e\<rparr>)"
      "s' = mem_put (p\<lparr>tState := StateExecuting, tUpdatedAt := eNow e\<rparr>) s"
    by blast
  from p(1) mem_lookup [OF a(1)] have "tID p = tID c" "storable p" by blast+
  let ?t = "p\<lparr>tState := StateExecuting, tUpdatedAt := eNow e\<rparr>"
  have "tState p = StatePending \<or> tState p = StateRetryScheduled" using p(2) by (auto simp: due_def)
  moreover have "mem_ok s'" unfolding p(4) using a(1) \<open>storable p\<close> by (simp add: mem_ok_put)
  moreover have "mem_view s' = (mem_view s)(tID c \<mapsto> ?t)" "mem_keys s' = mem_keys s"
    unfolding p(4) using \<open>tID p = tID c\<close> by (simp_all add: mem_keys_def)
  moreover have "core c = core ?t" using p(3) core_clone by metis
  ultimately show "\<exists>t t'. mem_view s (tID c) = Some t \<and>
      (tState t = StatePending \<or> tState t = StateRetryScheduled) \<and> mem_ok s' \<and>
      mem_view s' = (mem_view s)(tID c \<mapsto> t') \<and> mem_keys s' = mem_keys s \<and>
      core t' = core (t\<lparr>tState := StateExecuting, tUpdatedAt := eNow e\<rparr>) \<and> core c = core t'"
    using p(1) by blast
next
  fix s :: memory and e now
  show "\<exists>r s'. sClaimDue memory_ops e now s = (Inr r, s')"
    by (cases "pick_due now (map snd (mTasks s))") (auto simp: mem_ClaimDue_def Let_def)
next
  fix s :: memory and e tid n t0 t1 ec oc msg log lim ev assume "mem_ok s"
  then show "mem_view (snd (sRecordAttempt memory_ops e tid n t0 t1 ec oc msg s)) = mem_view s \<and>
      mem_keys (snd (sRecordAttempt memory_ops e tid n t0 t1 ec oc msg s)) = mem_keys s \<and>
      mem_ok (snd (sRecordAttempt memory_ops e tid n t0 t1 ec oc msg s))"
    and "mem_view (fst (snd (sDrainOutbox memory_ops e log lim s))) = mem_view s \<and>
      mem_keys (fst (snd (sDrainOutbox memory_ops e log lim s))) = mem_keys s \<and>
      mem_ok (fst (snd (sDrainOutbox memory_ops e log lim s)))"
    and "mem_view (snd (sAppendAudit memory_ops e ev s)) = mem_view s \<and>
      mem_keys (snd (sAppendAudit memory_ops e ev s)) = mem_keys s \<and>
      mem_ok (snd (sAppendAudit memory_ops e ev s))"
    by (simp_all add: mem_RecordAttempt_def mem_DrainOutbox_def mem_AppendAudit_def
        mem_view_def mem_keys_def)
next
  fix s :: memory and e i ev maxDepth assume "maxDepth \<le> int (sDepth memory_ops s)"
  then show "sCreateAndAuditLimited memory_ops e i ev maxDepth s = (Inl QueueFull, s)"
    by (simp add: mem_CreateAndAuditLimited_def depth_int)
next
  fix s :: memory and e i ev maxDepth
  assume a: "mem_ok s" "env_ok e" "int (sDepth memory_ops s) < maxDepth"
  let ?t = "new_task e i"
  let ?r = "mirror e (with_task_id ev (tID ?t)) (mem_record (with_task_id ev (tID ?t)) (mem_put ?t s))"
  have "tID ?t = eID e" by (simp add: new_task_def)
  obtain s2 where r: "?r = (None, s2)" using mirror_ok [OF a(2)] by (metis prod.collapse)
  then have "sCreateAndAuditLimited memory_ops e i ev maxDepth s = (Inr (cloneTask ?t), snd ?r)"
    using a(3) by (simp add: mem_CreateAndAuditLimited_def depth_int Let_def)
  moreover have "mem_ok (snd ?r)" using a by (simp add: mem_ok_put storable_new)
  moreover have "mem_view (snd ?r) = (mem_view s)(eID e \<mapsto> ?t)" "mem_keys (snd ?r) = mem_keys s"
    using \<open>tID ?t = eID e\<close> by (simp_all add: mem_view_def mem_keys_def)
  ultimately show "\<exists>s' t t'. sCreateAndAuditLimited memory_ops e i ev maxDepth s = (Inr t, s') \<and>
      mem_ok s' \<and> mem_view s' = (mem_view s)(eID e \<mapsto> t') \<and> mem_keys s' = mem_keys s \<and>
      core t' = core (new_task e i) \<and> core t = core t'"
    by (metis core_clone)
next
  fix s :: memory and e k assume "mem_ok s"
  have "same_binding r r" for r by (simp add: same_binding_def)
  then show "\<exists>r. sFindIdempotency memory_ops e k s = Inr r \<and> rel_option same_binding r (mem_keys s k)"
    by (simp add: mem_FindIdempotency_def mem_keys_def option.rel_refl)
next
  fix s :: memory and e :: env and rec :: idem_record assume a: "mem_ok s" "mem_keys s (iKey rec) = None"
  let ?r = "if iCreatedAt rec = zero_time then rec\<lparr>iCreatedAt := eNow e\<rparr> else rec"
  have "iKey ?r = iKey rec" "same_binding ?r rec" by (simp_all add: same_binding_def)
  then show "\<exists>s' r. sSaveIdempotency memory_ops e rec s = (None, s') \<and> mem_ok s' \<and>
      mem_view s' = mem_view s \<and> mem_keys s' = (mem_keys s)(iKey rec \<mapsto> r) \<and> same_binding r rec"
    using a by (intro exI [of _ "s\<lparr>mIdem := AList.update (iKey rec) ?r (mIdem s)\<rparr>"] exI [of _ ?r])
      (auto simp: mem_SaveIdempotency_def mem_keys_def mem_view_def mem_ok_def
        dest!: set_update_keys)
next
  fix s :: memory and e :: env and rec :: idem_record assume "mem_keys s (iKey rec) \<noteq> None"
  then show "\<exists>err. sSaveIdempotency memory_ops e rec s = (Some err, s)"
    by (simp add: mem_SaveIdempotency_def mem_keys_def)
qed

text \<open>Its calls fail only when the audit log cannot be written, and then after they took effect.\<close>

lemma storable_fresh: "year_ok (eNow e) \<Longrightarrow> storable (new_task e i)"
  by (simp add: storable_def new_task_def)

lemma mem_update_any:
  assumes "mem_ok m" and "mem_view m tid = Some t" and "fair_update fn t"
  shows "mem_ok (m\<lparr>mTasks := AList.update tid ((fn t)\<lparr>tUpdatedAt := u\<rparr>) (mTasks m)\<rparr>)"
  using assms mem_lookup [OF assms(1,2)] by (auto simp: fair_update_def intro!: mem_ok_update)

interpretation mem: faulty_store memory_ops mem_view mem_keys mem_ok
proof
  fix s :: memory and e st assume "mem_ok s"
  then show "distinct (map tID (sList memory_ops e st s)) \<and> (\<forall>c \<in> set (sList memory_ops e st s).
      \<exists>t. mem_view s (tID c) = Some t \<and> (st = [] \<or> state_name (tState t) = st))"
    using mem_list_ids [of s e st] by (auto simp: memory_ops_def)
next
  fix s s' :: memory and e tid fn r
  assume a: "mem_ok s" "\<forall>t. mem_view s tid = Some t \<longrightarrow> fair_update fn t"
    "sUpdate memory_ops e tid fn s = (r, s')"
  show "mem_ok s' \<and> mem_keys s' = mem_keys s \<and> all_or_nothing (mem_view s) (mem_view s') tid fn (eNow e)"
  proof (cases "mem_view s tid")
    case None
    with a show ?thesis by (simp add: mem_Update_def mem_view_def)
  next
    case (Some t)
    with a(3) have "s' = s\<lparr>mTasks := AList.update tid ((fn t)\<lparr>tUpdatedAt := eNow e\<rparr>) (mTasks s)\<rparr>"
      by (simp add: mem_Update_def mem_view_def)
    with mem_update_any [OF a(1) Some] a(2) Some show ?thesis
      by (auto simp: all_or_nothing_def mem_keys_def mem_view_def)
  qed
next
  fix s s' :: memory and e tid fn ev r
  assume a: "mem_ok s" "\<forall>t. mem_view s tid = Some t \<longrightarrow> fair_update fn t"
    "sUpdateAndAudit memory_ops e tid fn ev s = (r, s')"
  show "mem_ok s' \<and> mem_keys s' = mem_keys s \<and> all_or_nothing (mem_view s) (mem_view s') tid fn (eNow e)"
  proof (cases "mem_view s tid")
    case None
    with a show ?thesis by (simp add: mem_UpdateAndAudit_def mem_view_def)
  next
    case (Some t)
    let ?s = "s\<lparr>mTasks := AList.update tid ((fn t)\<lparr>tUpdatedAt := eNow e\<rparr>) (mTasks s)\<rparr>"
    have "s' = snd (mirror e (with_task_id ev tid) (mem_record (with_task_id ev tid) ?s))"
      using a(3) Some by (simp add: mem_UpdateAndAudit_def mem_view_def Let_def)
    with mem_update_any [OF a(1) Some] a(2) Some show ?thesis
      by (auto simp: all_or_nothing_def mem_keys_def mem_view_def)
  qed
next
  fix s s' :: memory and e now r assume a: "mem_ok s" "year_ok (eNow e)" "sClaimDue memory_ops e now s = (r, s')"
  show "mem_ok s' \<and> mem_keys s' = mem_keys s \<and>
    (mem_view s' = mem_view s \<and> (\<forall>c. r \<noteq> Inr (Some c)) \<or>
     (\<exists>tid t t'. mem_view s tid = Some t \<and> (tState t = StatePending \<or> tState t = StateRetryScheduled) \<and>
        tState t' = StateExecuting \<and> mem_view s' = (mem_view s)(tid \<mapsto> t') \<and>
        (\<forall>c. r = Inr (Some c) \<longrightarrow> tID c = tid)))"
  proof (cases "pick_due now (map snd (mTasks s))")
    case None
    with a show ?thesis by (auto simp: mem_ClaimDue_def)
  next
    case (Some p)
    have e: "env_ok (e\<lparr>eWrite := Written, eFault := False, eLate := False\<rparr>)" using a(2) by (simp add: env_ok_def)
    have c: "sClaimDue memory_ops (e\<lparr>eWrite := Written, eFault := False, eLate := False\<rparr>) now s = (r, s')"
      using a(3) by (simp add: mem_ClaimDue_def cong: option.case_cong)
    obtain k where k: "r = Inr (Some k)" using a(3) Some by (auto simp: mem_ClaimDue_def Let_def)
    from mem.claim_some [OF a(1) e c [unfolded k]] k show ?thesis by (fastforce dest: core_eqD(3))
  qed
next
  fix s s' :: memory and e i ev maxDepth r
  assume a: "mem_ok s" "year_ok (eNow e)" "mem_view s (eID e) = None"
    "sCreateAndAuditLimited memory_ops e i ev maxDepth s = (r, s')"
  let ?t = "new_task e i"
  let ?r = "mirror e (with_task_id ev (tID ?t)) (mem_record (with_task_id ev (tID ?t)) (mem_put ?t s))"
  have id: "tID ?t = eID e" by (simp add: new_task_def)
  show "mem_ok s' \<and> mem_keys s' = mem_keys s \<and>
    (mem_view s' = mem_view s \<and> (\<forall>t. r \<noteq> Inr t) \<or>
     int (sDepth memory_ops s) < maxDepth \<and> (\<exists>t'. mem_view s' = (mem_view s)(eID e \<mapsto> t') \<and> tState t' = StateAccepted) \<and>
       (\<forall>t. r = Inr t \<longrightarrow> tID t = eID e))"
  proof (cases "int (mem_Depth s) < maxDepth")
    case False
    with a show ?thesis by (auto simp: mem_CreateAndAuditLimited_def depth_int)
  next
    case True
    with a(4) have s': "s' = snd ?r" "r = Inr t \<Longrightarrow> t = cloneTask ?t" for t
      by (cases ?r; cases "fst ?r"; simp add: mem_CreateAndAuditLimited_def depth_int Let_def)+
    have "mem_ok s'" unfolding s'(1) using a by (simp add: mem_ok_put storable_fresh)
    moreover have "mem_view s' = (mem_view s)(eID e \<mapsto> ?t)" "mem_keys s' = mem_keys s"
      unfolding s'(1) using id by (simp_all add: mem_view_def mem_keys_def)
    moreover have "tState ?t = StateAccepted" by (simp add: new_task_def)
    ultimately show ?thesis using True s'(2) id by auto
  qed
next
  fix s s' :: memory and e :: env and rec :: idem_record and r
  assume a: "mem_ok s" "sSaveIdempotency memory_ops e rec s = (r, s')"
  show "mem_ok s' \<and> mem_view s' = mem_view s \<and> (mem_keys s' = mem_keys s \<or>
    mem_keys s (iKey rec) = None \<and> (\<exists>b. mem_keys s' = (mem_keys s)(iKey rec \<mapsto> b) \<and> same_binding b rec))"
  proof (cases "mem_keys s (iKey rec)")
    case (Some b)
    with a show ?thesis by (simp add: mem_SaveIdempotency_def mem_keys_def)
  next
    case None
    let ?r = "if iCreatedAt rec = zero_time then rec\<lparr>iCreatedAt := eNow e\<rparr> else rec"
    have "iKey ?r = iKey rec" "same_binding ?r rec" by (simp_all add: same_binding_def)
    moreover have "s' = s\<lparr>mIdem := AList.update (iKey rec) ?r (mIdem s)\<rparr>"
      using a(2) None by (auto simp: mem_SaveIdempotency_def mem_keys_def Let_def)
    ultimately show ?thesis using a(1) None
      by (auto simp: mem_keys_def mem_view_def mem_ok_def dest!: set_update_keys)
  qed
qed

end
