(* ===== verification/Resume.thy ===== *)
theory Resume
  imports Memory_Store
begin

text \<open>
  \<open>internal/queue/resume.go\<close>: what happens to interrupted work when the process starts. The code
  is written against the Store interface; the k-th store call of a loop runs in the environment
  \<open>es k\<close>, and \<open>Resume\<close> has the environments \<open>es 0\<close> for its five listings and \<open>es 1\<close>, \<open>es 2\<close>, \<open>es 3\<close>
  for its three loops. Its effect is proved from the Store contract alone.
\<close>

record resume_stats =
  ExecutingToPending :: int
  PendingKept :: int
  RetryDue :: int
  RetryFuture :: int

definition resumed :: "task \<Rightarrow> task" where
  "resumed t = t\<lparr>tState := StatePending, tError := ''resumed after crash (was executing)''\<rparr>"

definition canceled :: "string \<Rightarrow> task \<Rightarrow> task" where
  "canceled msg t = t\<lparr>tState := StateCanceled, tError := msg\<rparr>"

definition cancel_event :: "string \<Rightarrow> task \<Rightarrow> audit_event" where
  "cancel_event msg t =
     \<lparr>evTS = [], evTaskID = tID t, evVerb = tVerb t, evTier = [], evState = state_name StateCanceled,
      evArgv = tArgvRedacted t, evExitCode = None, evLatencyMS = 0, evAttempt = 0, evError = msg\<rparr>"

definition accept_msg :: string where
  "accept_msg = ''canceled on restart: accept incomplete''"

definition legacy_msg :: string where
  "legacy_msg = ''canceled on restart: legacy pending_approval''"

text \<open>The loop over the executing tasks: the number requeued so far and the first error.\<close>

fun requeue_loop ::
  "'s store_ops \<Rightarrow> (nat \<Rightarrow> env) \<Rightarrow> nat \<Rightarrow> task list \<Rightarrow> 's \<Rightarrow> nat \<times> store_error option \<times> 's" where
  "requeue_loop ops es n [] s = (n, None, s)"
| "requeue_loop ops es n (t # ts) s =
     (case sUpdate ops (es n) (tID t) resumed s of
        (Some err, s') \<Rightarrow> (n, Some err, s')
      | (None, s') \<Rightarrow> requeue_loop ops es (Suc n) ts s')"

fun cancel_loop ::
  "'s store_ops \<Rightarrow> (nat \<Rightarrow> env) \<Rightarrow> nat \<Rightarrow> string \<Rightarrow> task list \<Rightarrow> 's \<Rightarrow> store_error option \<times> 's" where
  "cancel_loop ops es n msg [] s = (None, s)"
| "cancel_loop ops es n msg (t # ts) s =
     (case sUpdateAndAudit ops (es n) (tID t) (canceled msg) (cancel_event msg t) s of
        (Some err, s') \<Rightarrow> (Some err, s')
      | (None, s') \<Rightarrow> cancel_loop ops es (Suc n) msg ts s')"

definition Resume ::
  "'s store_ops \<Rightarrow> (nat \<Rightarrow> nat \<Rightarrow> env) \<Rightarrow> time \<Rightarrow> 's \<Rightarrow> (resume_stats \<times> store_error option) \<times> 's" where
  "Resume ops es now s =
     (let zero = \<lparr>ExecutingToPending = 0, PendingKept = 0, RetryDue = 0, RetryFuture = 0\<rparr>
      in case requeue_loop ops (es 1) 0 (sList ops (es 0 0) (state_name StateExecuting) s) s of
           (n, Some err, s) \<Rightarrow> ((zero\<lparr>ExecutingToPending := int n\<rparr>, Some err), s)
         | (n, None, s) \<Rightarrow>
             (let retries = sList ops (es 0 2) (state_name StateRetryScheduled) s;
                  st = \<lparr>ExecutingToPending = int n,
                        PendingKept = int (length (sList ops (es 0 1) (state_name StatePending) s)),
                        RetryDue = int (length (filter (run_due now) retries)),
                        RetryFuture = int (length (filter (\<lambda>t. \<not> run_due now t) retries))\<rparr>
              in case cancel_loop ops (es 2) 0 accept_msg (sList ops (es 0 3) (state_name StateAccepted) s) s of
                   (Some err, s) \<Rightarrow> ((st, Some err), s)
                 | (None, s) \<Rightarrow>
                     (case cancel_loop ops (es 3) 0 legacy_msg
                            (sList ops (es 0 4) (state_name StatePendingApproval) s) s of
                        (err, s) \<Rightarrow> ((st, err), s))))"

subsection \<open>The loops over any store\<close>

text \<open>The specification of one task's fate.\<close>

fun after_resume :: "task_state \<Rightarrow> task_state" where
  "after_resume StateExecuting = StatePending"
| "after_resume StateAccepted = StateCanceled"
| "after_resume StatePendingApproval = StateCanceled"
| "after_resume st = st"

text \<open>One task changed by \<open>fn\<close> and stamped.\<close>

definition touched :: "(task \<Rightarrow> task) \<Rightarrow> task \<Rightarrow> task \<Rightarrow> bool" where
  "touched fn t t' \<longleftrightarrow> (\<exists>u. core t' = core ((fn t)\<lparr>tUpdatedAt := u\<rparr>))"

text \<open>The tasks of a set changed by \<open>fn\<close>, the others left alone.\<close>

definition changed_on ::
  "string set \<Rightarrow> (task \<Rightarrow> task) \<Rightarrow> (string \<Rightarrow> task option) \<Rightarrow> (string \<Rightarrow> task option) \<Rightarrow> bool" where
  "changed_on ids fn v v' \<longleftrightarrow>
     (\<forall>tid. if tid \<in> ids
            then (\<exists>t t'. v tid = Some t \<and> v' tid = Some t' \<and> touched fn t t')
            else v' tid = v tid)"

lemma changed_on_refl: "changed_on {} fn v v"
  by (simp add: changed_on_def)

lemma changed_on_step:
  assumes "v tid = Some t" and "touched fn t t'" and "tid \<notin> ids"
    and "changed_on ids fn (v(tid \<mapsto> t')) v''"
  shows "changed_on (insert tid ids) fn v v''"
  using assms by (auto simp: changed_on_def split: if_splits)

definition state_ids :: "task_state \<Rightarrow> (string \<Rightarrow> task option) \<Rightarrow> string set" where
  "state_ids st v = {tid. \<exists>t. v tid = Some t \<and> tState t = st}"

text \<open>What a loop over the tasks of one state does to any one task.\<close>

lemma changed_on_at:
  assumes "changed_on (state_ids st v) fn v v'" and "\<And>t. tState (fn t) = st'"
  shows "v tid = None \<Longrightarrow> v' tid = None"
    and "v tid = Some t \<Longrightarrow> tState t \<noteq> st \<Longrightarrow> v' tid = Some t"
    and "v tid = Some t \<Longrightarrow> tState t = st \<Longrightarrow> \<exists>t'. v' tid = Some t' \<and> tState t' = st'"
proof -
  note at = assms(1) [unfolded changed_on_def, THEN spec, of tid]
  show "v tid = None \<Longrightarrow> v' tid = None" using at by (simp add: state_ids_def)
  show "v tid = Some t \<Longrightarrow> tState t \<noteq> st \<Longrightarrow> v' tid = Some t" using at by (simp add: state_ids_def)
  assume "v tid = Some t" "tState t = st"
  with at obtain t' u where "v' tid = Some t'" "core t' = core ((fn t)\<lparr>tUpdatedAt := u\<rparr>)"
    by (auto simp: state_ids_def touched_def)
  with core_eqD(3) [of t' "(fn t)\<lparr>tUpdatedAt := u\<rparr>"] assms(2)
  show "\<exists>t'. v' tid = Some t' \<and> tState t' = st'" by simp
qed

lemma fair_resumed: "storable t \<Longrightarrow> fair_update resumed t"
  by (simp add: fair_update_def resumed_def storable_def)

lemma fair_canceled: "storable t \<Longrightarrow> fair_update (canceled msg) t"
  by (simp add: fair_update_def canceled_def storable_def)

context task_store begin

lemma list_state:
  assumes "inv s" and "env_ok e"
  shows "set (map tID (sList ops e (state_name st) s)) = state_ids st (view s)"
    and "length (sList ops e (state_name st) s) = card (state_ids st (view s))"
proof -
  note l = list_ids [OF assms, of "state_name st"]
  show set: "set (map tID (sList ops e (state_name st) s)) = state_ids st (view s)"
    using l by (simp add: state_ids_def)
  have "card (set (map tID (sList ops e (state_name st) s))) = length (sList ops e (state_name st) s)"
    using l distinct_card by (metis length_map)
  with set show "length (sList ops e (state_name st) s) = card (state_ids st (view s))" by simp
qed

lemma requeue_loop_ok:
  assumes "inv s" and "\<forall>n. env_ok (es n)" and "distinct (map tID ts)"
    and "\<forall>t \<in> set ts. view s (tID t) \<noteq> None"
  shows "\<exists>s'. requeue_loop ops es n ts s = (n + length ts, None, s') \<and> inv s' \<and> keys s' = keys s \<and>
    changed_on (set (map tID ts)) resumed (view s) (view s')"
  using assms
proof (induction ts arbitrary: n s)
  case Nil
  then show ?case by (simp add: changed_on_refl)
next
  case (Cons t ts)
  obtain v where v: "view s (tID t) = Some v" using Cons.prems(4) by auto
  with view_id [OF Cons.prems(1)] have "storable v" by blast
  then obtain s1 t1 where s1: "sUpdate ops (es n) (tID t) resumed s = (None, s1)" "inv s1"
      "view s1 = (view s)(tID t \<mapsto> t1)" "keys s1 = keys s"
      "core t1 = core ((resumed v)\<lparr>tUpdatedAt := eNow (es n)\<rparr>)"
    using update [OF Cons.prems(1) _ v fair_resumed] Cons.prems(2) by blast
  have "\<forall>t' \<in> set ts. view s1 (tID t') \<noteq> None" using Cons.prems(4) s1(3) by simp
  with Cons.IH [OF s1(2) Cons.prems(2), of "Suc n"] Cons.prems(3) obtain s' where
    s': "requeue_loop ops es (Suc n) ts s1 = (Suc n + length ts, None, s')" "inv s'" "keys s' = keys s1"
      "changed_on (set (map tID ts)) resumed (view s1) (view s')" by auto
  have "touched resumed v t1" using s1(5) by (auto simp: touched_def)
  from changed_on_step [where v = "view s", OF v this] s'(4) Cons.prems(3)
  have "changed_on (set (map tID (t # ts))) resumed (view s) (view s')" by (simp add: s1(3))
  with s1 s' show ?case by simp
qed

lemma cancel_loop_ok:
  assumes "inv s" and "\<forall>n. env_ok (es n)" and "distinct (map tID ts)"
    and "\<forall>t \<in> set ts. view s (tID t) \<noteq> None"
  shows "\<exists>s'. cancel_loop ops es n msg ts s = (None, s') \<and> inv s' \<and> keys s' = keys s \<and>
    changed_on (set (map tID ts)) (canceled msg) (view s) (view s')"
  using assms
proof (induction ts arbitrary: n s)
  case Nil
  then show ?case by (simp add: changed_on_refl)
next
  case (Cons t ts)
  obtain v where v: "view s (tID t) = Some v" using Cons.prems(4) by auto
  with view_id [OF Cons.prems(1)] have "storable v" by blast
  then obtain s1 t1 where
    s1: "sUpdateAndAudit ops (es n) (tID t) (canceled msg) (cancel_event msg t) s = (None, s1)" "inv s1"
      "view s1 = (view s)(tID t \<mapsto> t1)" "keys s1 = keys s"
      "core t1 = core ((canceled msg v)\<lparr>tUpdatedAt := eNow (es n)\<rparr>)"
    using update_audit [OF Cons.prems(1) _ v fair_canceled] Cons.prems(2) by blast
  have "\<forall>t' \<in> set ts. view s1 (tID t') \<noteq> None" using Cons.prems(4) s1(3) by simp
  with Cons.IH [OF s1(2) Cons.prems(2), of "Suc n"] Cons.prems(3) obtain s' where
    s': "cancel_loop ops es (Suc n) msg ts s1 = (None, s')" "inv s'" "keys s' = keys s1"
      "changed_on (set (map tID ts)) (canceled msg) (view s1) (view s')" by auto
  have "touched (canceled msg) v t1" using s1(5) by (auto simp: touched_def)
  from changed_on_step [where v = "view s", OF v this] s'(4) Cons.prems(3)
  have "changed_on (set (map tID (t # ts))) (canceled msg) (view s) (view s')" by (simp add: s1(3))
  with s1 s' show ?case by simp
qed

lemma listed:
  assumes "inv s" and "env_ok e"
  shows "\<forall>t \<in> set (sList ops e st s). view s (tID t) \<noteq> None"
    and "distinct (map tID (sList ops e st s))"
  using list_ids [OF assms, of st] by force+

lemma requeue_state:
  assumes "inv s" and "\<forall>n. env_ok (es n)" and e: "env_ok e"
  shows "\<exists>s'. requeue_loop ops es 0 (sList ops e (state_name st) s) s =
      (card (state_ids st (view s)), None, s') \<and> inv s' \<and> keys s' = keys s \<and>
    changed_on (state_ids st (view s)) resumed (view s) (view s')"
proof -
  from requeue_loop_ok [OF assms(1,2) listed(2,1) [OF assms(1) e, of "state_name st"], of 0]
  show ?thesis unfolding list_state [OF assms(1) e] add_0 by blast
qed

lemma cancel_state:
  assumes "inv s" and "\<forall>n. env_ok (es n)" and e: "env_ok e"
  shows "\<exists>s'. cancel_loop ops es 0 msg (sList ops e (state_name st) s) s = (None, s') \<and>
    inv s' \<and> keys s' = keys s \<and> changed_on (state_ids st (view s)) (canceled msg) (view s) (view s')"
proof -
  from cancel_loop_ok [OF assms(1,2) listed(2,1) [OF assms(1) e, of "state_name st"], of 0 msg]
  show ?thesis unfolding list_state [OF assms(1) e] by blast
qed

lemma resume_effect:
  assumes "inv s" and "\<forall>p n. env_ok (es p n)"
  shows "\<exists>st s'. Resume ops es now s = ((st, None), s') \<and> inv s' \<and> keys s' = keys s \<and>
    (\<forall>tid. view s tid = None \<longrightarrow> view s' tid = None) \<and>
    (\<forall>tid t. view s tid = Some t \<longrightarrow>
       (\<exists>t'. view s' tid = Some t' \<and> tState t' = after_resume (tState t) \<and>
             (after_resume (tState t) = tState t \<longrightarrow> t' = t))) \<and>
    ExecutingToPending st = int (card (state_ids StateExecuting (view s))) \<and>
    PendingKept st =
      int (card (state_ids StatePending (view s) \<union> state_ids StateExecuting (view s))) \<and>
    RetryDue st + RetryFuture st = int (card (state_ids StateRetryScheduled (view s)))"
proof -
  have e: "env_ok (es p n)" "\<forall>n. env_ok (es p n)" for p n using assms(2) by simp_all
  obtain s1 where s1: "requeue_loop ops (es 1) 0 (sList ops (es 0 0) (state_name StateExecuting) s) s =
        (card (state_ids StateExecuting (view s)), None, s1)" "inv s1" "keys s1 = keys s"
      "changed_on (state_ids StateExecuting (view s)) resumed (view s) (view s1)"
    using requeue_state [OF assms(1) e(2,1)] by blast
  obtain s2 where s2: "cancel_loop ops (es 2) 0 accept_msg (sList ops (es 0 3) (state_name StateAccepted) s1) s1 =
        (None, s2)" "inv s2" "keys s2 = keys s1"
      "changed_on (state_ids StateAccepted (view s1)) (canceled accept_msg) (view s1) (view s2)"
    using cancel_state [OF s1(2) e(2,1)] by blast
  obtain s3 where s3: "cancel_loop ops (es 3) 0 legacy_msg
        (sList ops (es 0 4) (state_name StatePendingApproval) s2) s2 = (None, s3)" "inv s3" "keys s3 = keys s2"
      "changed_on (state_ids StatePendingApproval (view s2)) (canceled legacy_msg) (view s2) (view s3)"
    using cancel_state [OF s2(2) e(2,1)] by blast
  have r: "tState (resumed t) = StatePending" and c: "tState (canceled m t) = StateCanceled" for t m
    by (simp_all add: resumed_def canceled_def)
  note at1 = changed_on_at [OF s1(4) r] and at2 = changed_on_at [OF s2(4) c]
    and at3 = changed_on_at [OF s3(4) c]
  have fate: "\<exists>t'. view s3 tid = Some t' \<and> tState t' = after_resume (tState t) \<and>
      (after_resume (tState t) = tState t \<longrightarrow> t' = t)" if t: "view s tid = Some t" for tid t
  proof (cases "tState t = StateExecuting \<or> tState t = StateAccepted")
    case True
    then show ?thesis
    proof
      assume ex: "tState t = StateExecuting"
      with at1(3) [OF t] obtain t1 where t1: "view s1 tid = Some t1" "tState t1 = StatePending" by blast
      with at2(2) [OF t1(1)] have "view s2 tid = Some t1" by simp
      with at3(2) t1 have "view s3 tid = Some t1" by simp
      with t1 ex show ?thesis by simp
    next
      assume ac: "tState t = StateAccepted"
      with at1(2) [OF t] have "view s1 tid = Some t" by simp
      with at2(3) ac obtain t1 where t1: "view s2 tid = Some t1" "tState t1 = StateCanceled" by blast
      with at3(2) have "view s3 tid = Some t1" by simp
      with t1 ac show ?thesis by simp
    qed
  next
    case False
    with at1(2) [OF t] at2(2) have v2: "view s2 tid = Some t" by simp
    show ?thesis
    proof (cases "tState t = StatePendingApproval")
      case True
      with at3(3) [OF v2] show ?thesis by auto
    next
      case np: False
      with at3(2) [OF v2] have "view s3 tid = Some t" by simp
      moreover have "after_resume (tState t) = tState t" using False np by (cases "tState t") simp_all
      ultimately show ?thesis by simp
    qed
  qed
  have none: "view s3 tid = None" if "view s tid = None" for tid
    using that at1(1) at2(1) at3(1) by blast
  have pend: "state_ids StatePending (view s1) =
      state_ids StatePending (view s) \<union> state_ids StateExecuting (view s)"
  proof (rule set_eqI)
    fix tid
    show "tid \<in> state_ids StatePending (view s1) \<longleftrightarrow>
        tid \<in> state_ids StatePending (view s) \<union> state_ids StateExecuting (view s)"
    proof (cases "view s tid")
      case None
      with at1(1) show ?thesis by (simp add: state_ids_def)
    next
      case (Some t)
      with at1(2,3) [OF Some] show ?thesis by (auto simp: state_ids_def)
    qed
  qed
  have retry: "state_ids StateRetryScheduled (view s1) = state_ids StateRetryScheduled (view s)"
  proof (rule set_eqI)
    fix tid
    show "tid \<in> state_ids StateRetryScheduled (view s1) \<longleftrightarrow> tid \<in> state_ids StateRetryScheduled (view s)"
    proof (cases "view s tid")
      case None
      with at1(1) show ?thesis by (simp add: state_ids_def)
    next
      case (Some t)
      with at1(2,3) [OF Some] show ?thesis by (cases "tState t = StateExecuting") (auto simp: state_ids_def)
    qed
  qed
  have split: "int (length (filter P xs)) + int (length (filter (\<lambda>x. \<not> P x) xs)) = int (length xs)"
    for P :: "task \<Rightarrow> bool" and xs
    using sum_length_filter_compl [of P xs] by linarith
  show ?thesis
    unfolding Resume_def Let_def s1(1) prod.case option.case s2(1) s3(1)
    using fate none s1(3) s2(3) s3(2,3)
    by (simp add: list_state(2) [OF s1(2) e(1)] split pend retry del: state_name.simps)
qed

end

subsection \<open>Properties\<close>

text \<open>
  On the memory store: Crash recovery is complete and fails closed. On a store whose calls succeed, \<open>Resume\<close>
  succeeds; afterwards nothing is left executing, accepted or awaiting approval: interrupted
  executions are pending again, half-created requests are canceled, and every other task is
  untouched. The reported numbers count the requeued tasks and the scheduled retries; the
  \<open>PendingKept\<close> number counts the requeued tasks a second time.
\<close>

theorem resume_fails_closed:
  assumes "mem_ok m" and "\<forall>p n. env_ok (es p n)"
  shows "\<exists>st m'. Resume memory_ops es now m = ((st, None), m') \<and> mem_ok m' \<and>
    (\<forall>tid. mem_view m tid = None \<longrightarrow> mem_view m' tid = None) \<and>
    (\<forall>tid t. mem_view m tid = Some t \<longrightarrow>
       (\<exists>t'. mem_view m' tid = Some t' \<and> tState t' = after_resume (tState t) \<and>
             (after_resume (tState t) = tState t \<longrightarrow> t' = t))) \<and>
    ExecutingToPending st = int (card (state_ids StateExecuting (mem_view m))) \<and>
    PendingKept st =
      int (card (state_ids StatePending (mem_view m) \<union> state_ids StateExecuting (mem_view m))) \<and>
    RetryDue st + RetryFuture st = int (card (state_ids StateRetryScheduled (mem_view m)))"
  using mem.resume_effect [OF assms] by blast

definition clock_env :: "time \<Rightarrow> string \<Rightarrow> env" where
  "clock_env t tid = \<lparr>eNow = t, eID = tid, eRowID = ''r'' @ tid, eWrite = Written, eFault = False,
     eLate = False\<rparr>"

definition sample_task :: "string \<Rightarrow> task_state \<Rightarrow> task" where
  "sample_task tid st =
     (new_task (clock_env 0 tid) \<lparr>ciVerb = ''torch.set'', ciArgsJSON = ''{}'',
        ciArgv = [''termux-torch'', ''on''], ciArgvRedacted = [''termux-torch'', ''on''],
        ciStdin = [], ciMaxRetries = 2\<rparr>)\<lparr>tState := st\<rparr>"

definition sample_memory :: memory where
  "sample_memory =
     \<lparr>mTasks = [(''a'', sample_task ''a'' StateExecuting), (''b'', sample_task ''b'' StateAccepted),
               (''c'', sample_task ''c'' StateExecuted)],
      mAudit = [], mIdem = [], mLogger = None\<rparr>"

lemma env_ok_clock: "year_ok t \<Longrightarrow> env_ok (clock_env t tid)"
  by (simp add: env_ok_def clock_env_def)

lemma year_ok_0: "year_ok 0"
  by code_simp

lemma storable_sample: "storable (sample_task tid st)"
  by (simp add: sample_task_def storable_def new_task_def clock_env_def year_ok_0)

lemma sample_memory_ok: "mem_ok sample_memory"
proof -
  have "tID (sample_task tid st) = tid" for tid st
    by (simp add: sample_task_def new_task_def clock_env_def)
  then show ?thesis by (simp add: mem_ok_def sample_memory_def wf_map_def storable_sample)
qed

theorem resume_fails_closed_witness:
  "\<exists>st m' t'. Resume memory_ops (\<lambda>p n. clock_env 0 ''x'') 0 sample_memory = ((st, None), m') \<and>
     mem_view m' ''a'' = Some t' \<and> tState t' = StatePending \<and>
     mem_view m' ''c'' = Some (sample_task ''c'' StateExecuted)"
proof -
  have e: "\<forall>p n. env_ok ((\<lambda>(p::nat) (n::nat). clock_env 0 ''x'') p n)" by (simp add: env_ok_clock year_ok_0)
  obtain st m' where r: "Resume memory_ops (\<lambda>p n. clock_env 0 ''x'') 0 sample_memory = ((st, None), m')"
    and f: "\<forall>tid t. mem_view sample_memory tid = Some t \<longrightarrow>
       (\<exists>t'. mem_view m' tid = Some t' \<and> tState t' = after_resume (tState t) \<and>
             (after_resume (tState t) = tState t \<longrightarrow> t' = t))"
    using resume_fails_closed [OF sample_memory_ok e, of 0] by blast
  have "mem_view sample_memory ''a'' = Some (sample_task ''a'' StateExecuting)"
    "mem_view sample_memory ''c'' = Some (sample_task ''c'' StateExecuted)"
    by (simp_all add: mem_view_def sample_memory_def)
  with f have "\<exists>t'. mem_view m' ''a'' = Some t' \<and> tState t' = StatePending"
    "mem_view m' ''c'' = Some (sample_task ''c'' StateExecuted)"
    by (fastforce simp: sample_task_def)+
  with r show ?thesis by blast
qed

end
