(* ===== verification/Exec.thy ===== *)
theory Exec
  imports Json Go_Clock
begin

text \<open>
  \<open>internal/execx/exec.go\<close>: what \<open>Run\<close> makes of a child process, and the parsing of its output.
  Starting and killing processes is the operating system's part; what the code learns from it is
  the record \<open>child\<close>: the captured streams, whether the deadline passed, and the error of
  \<open>cmd.Run()\<close> with the exit code when it is an \<open>ExitError\<close>.
\<close>

record child =
  chStdout :: string
  chStderr :: string
  chDeadline :: bool
  chError :: "(string \<times> int option) option"

record exec_result =
  rExitCode :: int
  rStdout :: string
  rStderr :: string
  rErr :: "string option"
  rTimedOut :: bool

definition MaxCapture :: nat where
  "MaxCapture = 4 * 1024"

text \<open>The marker starts with the three bytes of an ellipsis.\<close>

definition truncated_marker :: string where
  "truncated_marker = [CHR 0xE2, CHR 0x80, CHR 0xA6] @ ''[truncated]''"

definition truncate_out :: "string \<Rightarrow> nat \<Rightarrow> string" where
  "truncate_out s n = (if length s \<le> n then s else take n s @ truncated_marker)"

text \<open>The operating system runs a command with a stdin and a deadline.\<close>

type_synonym os = "string list \<Rightarrow> string \<Rightarrow> duration \<Rightarrow> child"

definition Run :: "os \<Rightarrow> string list \<Rightarrow> string \<Rightarrow> duration \<Rightarrow> exec_result" where
  "Run os argv stdin timeout =
     (if argv = []
      then \<lparr>rExitCode = -1, rStdout = [], rStderr = [], rErr = Some ''empty argv'', rTimedOut = False\<rparr>
      else
        let ch = os argv stdin timeout;
            res = \<lparr>rExitCode = 0, rStdout = truncate_out (chStdout ch) MaxCapture,
                   rStderr = truncate_out (chStderr ch) MaxCapture, rErr = None, rTimedOut = False\<rparr>
        in if chDeadline ch
           then res\<lparr>rTimedOut := True, rExitCode := -1, rErr := Some (''timeout after '' @ dur_text timeout)\<rparr>
           else case chError ch of
             Some (msg, code) \<Rightarrow>
               res\<lparr>rErr := Some msg, rExitCode := (case code of Some c \<Rightarrow> c | None \<Rightarrow> -1)\<rparr>
           | None \<Rightarrow> res\<lparr>rExitCode := 0\<rparr>)"

text \<open>
  \<open>ParseJSON\<close> returns a value and an error; on trailing data it returns both. \<open>nil\<close> is \<open>VNil\<close>.
\<close>

datatype parse_json_error = EmptyStdout | BadJSON | TrailingData

definition ParseJSON :: "string \<Rightarrow> goval \<times> parse_json_error option" where
  "ParseJSON stdout =
     (let s = trim_space stdout
      in if s = [] then (VNil, Some EmptyStdout)
         else case json_decode s of
           None \<Rightarrow> (VNil, Some BadJSON)
         | Some (v, rest) \<Rightarrow>
             if skip_ws rest \<noteq> [] then (v, Some TrailingData) else (v, None))"

lemma length_truncate: "length (truncate_out s n) \<le> n + 14"
  by (simp add: truncate_out_def truncated_marker_def)

lemma truncate_prefix: "take n (truncate_out s n) = take n s"
  by (simp add: truncate_out_def)

text \<open>The verdict both executors draw from a result.\<close>

definition is_ok :: "exec_result \<Rightarrow> bool" where
  "is_ok r \<longleftrightarrow> \<not> rTimedOut r \<and> rErr r = None \<and> rExitCode r = 0"

text \<open>
  How a child process is classified. The run counts as a success exactly when there was a
  command, the deadline had not passed and \<open>cmd.Run()\<close> reported no error; a passed deadline
  always wins over the exit status; and what is kept of each stream is its first 4096 bytes,
  followed by a marker of 14 bytes when something was cut.
\<close>

theorem run_classification:
  "(is_ok (Run os argv stdin timeout) \<longleftrightarrow>
      argv \<noteq> [] \<and> \<not> chDeadline (os argv stdin timeout) \<and> chError (os argv stdin timeout) = None) \<and>
   (rTimedOut (Run os argv stdin timeout) \<longleftrightarrow> argv \<noteq> [] \<and> chDeadline (os argv stdin timeout)) \<and>
   rStdout (Run os argv stdin timeout) =
     (if argv = [] then []
      else if length (chStdout (os argv stdin timeout)) \<le> 4096 then chStdout (os argv stdin timeout)
      else take 4096 (chStdout (os argv stdin timeout)) @ truncated_marker) \<and>
   length (rStderr (Run os argv stdin timeout)) \<le> 4096 + 14"
  using length_truncate [of "chStderr (os argv stdin timeout)" MaxCapture]
  by (auto simp: Run_def is_ok_def Let_def truncate_out_def MaxCapture_def split: option.splits)

end
