(* ===== verification/Notify.thy ===== *)
theory Notify
  imports Exec
begin

text \<open>\<open>internal/notify/notify.go\<close>: the alert that a task has exhausted its retries.\<close>

datatype notifier = Termux | LogNotifier "string list"

definition notify_argv :: "string \<Rightarrow> string \<Rightarrow> int \<Rightarrow> string list" where
  "notify_argv verb tid attempts =
     [''termux-notification'', ''-t'', ''dispatcher: '' @ verb @ '' exhausted'',
      ''-c'', ''task '' @ tid @ '' after '' @ itoa attempts @ '' attempts'']"

definition Exhausted :: "os \<Rightarrow> string \<Rightarrow> string \<Rightarrow> int \<Rightarrow> notifier \<Rightarrow> string option \<times> notifier" where
  "Exhausted os verb tid attempts nt =
     (case nt of
        Termux \<Rightarrow> (rErr (Run os (notify_argv verb tid attempts) [] (15 * second)), Termux)
      | LogNotifier calls \<Rightarrow>
          (None, LogNotifier (calls @ [verb @ ''|'' @ tid @ ''|'' @ itoa attempts])))"

end
