(* ===== verification/Worker.thy ===== *)
theory Worker
  imports Resume Notify Breaker Backoff Redact
begin

text \<open>
  \<open>internal/worker/worker.go\<close>: the loop that claims a due task, runs it and records the outcome.
  The code is written against the Store interface, a registry of breakers (or nil), the audit
  logger and a notifier. The clock readings, the random bytes of the jitter and the environments
  of the store calls of one execution are the record \<open>exec_env\<close>.
\<close>

record worker =
  wCatalog :: catalog
  wBackoffBase :: duration
  wMaxJitter :: duration

record 's wstate =
  wStore :: 's
  wCircuits :: "registry option"
  wLog :: "logger option"
  wNotifier :: notifier

record exec_env =
  xOS :: os
  xAllow :: time
  xGrant :: time
  xOpenNow :: time
  xStart :: time
  xEnd :: time
  xFail :: time
  xRetryNow :: time
  xRand :: nat
  xStore :: "nat \<Rightarrow> env"

text \<open>The defaults \<open>Run\<close> and \<open>RunOnce\<close> fill in.\<close>

definition worker_defaults :: "worker \<Rightarrow> worker" where
  "worker_defaults w =
     (let w = (if wBackoffBase w \<le> 0 then w\<lparr>wBackoffBase := second\<rparr> else w)
      in if wMaxJitter w \<le> 0 then w\<lparr>wMaxJitter := 250 * millisecond\<rparr> else w)"

definition task_event ::
  "task \<Rightarrow> string \<Rightarrow> string \<Rightarrow> int option \<Rightarrow> int \<Rightarrow> int \<Rightarrow> string \<Rightarrow> audit_event" where
  "task_event task tier st ec lat attempt err =
     \<lparr>evTS = [], evTaskID = tID task, evVerb = tVerb task, evTier = tier, evState = st,
      evArgv = tArgvRedacted task, evExitCode = ec, evLatencyMS = lat, evAttempt = attempt, evError = err\<rparr>"

definition w_update ::
  "'s store_ops \<Rightarrow> env \<Rightarrow> string \<Rightarrow> (task \<Rightarrow> task) \<Rightarrow> audit_event \<Rightarrow> 's wstate \<Rightarrow> 's wstate" where
  "w_update ops e tid fn ev w = w\<lparr>wStore := snd (sUpdateAndAudit ops e tid fn ev (wStore w))\<rparr>"

definition w_drain :: "'s store_ops \<Rightarrow> env \<Rightarrow> int \<Rightarrow> 's wstate \<Rightarrow> 's wstate" where
  "w_drain ops e limit w =
     (case sDrainOutbox ops e (wLog w) limit (wStore w) of (_, s, l) \<Rightarrow> w\<lparr>wStore := s, wLog := l\<rparr>)"

definition w_audit :: "'s store_ops \<Rightarrow> env \<Rightarrow> env \<Rightarrow> audit_event \<Rightarrow> 's wstate \<Rightarrow> store_error option \<times> 's wstate" where
  "w_audit ops e e' ev w =
     (case sAppendAudit ops e ev (wStore w) of
        (Some err, s) \<Rightarrow> (Some err, w\<lparr>wStore := s\<rparr>)
      | (None, s) \<Rightarrow> (None, w_drain ops e' 20 (w\<lparr>wStore := s\<rparr>)))"

text \<open>A method call on the breaker of a verb, when there is a registry.\<close>

definition w_breaker :: "string \<Rightarrow> (breaker \<Rightarrow> breaker) \<Rightarrow> 's wstate \<Rightarrow> 's wstate" where
  "w_breaker verb f w =
     w\<lparr>wCircuits := map_option (\<lambda>r. snd (on_breaker verb (\<lambda>b. ((), f b)) r)) (wCircuits w)\<rparr>"

subsection \<open>The changes made to a task\<close>

definition set_unknown_verb :: "task \<Rightarrow> task" where
  "set_unknown_verb t =
     t\<lparr>tState := StateExhausted, tError := ''unknown verb in catalog'', tLastOutcome := ''failed''\<rparr>"

definition set_circuit_open :: "time \<Rightarrow> task \<Rightarrow> task" where
  "set_circuit_open nxt t =
     t\<lparr>tState := StateRetryScheduled, tNextRunAt := Some nxt, tError := ''circuit_open''\<rparr>"

definition set_executing :: "task \<Rightarrow> task" where
  "set_executing t = t\<lparr>tState := StateExecuting\<rparr>"

definition set_ok :: "int \<Rightarrow> string \<Rightarrow> string \<Rightarrow> goval \<Rightarrow> task \<Rightarrow> task" where
  "set_ok ec out err result t =
     t\<lparr>tState := StateExecuted, tLastOutcome := ''ok'', tExitCode := Some ec, tStdout := out,
       tStderr := err, tResult := result,
       tResultJSON := (if result \<noteq> VNil
                       then (case json_marshal result of Some b \<Rightarrow> b | None \<Rightarrow> [])
                       else tResultJSON t),
       tError := [], tNextRunAt := None\<rparr>"

definition set_exhausted :: "string \<Rightarrow> int \<Rightarrow> string \<Rightarrow> string \<Rightarrow> string \<Rightarrow> task \<Rightarrow> task" where
  "set_exhausted outcome ec out err msg t =
     t\<lparr>tState := StateExhausted, tLastOutcome := outcome, tExitCode := Some ec, tStdout := out,
       tStderr := err, tError := msg, tNextRunAt := None\<rparr>"

definition set_retry :: "string \<Rightarrow> int \<Rightarrow> string \<Rightarrow> string \<Rightarrow> string \<Rightarrow> int \<Rightarrow> time \<Rightarrow> task \<Rightarrow> task" where
  "set_retry outcome ec out err msg attempt nxt t =
     t\<lparr>tState := StateRetryScheduled, tLastOutcome := outcome, tExitCode := Some ec, tStdout := out,
       tStderr := err, tError := msg, tAttempt := attempt, tNextRunAt := Some nxt\<rparr>"

subsection \<open>One execution\<close>

definition verb_timeout :: "catalog \<Rightarrow> verb \<Rightarrow> duration" where
  "verb_timeout c v =
     (if vTimeoutS v > 0 then seconds (vTimeoutS v) else seconds (TaskTimeoutS (cDaemon c)))"

definition outcome_of :: "exec_result \<Rightarrow> string \<times> string" where
  "outcome_of r =
     (if rTimedOut r then (''timeout'', (case rErr r of Some m \<Rightarrow> m | None \<Rightarrow> ''timeout''))
      else if rErr r \<noteq> None \<or> rExitCode r \<noteq> 0
      then (''failed'', (case rErr r of Some m \<Rightarrow> m | None \<Rightarrow> ''exit '' @ itoa (rExitCode r)))
      else (''ok'', []))"

definition json_parser :: "verb \<Rightarrow> bool" where
  "json_parser v \<longleftrightarrow> vParser v = ParserJSON \<or> vParser v = []"

definition effective_retries :: "catalog \<Rightarrow> task \<Rightarrow> int" where
  "effective_retries c t = (if tMaxRetries t = 0 then MaxRetries (cDaemon c) else tMaxRetries t)"

text \<open>From the start of the attempt on; the breaker has admitted it.\<close>

definition run_attempt ::
  "'s store_ops \<Rightarrow> worker \<Rightarrow> exec_env \<Rightarrow> verb \<Rightarrow> task \<Rightarrow> 's wstate \<Rightarrow> 's wstate" where
  "run_attempt ops wk x v task w =
     (let tier = vTier v; n = tAttempt task; tid = tID task;
          w = w_update ops (xStore x 1) tid set_executing
                (task_event task tier (state_name StateExecuting) None 0 n []) w;
          res = Run (xOS x) (task_argv task) (tStdinBlob task) (verb_timeout (wCatalog wk) v);
          lat = milliseconds (time_sub (xEnd x) (xStart x));
          out = worker_scrub (rStdout res) (tStdinBlob task);
          err = worker_scrub (rStderr res) (tStdinBlob task);
          (outcome, msg) = outcome_of res;
          ec = rExitCode res;
          w = w\<lparr>wStore := snd (sRecordAttempt ops (xStore x 2) tid n (xStart x) (xEnd x) (Some ec)
                                 outcome msg (wStore w))\<rparr>;
          maxRetries = effective_retries (wCatalog wk) task
      in if outcome = ''ok'' then
           (let result = (if json_parser v then fst (ParseJSON (rStdout res)) else VNil);
                w = w_update ops (xStore x 3) tid (set_ok ec out err result)
                      (task_event task tier (state_name StateExecuted) (Some ec) lat n []) w
            in w_breaker (tVerb task) Success w)
         else
           (let w = w_breaker (tVerb task) (Failure (xFail x)) w
            in if ShouldExhaust n maxRetries then
                 (let w = w_update ops (xStore x 3) tid (set_exhausted outcome ec out err msg)
                        (task_event task tier (state_name StateExhausted) (Some ec) lat n msg) w
                  in w\<lparr>wNotifier := snd (Exhausted (xOS x) (tVerb task) tid (n + 1) (wNotifier w))\<rparr>)
               else
                 (let nxt = xRetryNow x + DelayAfterFailure (xRand x) (wBackoffBase wk) n (wMaxJitter wk)
                  in w_update ops (xStore x 3) tid (set_retry outcome ec out err msg (n + 1) nxt)
                       (task_event task tier ''will-retry'' (Some ec) lat n msg) w)))"

definition execute_body ::
  "'s store_ops \<Rightarrow> worker \<Rightarrow> exec_env \<Rightarrow> task \<Rightarrow> 's wstate \<Rightarrow> 's wstate" where
  "execute_body ops wk x task w =
     (case Get (wCatalog wk) (tVerb task) of
        None \<Rightarrow>
          w_update ops (xStore x 0) (tID task) set_unknown_verb
            (task_event task [] (state_name StateExhausted) None 0 0 ''unknown verb in catalog'') w
      | Some v \<Rightarrow>
          (let perVerb = (case vCBThreshold v of Some n \<Rightarrow> n | None \<Rightarrow> 0)
           in case wCircuits w of
                None \<Rightarrow> run_attempt ops wk x v task w
              | Some r \<Rightarrow>
                  (case on_breaker (tVerb task) (Allow (xAllow x) (xGrant x)) (snd (For (tVerb task) perVerb r)) of
                     (allowed, r) \<Rightarrow>
                       (let w = w\<lparr>wCircuits := Some r\<rparr>
                        in if allowed = Some False
                           then w_update ops (xStore x 0) (tID task) (set_circuit_open (xOpenNow x + second))
                                  (task_event task (vTier v) ''circuit_open'' None 0 0 ''circuit_open'') w
                           else run_attempt ops wk x v task w))))"

text \<open>The deferred \<open>drainAudit\<close> runs on every path.\<close>

definition execute :: "'s store_ops \<Rightarrow> worker \<Rightarrow> exec_env \<Rightarrow> task \<Rightarrow> 's wstate \<Rightarrow> 's wstate" where
  "execute ops wk x task w = w_drain ops (xStore x 4) 50 (execute_body ops wk x task w)"

text \<open>\<open>RunOnce\<close>: drain, claim at most one due task and execute it; whether one was executed.\<close>

definition claim_and_execute ::
  "'s store_ops \<Rightarrow> worker \<Rightarrow> time \<Rightarrow> env \<Rightarrow> env \<Rightarrow> exec_env \<Rightarrow> 's wstate \<Rightarrow> bool \<times> 's wstate" where
  "claim_and_execute ops wk now e0 e1 x w =
     (let w = w_drain ops e0 50 w
      in case sClaimDue ops e1 now (wStore w) of
           (Inl err, s) \<Rightarrow> (False, w\<lparr>wStore := s\<rparr>)
         | (Inr None, s) \<Rightarrow> (False, w\<lparr>wStore := s\<rparr>)
         | (Inr (Some task), s) \<Rightarrow> (True, execute ops wk x task (w\<lparr>wStore := s\<rparr>)))"

definition RunOnce ::
  "'s store_ops \<Rightarrow> worker \<Rightarrow> time \<Rightarrow> env \<Rightarrow> env \<Rightarrow> exec_env \<Rightarrow> 's wstate \<Rightarrow> bool \<times> 's wstate" where
  "RunOnce ops wk now e0 e1 x w = claim_and_execute ops (worker_defaults wk) now e0 e1 x w"

definition tick ::
  "'s store_ops \<Rightarrow> worker \<Rightarrow> time \<Rightarrow> env \<Rightarrow> env \<Rightarrow> exec_env \<Rightarrow> 's wstate \<Rightarrow> 's wstate" where
  "tick ops wk now e0 e1 x w = snd (claim_and_execute ops wk now e0 e1 x w)"

text \<open>The polling loop of \<open>Run\<close>, over the inputs of its ticks.\<close>

type_synonym tick_input = "time \<times> env \<times> env \<times> exec_env"

definition RunLoop :: "'s store_ops \<Rightarrow> worker \<Rightarrow> tick_input list \<Rightarrow> 's wstate \<Rightarrow> 's wstate" where
  "RunLoop ops wk ins w =
     fold (\<lambda>(now, e0, e1, x) w. tick ops (worker_defaults wk) now e0 e1 x w) ins w"

subsection \<open>What an execution does to the store\<close>

text \<open>The last change an attempt makes to its task, as one function.\<close>

definition attempt_change :: "worker \<Rightarrow> exec_env \<Rightarrow> verb \<Rightarrow> task \<Rightarrow> task \<Rightarrow> task" where
  "attempt_change wk x v task =
     (let n = tAttempt task;
          res = Run (xOS x) (task_argv task) (tStdinBlob task) (verb_timeout (wCatalog wk) v);
          out = worker_scrub (rStdout res) (tStdinBlob task);
          err = worker_scrub (rStderr res) (tStdinBlob task);
          (outcome, msg) = outcome_of res
      in if outcome = ''ok'' then
           set_ok (rExitCode res) out err (if json_parser v then fst (ParseJSON (rStdout res)) else VNil)
         else if ShouldExhaust n (effective_retries (wCatalog wk) task) then
           set_exhausted outcome (rExitCode res) out err msg
         else set_retry outcome (rExitCode res) out err msg (n + 1)
           (xRetryNow x + DelayAfterFailure (xRand x) (wBackoffBase wk) n (wMaxJitter wk)))"

definition core_fun :: "(task \<Rightarrow> task) \<Rightarrow> bool" where
  "core_fun fn \<longleftrightarrow> (\<forall>a b. core a = core b \<longrightarrow> core (fn a) = core (fn b))"

lemma core_funD: "core_fun fn \<Longrightarrow> core a = core b \<Longrightarrow> core (fn a) = core (fn b)"
  unfolding core_fun_def by blast

lemma core_upd: "core (a\<lparr>tUpdatedAt := u\<rparr>) = (core a)\<lparr>tUpdatedAt := u\<rparr>"
  by (simp add: core_def)

lemma core_touch: "core a = core b \<Longrightarrow> core (a\<lparr>tUpdatedAt := u\<rparr>) = core (b\<lparr>tUpdatedAt := u\<rparr>)"
  by (simp add: core_upd)

lemma core_fun_set:
  "core_fun set_executing" "core_fun (set_ok ec out err r)" "core_fun (set_exhausted oc ec out err m)"
  "core_fun (set_retry oc ec out err m n nxt)" "core_fun set_unknown_verb" "core_fun (set_circuit_open nxt)"
  unfolding core_fun_def set_executing_def set_ok_def set_exhausted_def set_retry_def
    set_unknown_verb_def set_circuit_open_def
  by (intro allI impI, case_tac a, case_tac b, simp add: core_def)+

lemma core_fun_attempt: "core_fun (attempt_change wk x v task)"
  unfolding attempt_change_def Let_def by (simp add: core_fun_set split: prod.split)

definition retry_time :: "worker \<Rightarrow> exec_env \<Rightarrow> task \<Rightarrow> time" where
  "retry_time wk x task =
     xRetryNow x + DelayAfterFailure (xRand x) (wBackoffBase wk) (tAttempt task) (wMaxJitter wk)"

lemma fair_set:
  assumes "storable t"
  shows "fair_update set_executing t" "fair_update (set_ok ec out err r) t"
    "fair_update (set_exhausted oc ec out err m) t" "fair_update set_unknown_verb t"
    "year_ok nxt \<Longrightarrow> fair_update (set_retry oc ec out err m n nxt) t"
    "year_ok nxt \<Longrightarrow> fair_update (set_circuit_open nxt) t"
  using assms
  by (simp_all add: fair_update_def storable_def set_executing_def set_ok_def set_exhausted_def
      set_unknown_verb_def set_retry_def set_circuit_open_def)

lemma fair_attempt:
  "storable t \<Longrightarrow> year_ok (retry_time wk x task) \<Longrightarrow> fair_update (attempt_change wk x v task) t"
  by (auto simp: attempt_change_def Let_def fair_set retry_time_def split: prod.split)

lemma w_breaker_simps [simp]:
  "wStore (w_breaker verb f w) = wStore w" "wNotifier (w_breaker verb f w) = wNotifier w"
  by (simp_all add: w_breaker_def)

lemma w_update_simps [simp]:
  "wCircuits (w_update ops e tid fn ev w) = wCircuits w"
  "wLog (w_update ops e tid fn ev w) = wLog w" "wNotifier (w_update ops e tid fn ev w) = wNotifier w"
  "wStore (w_update ops e tid fn ev w) = snd (sUpdateAndAudit ops e tid fn ev (wStore w))"
  by (simp_all add: w_update_def)

lemma w_drain_simps [simp]:
  "wCircuits (w_drain ops e lim w) = wCircuits w" "wNotifier (w_drain ops e lim w) = wNotifier w"
  "wStore (w_drain ops e lim w) = fst (snd (sDrainOutbox ops e (wLog w) lim (wStore w)))"
  by (simp_all add: w_drain_def split: prod.splits)

text \<open>The store after an attempt: two updates around the record of the attempt.\<close>

lemma wStore_run_attempt:
  "\<exists>ev1 ev3 oc msg ec.
     wStore (run_attempt ops wk x v task w) =
       snd (sUpdateAndAudit ops (xStore x 3) (tID task) (attempt_change wk x v task) ev3
         (snd (sRecordAttempt ops (xStore x 2) (tID task) (tAttempt task) (xStart x) (xEnd x) ec oc msg
           (snd (sUpdateAndAudit ops (xStore x 1) (tID task) set_executing ev1 (wStore w))))))"
proof -
  let ?res = "Run (xOS x) (task_argv task) (tStdinBlob task) (verb_timeout (wCatalog wk) v)"
  obtain oc msg where o: "outcome_of ?res = (oc, msg)" by (cases "outcome_of ?res")
  show ?thesis
  proof (cases "oc = ''ok''")
    case True
    with o show ?thesis unfolding run_attempt_def attempt_change_def Let_def
      apply (simp split del: if_split)
      apply (intro exI)
      apply (rule refl)
      done
  next
    case False
    then show ?thesis
    proof (cases "ShouldExhaust (tAttempt task) (effective_retries (wCatalog wk) task)")
      case True
      with o False show ?thesis unfolding run_attempt_def attempt_change_def Let_def
        apply (simp split del: if_split)
      apply (intro exI)
      apply (rule refl)
      done
    next
      case no: False
      with o False show ?thesis unfolding run_attempt_def attempt_change_def Let_def
        apply (simp split del: if_split)
      apply (intro exI)
      apply (rule refl)
      done
    qed
  qed
qed

definition envs_ok :: "exec_env \<Rightarrow> bool" where
  "envs_ok x \<longleftrightarrow> (\<forall>k. env_ok (xStore x k))"

context task_store begin

lemma step_update:
  assumes "inv s" and "env_ok e" and "view s tid = Some t" and "fair_update fn t" and "core_fun fn"
    and "core t = core t0"
  shows "inv (snd (sUpdateAndAudit ops e tid fn ev s)) \<and>
    keys (snd (sUpdateAndAudit ops e tid fn ev s)) = keys s \<and>
    (\<exists>t'. view (snd (sUpdateAndAudit ops e tid fn ev s)) = (view s)(tid \<mapsto> t') \<and>
      core t' = core ((fn t0)\<lparr>tUpdatedAt := eNow e\<rparr>))"
proof -
  obtain s' t' where s': "sUpdateAndAudit ops e tid fn ev s = (None, s')" "inv s'"
      "view s' = (view s)(tid \<mapsto> t')" "keys s' = keys s"
      "core t' = core ((fn t)\<lparr>tUpdatedAt := eNow e\<rparr>)"
    using update_audit [OF assms(1-4), of ev] by blast
  moreover have "core ((fn t)\<lparr>tUpdatedAt := eNow e\<rparr>) = core ((fn t0)\<lparr>tUpdatedAt := eNow e\<rparr>)"
    using core_touch [OF core_funD [OF assms(5,6)]] .
  ultimately show ?thesis by auto
qed

lemma run_attempt_effect:
  assumes "inv (wStore w)" and "envs_ok x" and "view (wStore w) (tID task) = Some t"
    and "core t = core task" and "year_ok (retry_time wk x task)"
  shows "inv (wStore (run_attempt ops wk x v task w)) \<and>
    keys (wStore (run_attempt ops wk x v task w)) = keys (wStore w) \<and>
    (\<exists>t'. view (wStore (run_attempt ops wk x v task w)) = (view (wStore w))(tID task \<mapsto> t') \<and>
      core t' = core ((attempt_change wk x v task (set_executing task))
        \<lparr>tUpdatedAt := eNow (xStore x 3)\<rparr>))"
proof -
  have e: "env_ok (xStore x k)" for k using assms(2) by (simp add: envs_ok_def)
  obtain ev1 ev3 oc msg ec where ws: "wStore (run_attempt ops wk x v task w) =
       snd (sUpdateAndAudit ops (xStore x 3) (tID task) (attempt_change wk x v task) ev3
         (snd (sRecordAttempt ops (xStore x 2) (tID task) (tAttempt task) (xStart x) (xEnd x) ec oc msg
           (snd (sUpdateAndAudit ops (xStore x 1) (tID task) set_executing ev1 (wStore w))))))"
    using wStore_run_attempt by blast
  let ?s1 = "snd (sUpdateAndAudit ops (xStore x 1) (tID task) set_executing ev1 (wStore w))"
  let ?s2 = "snd (sRecordAttempt ops (xStore x 2) (tID task) (tAttempt task) (xStart x) (xEnd x) ec oc msg ?s1)"
  have st: "storable t" using view_id [OF assms(1,3)] by simp
  obtain t1 where s1: "inv ?s1" "keys ?s1 = keys (wStore w)" "view ?s1 = (view (wStore w))(tID task \<mapsto> t1)"
      "core t1 = core ((set_executing task)\<lparr>tUpdatedAt := eNow (xStore x 1)\<rparr>)"
    using step_update [OF assms(1) e assms(3) fair_set(1) [OF st] core_fun_set(1) assms(4)] by blast
  note s2 = record_attempt [OF s1(1), of "xStore x 2" "tID task" "tAttempt task" "xStart x" "xEnd x" ec oc msg]
  have v2: "view ?s2 (tID task) = Some t1" using s2 s1(3) by simp
  have st1: "storable t1" using view_id v2 s2 by blast
  obtain t' where s3: "inv (wStore (run_attempt ops wk x v task w))"
      "keys (wStore (run_attempt ops wk x v task w)) = keys ?s2"
      "view (wStore (run_attempt ops wk x v task w)) = (view ?s2)(tID task \<mapsto> t')"
      "core t' = core ((attempt_change wk x v task
          ((set_executing task)\<lparr>tUpdatedAt := eNow (xStore x 1)\<rparr>))\<lparr>tUpdatedAt := eNow (xStore x 3)\<rparr>)"
    using step_update [OF _ e v2 fair_attempt [OF st1 assms(5)] core_fun_attempt s1(4)] s2
    unfolding ws by blast
  have "(attempt_change wk x v task (t0\<lparr>tUpdatedAt := u\<rparr>))\<lparr>tUpdatedAt := u'\<rparr> =
      (attempt_change wk x v task t0)\<lparr>tUpdatedAt := u'\<rparr>" for t0 u u'
    by (simp add: attempt_change_def Let_def set_ok_def set_exhausted_def set_retry_def split: prod.split)
  with s3 s2 s1 show ?thesis by auto
qed

end

end
