(* ===== verification/Worker_Facts.thy ===== *)
theory Worker_Facts
  imports Worker
begin

text \<open>
  What a worker does to a store, proved once over the Store contract: the effect of one execution,
  of \<open>RunOnce\<close>, and of the polling loop; then the same on the memory store.
\<close>

subsection \<open>One execution\<close>

text \<open>The breaker of the verb, when there is one, lets the attempt run.\<close>

definition verb_trip :: "verb \<Rightarrow> int" where
  "verb_trip v = (case vCBThreshold v of Some n \<Rightarrow> n | None \<Rightarrow> 0)"

definition admitted :: "exec_env \<Rightarrow> verb \<Rightarrow> string \<Rightarrow> registry option \<Rightarrow> bool" where
  "admitted x v verb circ =
     (case circ of
        None \<Rightarrow> True
      | Some r \<Rightarrow>
          fst (on_breaker verb (Allow (xAllow x) (xGrant x)) (snd (For verb (verb_trip v) r))) \<noteq> Some False)"

text \<open>The net change of an execution to its task.\<close>

definition body_change :: "worker \<Rightarrow> exec_env \<Rightarrow> registry option \<Rightarrow> task \<Rightarrow> task \<Rightarrow> task" where
  "body_change wk x circ task =
     (case Get (wCatalog wk) (tVerb task) of
        None \<Rightarrow> set_unknown_verb
      | Some v \<Rightarrow>
          if admitted x v (tVerb task) circ then attempt_change wk x v task
          else set_circuit_open (xOpenNow x + second))"

lemma body_change_core:
  assumes "core a = core b"
  shows "body_change wk x circ a = body_change wk x circ b"
proof -
  have "attempt_change wk x v a = attempt_change wk x v b" for v
    unfolding attempt_change_def task_argv_def effective_retries_def
    by (simp only: core_eqD [OF assms])
  then have "attempt_change wk x v a = attempt_change wk x v b" for v .
  then show ?thesis unfolding body_change_def core_eqD(2) [OF assms] by presburger
qed

lemma core_fun_body: "core_fun (body_change wk x circ task)"
  unfolding body_change_def by (simp add: core_fun_attempt core_fun_set split: option.split)

lemma body_change_touch:
  "(body_change wk x circ task (t\<lparr>tState := st, tUpdatedAt := u\<rparr>))\<lparr>tUpdatedAt := u'\<rparr> =
   (body_change wk x circ task t)\<lparr>tUpdatedAt := u'\<rparr>"
  "(body_change wk x circ task (t\<lparr>tState := st\<rparr>))\<lparr>tUpdatedAt := u'\<rparr> =
   (body_change wk x circ task t)\<lparr>tUpdatedAt := u'\<rparr>"
  by (simp_all add: body_change_def attempt_change_def Let_def set_unknown_verb_def set_circuit_open_def
      set_ok_def set_exhausted_def set_retry_def split: option.split prod.split)

lemma body_change_state:
  "body_change wk x circ (t\<lparr>tState := st, tUpdatedAt := u\<rparr>) = body_change wk x circ t"
proof -
  let ?t = "t\<lparr>tState := st, tUpdatedAt := u\<rparr>"
  have f: "tAttempt ?t = tAttempt t" "tArgvJSON ?t = tArgvJSON t" "tStdinBlob ?t = tStdinBlob t"
    "tMaxRetries ?t = tMaxRetries t" by simp_all
  have "attempt_change wk x v ?t = attempt_change wk x v t" for v
    unfolding attempt_change_def task_argv_def effective_retries_def by (simp only: f)
  moreover have "tVerb (t\<lparr>tState := st, tUpdatedAt := u\<rparr>) = tVerb t" by simp
  ultimately show ?thesis unfolding body_change_def by presburger
qed

definition times_ok :: "worker \<Rightarrow> exec_env \<Rightarrow> bool" where
  "times_ok wk x \<longleftrightarrow> year_ok (xOpenNow x + second) \<and>
     (\<forall>n. year_ok (xRetryNow x + DelayAfterFailure (xRand x) (wBackoffBase wk) n (wMaxJitter wk)))"

lemma execute_body_split:
  obtains (unknown) ev where "Get (wCatalog wk) (tVerb task) = None"
      "wStore (execute_body ops wk x task w) =
         snd (sUpdateAndAudit ops (xStore x 0) (tID task) set_unknown_verb ev (wStore w))"
  | (refused) v ev where "Get (wCatalog wk) (tVerb task) = Some v"
      "\<not> admitted x v (tVerb task) (wCircuits w)"
      "wStore (execute_body ops wk x task w) =
         snd (sUpdateAndAudit ops (xStore x 0) (tID task) (set_circuit_open (xOpenNow x + second)) ev (wStore w))"
  | (run) v r where "Get (wCatalog wk) (tVerb task) = Some v" "admitted x v (tVerb task) (wCircuits w)"
      "execute_body ops wk x task w = run_attempt ops wk x v task (w\<lparr>wCircuits := r\<rparr>)"
proof (cases "Get (wCatalog wk) (tVerb task)")
  case None
  then show ?thesis by (intro unknown) (simp_all add: execute_body_def)
next
  case (Some v)
  show ?thesis
  proof (cases "wCircuits w")
    case None
    have eq: "w\<lparr>wCircuits := None\<rparr> = w" using None by simp
    have "execute_body ops wk x task w = run_attempt ops wk x v task (w\<lparr>wCircuits := None\<rparr>)"
      unfolding eq using Some None by (simp add: execute_body_def)
    with Some None show ?thesis by (intro run) (simp_all add: admitted_def)
  next
    case r: (Some r)
    obtain a r' where a: "on_breaker (tVerb task) (Allow (xAllow x) (xGrant x)) (snd (For (tVerb task) (verb_trip v) r)) = (a, r')"
      by (cases "on_breaker (tVerb task) (Allow (xAllow x) (xGrant x)) (snd (For (tVerb task) (verb_trip v) r))")
    show ?thesis
    proof (cases "a = Some False")
      case True
      then show ?thesis using Some r a
        by (intro refused [of v]) (simp_all add: execute_body_def admitted_def verb_trip_def Let_def)
    next
      case False
      then show ?thesis using Some r a
        by (intro run [of v "Some r'"]) (simp_all add: execute_body_def admitted_def verb_trip_def Let_def)
    qed
  qed
qed

context task_store begin

lemma execute_body_effect:
  assumes "inv (wStore w)" and "envs_ok x" and "view (wStore w) (tID task) = Some t"
    and "core t = core task" and "times_ok wk x"
  shows "inv (wStore (execute_body ops wk x task w)) \<and>
    keys (wStore (execute_body ops wk x task w)) = keys (wStore w) \<and>
    (\<exists>t' u. view (wStore (execute_body ops wk x task w)) = (view (wStore w))(tID task \<mapsto> t') \<and>
      core t' = core ((body_change wk x (wCircuits w) task task)\<lparr>tUpdatedAt := u\<rparr>))"
proof -
  have e: "env_ok (xStore x k)" for k using assms(2) by (simp add: envs_ok_def)
  have st: "storable t" using view_id [OF assms(1,3)] by simp
  have y: "year_ok (xOpenNow x + second)" "year_ok (retry_time wk x task)"
    using assms(5) by (simp_all add: times_ok_def retry_time_def)
  consider (unknown) ev where "Get (wCatalog wk) (tVerb task) = None"
      "wStore (execute_body ops wk x task w) =
         snd (sUpdateAndAudit ops (xStore x 0) (tID task) set_unknown_verb ev (wStore w))"
  | (refused) v ev where "Get (wCatalog wk) (tVerb task) = Some v"
      "\<not> admitted x v (tVerb task) (wCircuits w)"
      "wStore (execute_body ops wk x task w) =
         snd (sUpdateAndAudit ops (xStore x 0) (tID task) (set_circuit_open (xOpenNow x + second)) ev (wStore w))"
  | (run) v r where "Get (wCatalog wk) (tVerb task) = Some v" "admitted x v (tVerb task) (wCircuits w)"
      "execute_body ops wk x task w = run_attempt ops wk x v task (w\<lparr>wCircuits := r\<rparr>)"
    by (rule execute_body_split)
  then show ?thesis
  proof cases
    case unknown
    have "body_change wk x (wCircuits w) task = set_unknown_verb" using unknown(1) by (simp add: body_change_def)
    with step_update [OF assms(1) e assms(3) fair_set(4) [OF st] core_fun_set(5) assms(4)] show ?thesis
      unfolding unknown(2) by metis
  next
    case refused
    have "body_change wk x (wCircuits w) task = set_circuit_open (xOpenNow x + second)"
      using refused(1,2) by (simp add: body_change_def)
    with step_update [OF assms(1) e assms(3) fair_set(6) [OF st y(1)] core_fun_set(6) assms(4)] show ?thesis
      unfolding refused(3) by metis
  next
    case run
    have b: "body_change wk x (wCircuits w) task = attempt_change wk x v task"
      using run(1,2) by (simp add: body_change_def)
    have s: "(attempt_change wk x v task (set_executing task))\<lparr>tUpdatedAt := u\<rparr> =
        (attempt_change wk x v task task)\<lparr>tUpdatedAt := u\<rparr>" for u
      unfolding b [symmetric] set_executing_def by (rule body_change_touch)
    show ?thesis
      using run_attempt_effect [of "w\<lparr>wCircuits := r\<rparr>" x task t wk v] assms(1-4) y(2)
      unfolding run(3) b s by auto
  qed
qed

text \<open>Claiming and executing: nothing due, or one due task went through \<open>body_change\<close>.\<close>

lemma claim_execute_effect:
  assumes "inv (wStore w)" and "env_ok e1" and "envs_ok x" and "times_ok wk x"
  obtains (idle) w' where "claim_and_execute ops wk now e0 e1 x w = (False, w')"
      "inv (wStore w')" "view (wStore w') = view (wStore w)" "keys (wStore w') = keys (wStore w)"
      "wCircuits w' = wCircuits w"
      "\<forall>tid t. view (wStore w) tid = Some t \<longrightarrow> tState t \<noteq> StatePending"
      "fst (sClaimDue ops e1 now (wStore (w_drain ops e0 50 w))) = Inr None"
  | (ran) w' k t t' u where "claim_and_execute ops wk now e0 e1 x w = (True, w')"
      "inv (wStore w')" "keys (wStore w') = keys (wStore w)" "view (wStore w) (tID k) = Some t"
      "tState t = StatePending \<or> tState t = StateRetryScheduled"
      "view (wStore w') = (view (wStore w))(tID k \<mapsto> t')"
      "fst (sClaimDue ops e1 now (wStore (w_drain ops e0 50 w))) = Inr (Some k)"
      "core k = core (t\<lparr>tState := StateExecuting, tUpdatedAt := eNow e1\<rparr>)"
      "core t' = core ((body_change wk x (wCircuits w) t t)\<lparr>tUpdatedAt := u\<rparr>)"
proof -
  let ?w = "w_drain ops e0 50 w"
  have d: "view (wStore ?w) = view (wStore w)" "keys (wStore ?w) = keys (wStore w)" "inv (wStore ?w)"
    using drain [OF assms(1)] by simp_all
  obtain r s where c: "sClaimDue ops e1 now (wStore ?w) = (Inr r, s)" using claim_total [OF d(3) assms(2)] by blast
  show ?thesis
  proof (cases r)
    case None
    with claim_none [OF d(3) assms(2)] c have "s = wStore ?w"
      "\<forall>tid t. view (wStore ?w) tid = Some t \<longrightarrow> tState t \<noteq> StatePending" by blast+
    with None c d show ?thesis
      by (intro idle [of "?w\<lparr>wStore := s\<rparr>"]) (simp_all add: claim_and_execute_def Let_def)
  next
    case (Some k)
    note c = c [unfolded Some]
    obtain t t1 where t: "view (wStore ?w) (tID k) = Some t"
        "tState t = StatePending \<or> tState t = StateRetryScheduled" "inv s"
        "view s = (view (wStore ?w))(tID k \<mapsto> t1)" "keys s = keys (wStore ?w)"
        "core t1 = core (t\<lparr>tState := StateExecuting, tUpdatedAt := eNow e1\<rparr>)" "core k = core t1"
      using claim_some [OF d(3) assms(2) c] by blast
    let ?w1 = "?w\<lparr>wStore := s\<rparr>"
    have run: "claim_and_execute ops wk now e0 e1 x w = (True, execute ops wk x k ?w1)"
      using c by (simp add: claim_and_execute_def Let_def)
    have v1: "view (wStore ?w1) (tID k) = Some t1" using t(4) by simp
    obtain t' u where b: "inv (wStore (execute_body ops wk x k ?w1))"
        "keys (wStore (execute_body ops wk x k ?w1)) = keys (wStore ?w1)"
        "view (wStore (execute_body ops wk x k ?w1)) = (view (wStore ?w1))(tID k \<mapsto> t')"
        "core t' = core ((body_change wk x (wCircuits ?w1) k k)\<lparr>tUpdatedAt := u\<rparr>)"
      using execute_body_effect [OF _ assms(3) v1 t(7) [symmetric] assms(4)] t(3) by auto
    have "core ((body_change wk x (wCircuits w) k k)\<lparr>tUpdatedAt := u\<rparr>) =
        core ((body_change wk x (wCircuits w) t t)\<lparr>tUpdatedAt := u\<rparr>)"
    proof -
      let ?t = "t\<lparr>tState := StateExecuting, tUpdatedAt := eNow e1\<rparr>"
      have ck: "core k = core ?t" using t(6,7) by simp
      have "body_change wk x (wCircuits w) k = body_change wk x (wCircuits w) t"
        unfolding body_change_core [OF ck] by (rule body_change_state)
      moreover have "core (body_change wk x (wCircuits w) t k) = core (body_change wk x (wCircuits w) t ?t)"
        by (rule core_funD [OF core_fun_body ck])
      ultimately show ?thesis using core_touch body_change_touch(1) by metis
    qed
    with b d t c show ?thesis
      using drain [OF b(1), of "xStore x 4" _ 50]
      by (intro ran [OF run, where k = k and t = t and t' = t' and u = u]) (simp_all add: execute_def)
  qed
qed

end

subsection \<open>The outcome of an attempt\<close>

lemma outcome_ok: "fst (outcome_of r) = ''ok'' \<longleftrightarrow> is_ok r"
  by (simp add: outcome_of_def is_ok_def)

lemma attempt_ok:
  "is_ok (Run (xOS x) (task_argv task) (tStdinBlob task) (verb_timeout (wCatalog wk) v)) \<Longrightarrow>
   \<exists>ec out err res. attempt_change wk x v task = set_ok ec out err res \<and>
     out = worker_scrub (rStdout (Run (xOS x) (task_argv task) (tStdinBlob task)
       (verb_timeout (wCatalog wk) v))) (tStdinBlob task)"
  using outcome_ok [of "Run (xOS x) (task_argv task) (tStdinBlob task) (verb_timeout (wCatalog wk) v)"]
  by (simp add: attempt_change_def Let_def prod.case_eq_if) blast

lemma attempt_failed:
  assumes "\<not> is_ok (Run (xOS x) (task_argv task) (tStdinBlob task) (verb_timeout (wCatalog wk) v))"
  shows "\<exists>oc ec out err msg. attempt_change wk x v task =
      (if ShouldExhaust (tAttempt task) (effective_retries (wCatalog wk) task)
       then set_exhausted oc ec out err msg
       else set_retry oc ec out err msg (tAttempt task + 1) (retry_time wk x task)) \<and>
    oc \<noteq> ''ok'' \<and>
    out = worker_scrub (rStdout (Run (xOS x) (task_argv task) (tStdinBlob task)
       (verb_timeout (wCatalog wk) v))) (tStdinBlob task)"
proof -
  let ?r = "Run (xOS x) (task_argv task) (tStdinBlob task) (verb_timeout (wCatalog wk) v)"
  obtain oc msg where o: "outcome_of ?r = (oc, msg)" by (cases "outcome_of ?r")
  with assms outcome_ok [of ?r] have "oc \<noteq> ''ok''" by simp
  with o show ?thesis unfolding attempt_change_def Let_def retry_time_def by (simp split del: if_split) blast
qed

text \<open>What an execution leaves behind, by the way it ended.\<close>

lemma attempt_verdict:
  assumes "core t' = core ((body_change wk x circ t t)\<lparr>tUpdatedAt := u\<rparr>)"
  shows "\<forall>v. Get (wCatalog wk) (tVerb t) = Some v \<and> admitted x v (tVerb t) circ \<longrightarrow>
    (let res = Run (xOS x) (task_argv t) (tStdinBlob t) (verb_timeout (wCatalog wk) v)
     in tStdout t' = scrubOutput (rStdout res) (tStdinBlob t) \<and>
        (if is_ok res then
           tState t' = StateExecuted \<and> tLastOutcome t' = ''ok'' \<and> tNextRunAt t' = None \<and>
           tAttempt t' = tAttempt t
         else if tAttempt t < effective_retries (wCatalog wk) t then
           tState t' = StateRetryScheduled \<and> tAttempt t' = tAttempt t + 1 \<and>
           tNextRunAt t' = Some (retry_time wk x t)
         else tState t' = StateExhausted \<and> tNextRunAt t' = None \<and> tAttempt t' = tAttempt t))"
proof (intro allI impI)
  fix v assume v: "Get (wCatalog wk) (tVerb t) = Some v \<and> admitted x v (tVerb t) circ"
  let ?r = "Run (xOS x) (task_argv t) (tStdinBlob t) (verb_timeout (wCatalog wk) v)"
  note f = core_eqD [OF assms(1), simplified]
  have b: "body_change wk x circ t = attempt_change wk x v t" using v by (simp add: body_change_def)
  show "let res = ?r
     in tStdout t' = scrubOutput (rStdout res) (tStdinBlob t) \<and>
        (if is_ok res then
           tState t' = StateExecuted \<and> tLastOutcome t' = ''ok'' \<and> tNextRunAt t' = None \<and>
           tAttempt t' = tAttempt t
         else if tAttempt t < effective_retries (wCatalog wk) t then
           tState t' = StateRetryScheduled \<and> tAttempt t' = tAttempt t + 1 \<and>
           tNextRunAt t' = Some (retry_time wk x t)
         else tState t' = StateExhausted \<and> tNextRunAt t' = None \<and> tAttempt t' = tAttempt t)"
  proof (cases "is_ok ?r")
    case True
    with attempt_ok [of x t wk v] show ?thesis
      using f unfolding b by (auto simp: set_ok_def worker_scrub_eq Let_def)
  next
    case False
    with attempt_failed [of x t wk v] show ?thesis
      using f unfolding b
      by (auto simp: set_exhausted_def set_retry_def ShouldExhaust_def worker_scrub_eq Let_def)
  qed
qed

lemma error_verdict:
  assumes "core t' = core ((body_change wk x circ t t)\<lparr>tUpdatedAt := u\<rparr>)"
  shows "Get (wCatalog wk) (tVerb t) = None \<longrightarrow>
      tState t' = StateExhausted \<and> tError t' = ''unknown verb in catalog'' \<and> tAttempt t' = tAttempt t"
    and "\<forall>v. Get (wCatalog wk) (tVerb t) = Some v \<and> \<not> admitted x v (tVerb t) circ \<longrightarrow>
      tState t' = StateRetryScheduled \<and> tNextRunAt t' = Some (xOpenNow x + second) \<and>
      tError t' = ''circuit_open'' \<and> tAttempt t' = tAttempt t"
  using core_eqD [OF assms, simplified]
  by (simp_all add: body_change_def set_unknown_verb_def set_circuit_open_def)

text \<open>How many more times a worker may run a task.\<close>

definition credit :: "catalog \<Rightarrow> task \<Rightarrow> nat" where
  "credit cat t =
     (if active_state (tState t) then Suc (nat (effective_retries cat t - tAttempt t)) else 0)"

lemma credit_core: "core a = core b \<Longrightarrow> credit cat a = credit cat b"
  using core_eqD(3,4,5) [of a b] by (simp add: credit_def effective_retries_def)

lemma credit_touch [simp]: "credit cat (t\<lparr>tUpdatedAt := u\<rparr>) = credit cat t"
  by (simp add: credit_def effective_retries_def)

lemma credit_change:
  assumes "active_state (tState t)"
  shows "credit (wCatalog wk) (body_change wk x circ t t) +
    (case Get (wCatalog wk) (tVerb t) of
       None \<Rightarrow> 0 | Some v \<Rightarrow> if admitted x v (tVerb t) circ then 1 else 0) \<le> credit (wCatalog wk) t"
proof (cases "Get (wCatalog wk) (tVerb t)")
  case None
  then show ?thesis by (simp add: body_change_def set_unknown_verb_def credit_def)
next
  case (Some v)
  show ?thesis
  proof (cases "admitted x v (tVerb t) circ")
    case False
    with Some assms show ?thesis
      by (simp add: body_change_def set_circuit_open_def credit_def effective_retries_def)
  next
    case True
    let ?r = "Run (xOS x) (task_argv t) (tStdinBlob t) (verb_timeout (wCatalog wk) v)"
    show ?thesis
    proof (cases "is_ok ?r")
      case ok: True
      from attempt_ok [OF ok] show ?thesis using Some True assms
        by (auto simp: body_change_def set_ok_def credit_def)
    next
      case False
      from attempt_failed [OF False] show ?thesis using Some True assms
        by (auto simp: body_change_def set_exhausted_def set_retry_def credit_def ShouldExhaust_def
            effective_retries_def)
    qed
  qed
qed

subsection \<open>The polling loop\<close>

text \<open>The task whose child process a tick runs, and those of a whole loop.\<close>

definition child_of :: "'s store_ops \<Rightarrow> worker \<Rightarrow> tick_input \<Rightarrow> 's wstate \<Rightarrow> string option" where
  "child_of ops wk inp w =
     (case inp of (now, e0, e1, x) \<Rightarrow>
        (case fst (sClaimDue ops e1 now (wStore (w_drain ops e0 50 w))) of
           Inr (Some k) \<Rightarrow>
             (case Get (wCatalog wk) (tVerb k) of
                None \<Rightarrow> None
              | Some v \<Rightarrow> if admitted x v (tVerb k) (wCircuits w) then Some (tID k) else None)
         | _ \<Rightarrow> None))"

definition do_tick :: "'s store_ops \<Rightarrow> worker \<Rightarrow> tick_input \<Rightarrow> 's wstate \<Rightarrow> 's wstate" where
  "do_tick ops wk inp w = (case inp of (now, e0, e1, x) \<Rightarrow> tick ops wk now e0 e1 x w)"

fun children :: "'s store_ops \<Rightarrow> worker \<Rightarrow> tick_input list \<Rightarrow> 's wstate \<Rightarrow> string option list" where
  "children ops wk [] w = []"
| "children ops wk (inp # ins) w = child_of ops wk inp w # children ops wk ins (do_tick ops wk inp w)"

definition tick_ok :: "worker \<Rightarrow> tick_input \<Rightarrow> bool" where
  "tick_ok wk inp = (case inp of (now, e0, e1, x) \<Rightarrow> env_ok e1 \<and> envs_ok x \<and> times_ok wk x)"

lemma RunLoop_ticks: "RunLoop ops wk ins w = fold (do_tick ops (worker_defaults wk)) ins w"
proof -
  have "do_tick ops (worker_defaults wk) = (\<lambda>(now, e0, e1, x) w. tick ops (worker_defaults wk) now e0 e1 x w)"
    by (auto simp: fun_eq_iff do_tick_def)
  then show ?thesis by (simp add: RunLoop_def)
qed

definition credit_of :: "catalog \<Rightarrow> task option \<Rightarrow> nat" where
  "credit_of cat o' = (case o' of None \<Rightarrow> 0 | Some t \<Rightarrow> credit cat t)"

context task_store begin

lemma do_tick_budget:
  assumes "inv (wStore w)" and "tick_ok wk inp"
  shows "inv (wStore (do_tick ops wk inp w)) \<and>
    (if child_of ops wk inp w = Some tid then 1 else 0) +
      credit_of (wCatalog wk) (view (wStore (do_tick ops wk inp w)) tid) \<le>
    credit_of (wCatalog wk) (view (wStore w) tid)"
proof -
  obtain now e0 e1 x where inp: "inp = (now, e0, e1, x)" by (cases inp)
  with assms(2) have e: "env_ok e1" "envs_ok x" "times_ok wk x" by (simp_all add: tick_ok_def)
  show ?thesis
  proof (cases rule: claim_execute_effect [OF assms(1) e, of now e0, case_names idle ran])
    case (idle w')
    then show ?thesis by (simp add: inp do_tick_def tick_def child_of_def)
  next
    case (ran w' k t t' u)
    have ck: "tVerb k = tVerb t" "tID k = tID t" using core_eqD(1,2) [OF ran(8)] by simp_all
    have act: "active_state (tState t)" using ran(5) by auto
    have "credit (wCatalog wk) t' = credit (wCatalog wk) (body_change wk x (wCircuits w) t t)"
      using credit_core [OF ran(9)] by simp
    then have le: "credit (wCatalog wk) t' + (if child_of ops wk inp w = Some (tID k) then 1 else 0) \<le>
        credit (wCatalog wk) t"
      using credit_change [OF act, of wk x "wCircuits w"] ran(7) ck(1)
      by (simp add: inp child_of_def split: option.splits if_splits)
    have only: "tid = tID k" if "child_of ops wk inp w = Some tid"
      using that ran(7) by (simp add: inp child_of_def split: option.splits if_splits)
    show ?thesis
    proof (cases "tid = tID k")
      case True
      with le ran show ?thesis by (simp add: inp do_tick_def tick_def credit_of_def)
    next
      case False
      with only ran show ?thesis by (auto simp: inp do_tick_def tick_def credit_of_def)
    qed
  qed
qed

lemma children_budget:
  assumes "inv (wStore w)" and "\<forall>inp \<in> set ins. tick_ok wk inp"
  shows "count_list (children ops wk ins w) (Some tid) +
      credit_of (wCatalog wk) (view (wStore (fold (do_tick ops wk) ins w)) tid) \<le>
    credit_of (wCatalog wk) (view (wStore w) tid)"
  using assms
proof (induction ins arbitrary: w)
  case Nil
  then show ?case by simp
next
  case (Cons inp ins)
  have b: "inv (wStore (do_tick ops wk inp w))"
    "(if child_of ops wk inp w = Some tid then 1 else 0) +
      credit_of (wCatalog wk) (view (wStore (do_tick ops wk inp w)) tid) \<le>
    credit_of (wCatalog wk) (view (wStore w) tid)"
    using do_tick_budget [OF Cons.prems(1), of wk inp tid] Cons.prems(2) by simp_all
  from Cons.IH [OF b(1)] Cons.prems(2) b(2) show ?case by (auto split: if_splits)
qed

end

subsection \<open>Properties\<close>

lemma worker_defaults_catalog [simp]: "wCatalog (worker_defaults wk) = wCatalog wk"
  by (simp add: worker_defaults_def Let_def)

lemma mem_drain [simp]: "wStore (w_drain memory_ops e lim w) = wStore w"
  by (simp add: mem_DrainOutbox_def)

lemma mem_update_exact:
  "mem_view m tid = Some t \<Longrightarrow>
   mem_view (snd (mem_UpdateAndAudit e tid fn ev m)) = (mem_view m)(tid \<mapsto> (fn t)\<lparr>tUpdatedAt := eNow e\<rparr>)"
  by (simp add: mem_UpdateAndAudit_def mem_view_def mirror_def mem_record_def Let_def update_conv'
      split: option.split prod.split)

lemma run_once_memory:
  assumes "mem_ok (wStore w)" and "env_ok e1" and "envs_ok x" and "times_ok (worker_defaults wk) x"
    and "RunOnce memory_ops wk now e0 e1 x w = (True, w')"
  shows "\<exists>t t' u. mem_view (wStore w) (tID t) = Some t \<and> due now t \<and>
    (\<forall>tid r. mem_view (wStore w) tid = Some r \<and> due now r \<longrightarrow> \<not> older r t) \<and>
    mem_ok (wStore w') \<and> mem_view (wStore w') = (mem_view (wStore w))(tID t \<mapsto> t') \<and>
    core t' = core ((body_change (worker_defaults wk) x (wCircuits w) t t)\<lparr>tUpdatedAt := u\<rparr>)"
proof (cases rule: mem.claim_execute_effect [OF assms(1-4), of now e0, case_names idle ran])
  case (idle w'')
  with assms(5) show ?thesis by (simp add: RunOnce_def)
next
  case (ran w'' k t t' u)
  have w: "w'' = w'" using ran(1) assms(5) by (simp add: RunOnce_def)
  obtain s where s: "mem_ClaimDue e1 now (wStore w) = (Inr (Some k), s)"
    using ran(7) by (metis memory_ops_simps(6) mem_drain prod.collapse)
  from mem_claim_some [OF assms(1) s] ran(4)
  have "due now t \<and> (\<forall>tid r. mem_view (wStore w) tid = Some r \<and> due now r \<longrightarrow> \<not> older r t)" by auto
  moreover have "tID k = tID t" using mem.view_id [OF assms(1) ran(4)] by simp
  ultimately show ?thesis using ran unfolding w by metis
qed

text \<open>
  On the memory store: What one round of the worker does. When \<open>RunOnce\<close> reports that it executed a task, it took
  the oldest due one and changed no other. If the catalog knows the verb and the breaker admits it,
  a successful child makes the task \<open>executed\<close>; a failing one schedules a retry with the next
  attempt number at the backoff time while the attempts made so far are below the limit, and else
  exhausts the task. The output kept with the task is the scrubbed one.
\<close>

theorem worker_attempt_outcome:
  assumes "mem_ok (wStore w)" and "env_ok e1" and "envs_ok x" and "times_ok (worker_defaults wk) x"
    and "RunOnce memory_ops wk now e0 e1 x w = (True, w')"
  shows "\<exists>t t'. mem_view (wStore w) (tID t) = Some t \<and> due now t \<and>
    (\<forall>tid r. mem_view (wStore w) tid = Some r \<and> due now r \<longrightarrow> \<not> older r t) \<and>
    mem_view (wStore w') = (mem_view (wStore w))(tID t \<mapsto> t') \<and>
    (\<forall>v. Get (wCatalog wk) (tVerb t) = Some v \<and> admitted x v (tVerb t) (wCircuits w) \<longrightarrow>
       (let res = Run (xOS x) (task_argv t) (tStdinBlob t) (verb_timeout (wCatalog wk) v)
        in tStdout t' = scrubOutput (rStdout res) (tStdinBlob t) \<and>
           (if is_ok res then
              tState t' = StateExecuted \<and> tLastOutcome t' = ''ok'' \<and> tNextRunAt t' = None \<and>
              tAttempt t' = tAttempt t
            else if tAttempt t < effective_retries (wCatalog wk) t then
              tState t' = StateRetryScheduled \<and> tAttempt t' = tAttempt t + 1 \<and>
              tNextRunAt t' = Some (retry_time (worker_defaults wk) x t)
            else tState t' = StateExhausted \<and> tNextRunAt t' = None \<and> tAttempt t' = tAttempt t)))"
proof -
  obtain t t' u where t: "mem_view (wStore w) (tID t) = Some t" "due now t"
      "\<forall>tid r. mem_view (wStore w) tid = Some r \<and> due now r \<longrightarrow> \<not> older r t"
      "mem_view (wStore w') = (mem_view (wStore w))(tID t \<mapsto> t')"
      "core t' = core ((body_change (worker_defaults wk) x (wCircuits w) t t)\<lparr>tUpdatedAt := u\<rparr>)"
    using run_once_memory [OF assms] by blast
  note v = attempt_verdict [OF t(5), unfolded worker_defaults_catalog]
  show ?thesis by (rule exI [of _ t], rule exI [of _ t'], intro conjI t(1-4) v)
qed

subsection \<open>A concrete worker\<close>

definition demo_task :: task where
  "demo_task = (new_task (clock_env 0 ''a'') \<lparr>ciVerb = ''wifi.info'', ciArgsJSON = ''{}'',
     ciArgv = [''termux-wifi-connectioninfo''], ciArgvRedacted = [''termux-wifi-connectioninfo''],
     ciStdin = [], ciMaxRetries = 2\<rparr>)\<lparr>tState := StatePending\<rparr>"

definition demo_os :: "bool \<Rightarrow> os" where
  "demo_os good = (\<lambda>argv stdin timeout.
     \<lparr>chStdout = ''{}'', chStderr = [], chDeadline = False,
      chError = (if good then None else Some (''exit status 1'', Some 1))\<rparr>)"

definition demo_exec :: "bool \<Rightarrow> exec_env" where
  "demo_exec good = \<lparr>xOS = demo_os good, xAllow = 0, xGrant = 0, xOpenNow = 0, xStart = 0, xEnd = 0,
     xFail = 0, xRetryNow = 0, xRand = 0, xStore = (\<lambda>k. clock_env 0 ''s'')\<rparr>"

definition demo_state :: "task \<Rightarrow> memory wstate" where
  "demo_state t = \<lparr>wStore = \<lparr>mTasks = [(''a'', t)], mAudit = [], mIdem = [], mLogger = None\<rparr>,
     wCircuits = None, wLog = None, wNotifier = LogNotifier []\<rparr>"

definition demo_worker :: worker where
  "demo_worker = \<lparr>wCatalog = wifi_catalog, wBackoffBase = 0, wMaxJitter = 0\<rparr>"

lemma delay_range:
  assumes "0 < mj" and "mj \<le> 1000 * second"
  shows "0 \<le> DelayAfterFailure rnd base n mj \<and> DelayAfterFailure rnd base n mj \<le> 2000 * second"
proof -
  define d where "d = min (max 0 base * 2 ^ nat n) MaxDelay"
  have "is64 MaxDelay" by (simp add: MaxDelay_value int64_defs)
  from DelayAfterFailureCapped_closed [OF this, of rnd base n mj] assms
  have eq: "DelayAfterFailure rnd base n mj = wrap64 (d + jitter rnd mj)"
    by (simp add: DelayAfterFailure_def Let_def d_def MaxDelay_value)
  have "0 \<le> d" "d \<le> 300000000000" by (simp_all add: d_def MaxDelay_value)
  with jitter_bounds [of rnd mj] assms
  have r: "0 \<le> d + jitter rnd mj" "d + jitter rnd mj \<le> 2000 * second" by (simp_all add: second_def)
  then have "is64 (d + jitter rnd mj)" by (simp add: int64_defs second_def)
  with r show ?thesis unfolding eq by (simp add: wrap64_id)
qed

lemma times_ok_range:
  assumes "0 \<le> xOpenNow x" and "xOpenNow x \<le> 10000000000000000000"
    and "0 \<le> xRetryNow x" and "xRetryNow x \<le> 10000000000000000000"
    and "0 < wMaxJitter wk" and "wMaxJitter wk \<le> 1000 * second"
  shows "times_ok wk x"
  using assms(1-4) delay_range [OF assms(5,6)]
  by (auto simp: times_ok_def second_def intro!: year_ok_range add_nonneg_nonneg)
    (smt (verit) delay_range assms(5,6) second_def)

lemma demo_times: "times_ok (worker_defaults demo_worker) (demo_exec good)"
  by (rule times_ok_range)
    (simp_all add: demo_exec_def worker_defaults_def demo_worker_def Let_def duration_defs)

lemma demo_envs: "envs_ok (demo_exec good)" "env_ok (clock_env 0 ''e'')"
  by (simp_all add: envs_ok_def demo_exec_def env_ok_clock year_ok_0)

lemma demo_mem_ok: "storable t \<Longrightarrow> tID t = ''a'' \<Longrightarrow> mem_ok (wStore (demo_state t))"
  by (simp add: mem_ok_def demo_state_def wf_map_def)

lemma demo_task_simps [simp]:
  "tID demo_task = ''a''" "tVerb demo_task = ''wifi.info''" "tState demo_task = StatePending"
  "tAttempt demo_task = 0" "tMaxRetries demo_task = 2" "tStdinBlob demo_task = []"
  "tNextRunAt demo_task = None"
  by (simp_all add: demo_task_def new_task_def clock_env_def)

lemma demo_storable: "storable demo_task"
  by (simp add: demo_task_def storable_def new_task_def clock_env_def year_ok_0)

lemma demo_argv: "task_argv demo_task = [''termux-wifi-connectioninfo'']"
  by code_simp

lemma demo_get: "Get wifi_catalog ''wifi.info'' = Some wifi_verb"
  by code_simp

lemma demo_ok: "is_ok (Run (demo_os good) (task_argv demo_task) [] d) = good"
  by (simp add: demo_argv Run_def demo_os_def is_ok_def Let_def)

lemma demo_retries [simp]: "effective_retries cat demo_task = 2" "xOS (demo_exec good) = demo_os good"
  by (simp_all add: effective_retries_def demo_exec_def)

lemma demo_claims:
  "due 0 t \<Longrightarrow> fst (RunOnce memory_ops wk 0 e0 e1 x (demo_state t))"
  by (simp add: RunOnce_def claim_and_execute_def Let_def demo_state_def mem_ClaimDue_def
      pick_due_def pick_step_def mem_DrainOutbox_def w_drain_def)

lemma demo_run: "due 0 t \<Longrightarrow> \<exists>w'. RunOnce memory_ops wk 0 e0 e1 x (demo_state t) = (True, w')"
  using demo_claims [of t wk e0 e1 x] by (cases "RunOnce memory_ops wk 0 e0 e1 x (demo_state t)") auto

lemma demo_view: "mem_view (wStore (demo_state t)) = [''a'' \<mapsto> t]"
  by (simp add: mem_view_def demo_state_def)

theorem worker_attempt_outcome_witness:
  "\<exists>w' t'. RunOnce memory_ops demo_worker 0 (clock_env 0 ''e'') (clock_env 0 ''e'') (demo_exec False)
      (demo_state demo_task) = (True, w') \<and>
    mem_view (wStore w') ''a'' = Some t' \<and> tState t' = StateRetryScheduled \<and> tAttempt t' = 1"
proof -
  let ?w = "demo_state demo_task"
  obtain w' where w': "RunOnce memory_ops demo_worker 0 (clock_env 0 ''e'') (clock_env 0 ''e'')
      (demo_exec False) ?w = (True, w')"
    using demo_run [of demo_task demo_worker "clock_env 0 ''e''" "clock_env 0 ''e''" "demo_exec False"]
    by (auto simp: due_def)
  have one: "t = demo_task" if "mem_view (wStore ?w) (tID t) = Some t" for t
    using that by (simp add: demo_view split: if_splits)
  have adm: "admitted (demo_exec False) wifi_verb verb (wCircuits ?w)" for verb
    by (simp add: admitted_def demo_state_def)
  have get: "Get (wCatalog demo_worker) (tVerb demo_task) = Some wifi_verb"
    by (simp add: demo_worker_def demo_get)
  have "\<exists>t'. mem_view (wStore w') ''a'' = Some t' \<and> tState t' = StateRetryScheduled \<and> tAttempt t' = 1"
    using worker_attempt_outcome [OF demo_mem_ok [OF demo_storable demo_task_simps(1)] demo_envs(2)
      demo_envs(1) demo_times w']
    apply (elim exE conjE)
    apply (drule one)
    apply (drule spec [of _ wifi_verb])
    apply (simp add: adm get [simplified] Let_def demo_ok demo_retries)
    done
  with w' show ?thesis by blast
qed

text \<open>
  On the memory store: The retry budget: however many rounds the polling loop makes, with whatever clocks, breakers,
  outcomes and other tasks around it, it runs a child process for a task at most
  \<open>limit - attempts made + 1\<close> times, and never for a task in a final state.
\<close>

theorem worker_retry_budget:
  assumes "mem_ok (wStore w)" and "\<forall>inp \<in> set ins. tick_ok (worker_defaults wk) inp"
  shows "count_list (children memory_ops (worker_defaults wk) ins w) (Some tid) \<le>
    (case mem_view (wStore w) tid of
       None \<Rightarrow> 0
     | Some t \<Rightarrow>
         if active_state (tState t)
         then Suc (nat (effective_retries (wCatalog wk) t - tAttempt t)) else 0)"
  using mem.children_budget [OF assms, of tid]
  by (auto simp: credit_of_def credit_def split: option.splits)

theorem worker_retry_budget_witness:
  "count_list (children memory_ops (worker_defaults demo_worker)
     (replicate 100 (10 ^ 18, clock_env 0 ''e'', clock_env 0 ''e'', demo_exec False)) (demo_state demo_task))
     (Some ''a'') \<le> 3"
proof -
  have "\<forall>inp \<in> set (replicate 100 (10 ^ 18, clock_env 0 ''e'', clock_env 0 ''e'', demo_exec False)).
      tick_ok (worker_defaults demo_worker) inp"
    by (simp add: tick_ok_def demo_envs demo_times)
  from worker_retry_budget [OF demo_mem_ok [OF demo_storable demo_task_simps(1)] this, of "''a''"]
  show ?thesis by (simp add: demo_view)
qed

text \<open>
  On the memory store: The two ways an execution ends without a child process. A task whose verb has left the
  catalog is exhausted at once, with an error text and no attempt counted; a task whose breaker
  refuses is put back, due one second later, with no attempt counted either.
\<close>

theorem worker_error_paths:
  assumes "mem_ok (wStore w)" and "env_ok e1" and "envs_ok x" and "times_ok (worker_defaults wk) x"
    and "RunOnce memory_ops wk now e0 e1 x w = (True, w')"
  shows "\<exists>t t'. mem_view (wStore w) (tID t) = Some t \<and> due now t \<and>
    mem_view (wStore w') = (mem_view (wStore w))(tID t \<mapsto> t') \<and>
    (Get (wCatalog wk) (tVerb t) = None \<longrightarrow>
       tState t' = StateExhausted \<and> tError t' = ''unknown verb in catalog'' \<and> tAttempt t' = tAttempt t) \<and>
    (\<forall>v. Get (wCatalog wk) (tVerb t) = Some v \<and> \<not> admitted x v (tVerb t) (wCircuits w) \<longrightarrow>
       tState t' = StateRetryScheduled \<and> tNextRunAt t' = Some (xOpenNow x + second) \<and>
       tError t' = ''circuit_open'' \<and> tAttempt t' = tAttempt t)"
proof -
  obtain t t' u where t: "mem_view (wStore w) (tID t) = Some t" "due now t"
      "mem_view (wStore w') = (mem_view (wStore w))(tID t \<mapsto> t')"
      "core t' = core ((body_change (worker_defaults wk) x (wCircuits w) t t)\<lparr>tUpdatedAt := u\<rparr>)"
    using run_once_memory [OF assms] by blast
  note v = error_verdict [OF t(4), unfolded worker_defaults_catalog]
  show ?thesis by (rule exI [of _ t], rule exI [of _ t'], intro conjI t(1-3) v)
qed

theorem worker_error_paths_witness:
  "\<exists>w' t'. RunOnce memory_ops demo_worker 0 (clock_env 0 ''e'') (clock_env 0 ''e'') (demo_exec True)
      (demo_state (demo_task\<lparr>tVerb := ''nosuch''\<rparr>)) = (True, w') \<and>
    mem_view (wStore w') ''a'' = Some t' \<and> tState t' = StateExhausted"
proof -
  let ?t = "demo_task\<lparr>tVerb := ''nosuch''\<rparr>"
  let ?w = "demo_state ?t"
  obtain w' where w': "RunOnce memory_ops demo_worker 0 (clock_env 0 ''e'') (clock_env 0 ''e'')
      (demo_exec True) ?w = (True, w')"
    using demo_run [of ?t demo_worker "clock_env 0 ''e''" "clock_env 0 ''e''" "demo_exec True"]
    by (auto simp: due_def)
  have one: "t = ?t" if "mem_view (wStore ?w) (tID t) = Some t" for t
    using that by (simp add: demo_view split: if_splits)
  have get: "Get (wCatalog demo_worker) ''nosuch'' = None" by code_simp
  have st: "storable ?t" using demo_storable by (simp add: storable_def)
  have "\<exists>t'. mem_view (wStore w') ''a'' = Some t' \<and> tState t' = StateExhausted"
    using worker_error_paths [OF demo_mem_ok [OF st] demo_envs(2) demo_envs(1) demo_times w']
    apply (simp (no_asm_use))
    apply (elim exE conjE)
    apply (drule one)
    apply (simp add: get)
    done
  with w' show ?thesis by blast
qed

text \<open>
  C38: A task whose verb parses JSON keeps the parsed output of its child even when the text itself
  is withheld because it echoes the stdin body: the secret is then stored, and served, in the
  result field.
\<close>

theorem result_leaks_stdin:
  assumes "mem_view (wStore w) (tID task) = Some task" and "task_argv task \<noteq> []" and "json_parser v"
    and "tStdinBlob task \<noteq> []"
    and "xOS x (task_argv task) (tStdinBlob task) (verb_timeout (wCatalog wk) v) =
      \<lparr>chStdout = tStdinBlob task, chStderr = [], chDeadline = False, chError = None\<rparr>"
    and "length (tStdinBlob task) \<le> MaxCapture" and "fst (ParseJSON (tStdinBlob task)) = VStr s"
  shows "\<exists>t. mem_view (wStore (run_attempt memory_ops wk x v task w)) (tID task) = Some t \<and>
    tStdout t = RedactedMarker \<and> tResult t = VStr s"
proof -
  let ?r = "Run (xOS x) (task_argv task) (tStdinBlob task) (verb_timeout (wCatalog wk) v)"
  have r: "rStdout ?r = tStdinBlob task" "is_ok ?r"
    using assms(2,5,6) by (simp_all add: Run_def Let_def truncate_out_def is_ok_def)
  have o: "outcome_of ?r = (''ok'', [])" using r(2) by (auto simp: outcome_of_def is_ok_def)
  have "str_contains (tStdinBlob task) (tStdinBlob task)"
    using str_contains_appendI [of "[]" "tStdinBlob task" "[]"] by simp
  then have out: "worker_scrub (rStdout ?r) (tStdinBlob task) = RedactedMarker"
    using assms(4) r(1) by (simp add: worker_scrub_eq scrubOutput_def)
  show ?thesis
    using assms(1,3,7) out by (simp add: run_attempt_def Let_def o r(1) mem_update_exact mem_RecordAttempt_def
        set_executing_def set_ok_def)
qed

definition echo_task :: task where
  "echo_task = demo_task\<lparr>tStdinBlob := [quote] @ ''pin 1234'' @ [quote]\<rparr>"

definition echo_exec :: exec_env where
  "echo_exec = (demo_exec True)\<lparr>xOS := \<lambda>argv stdin timeout.
     \<lparr>chStdout = stdin, chStderr = [], chDeadline = False, chError = None\<rparr>\<rparr>"

theorem result_leaks_stdin_witness:
  "\<exists>t. mem_view (wStore (run_attempt memory_ops demo_worker echo_exec wifi_verb echo_task (demo_state echo_task))) ''a'' = Some t \<and>
     tStdout t = RedactedMarker \<and> tResult t = VStr ''pin 1234''"
proof -
  have id: "tID echo_task = ''a''" by (simp add: echo_task_def)
  have "mem_view (wStore (demo_state echo_task)) (tID echo_task) = Some echo_task" by (simp add: demo_view id)
  moreover have "task_argv echo_task \<noteq> []" using demo_argv by (simp add: echo_task_def task_argv_def)
  moreover have "json_parser wifi_verb" by (simp add: json_parser_def wifi_verb_def ParserJSON_def)
  moreover have "fst (ParseJSON (tStdinBlob echo_task)) = VStr ''pin 1234''" by code_simp
  ultimately show ?thesis
    unfolding id [symmetric] by (intro result_leaks_stdin) (simp_all add: echo_task_def echo_exec_def MaxCapture_def)
qed

end
