(* ===== verification/Catalog_View.thy ===== *)
theory Catalog_View
  imports Verbs "HOL-Library.Product_Lexorder"
begin

text \<open>
  \<open>internal/api/catalog.go\<close>: the progressive disclosure of the verb catalog: listing at three levels
  of detail, the full entry of one verb, and ranked search. A \<open>map[string]any\<close> that becomes a JSON
  object is a \<open>VMap\<close>; search hits are records.
\<close>

definition DetailNames :: string where "DetailNames = ''names''"
definition DetailSummary :: string where "DetailSummary = ''summary''"
definition DetailFull :: string where "DetailFull = ''full''"

lemmas detail_defs = DetailNames_def DetailSummary_def DetailFull_def

definition normalizeDetail :: "string \<Rightarrow> string" where
  "normalizeDetail d =
     (let s = to_lower (trim_space d)
      in if s = [] \<or> s = DetailSummary then DetailSummary
         else if s = DetailNames \<or> s = ''name'' then DetailNames
         else if s = DetailFull \<or> s = ''all'' then DetailFull
         else [])"

text \<open>The middle dot that separates the parts of a summary.\<close>

definition summary_sep :: string where
  "summary_sep = [CHR '' '', CHR 0xC2, CHR 0xB7, CHR '' '']"

definition verbSummaryLine :: "verb \<Rightarrow> string" where
  "verbSummaryLine v =
     str_join
       ([vTier v] @
        (case vStdinArg v of None \<Rightarrow> [] | Some a \<Rightarrow> [''stdin:'' @ a]) @
        (if vArgs v = [] then []
         else [''args:'' @
           str_join (map (\<lambda>a. if aRequired a then aName a @ ''*'' else aName a) (vArgs v)) '','']) @
        (if isStreamVerb v then [''stream''] else []) @
        (case vArgv v of [] \<Rightarrow> [] | b # _ \<Rightarrow> [b]))
       summary_sep"

definition verbNamesOnly :: "catalog \<Rightarrow> string list" where
  "verbNamesOnly cat = Order cat"

definition verbSummaryEntry :: "verb \<Rightarrow> goval" where
  "verbSummaryEntry v =
     VMap [(''name'', VStr (vName v)), (''tier'', VStr (vTier v)),
           (''summary'', VStr (verbSummaryLine v)), (''stream'', VBool (isStreamVerb v))]"

text \<open>The value in the \<open>Watch\<close> field: a struct marshals under its Go field names.\<close>

definition watch_value :: "watch_any \<Rightarrow> goval" where
  "watch_value w =
     (case w of
        WAny v \<Rightarrow> v
      | WStruct ww \<Rightarrow> VMap [(''Mode'', VStr (wMode ww)), (''Buffer'', VInt (wBuffer ww))]
      | WPtr None \<Rightarrow> VNil
      | WPtr (Some ww) \<Rightarrow> VMap [(''Mode'', VStr (wMode ww)), (''Buffer'', VInt (wBuffer ww))])"

definition verbFullEntry :: "verb \<Rightarrow> goval" where
  "verbFullEntry v =
     VMap
       ([(''name'', VStr (vName v)), (''tier'', VStr (vTier v)),
         (''argv'', if vArgv v = [] then VNil else VList (map VStr (vArgv v))),
         (''parser'', VStr (vParser v)), (''watch'', watch_value (vWatch v))] @
        (if vArgs v = [] then []
         else [(''args'', VList (map (\<lambda>a.
                  VMap [(''name'', VStr (aName a)), (''flag'', VStr (aFlag a)),
                        (''type'', VStr (aType a)), (''required'', VBool (aRequired a))]) (vArgs v)))]) @
        (case vStdinArg v of None \<Rightarrow> [] | Some a \<Rightarrow> [(''stdin_arg'', VMap [(''arg'', VStr a)])]) @
        (if vTimeoutS v > 0 then [(''timeout_s'', VInt (vTimeoutS v))] else []) @
        (case vRetries v of None \<Rightarrow> [] | Some n \<Rightarrow> [(''retries'', VInt n)]) @
        (case vCBThreshold v of None \<Rightarrow> [] | Some n \<Rightarrow> [(''circuit_breaker_threshold'', VInt n)]))"

text \<open>\<open>cat.ByName[name]\<close>: the zero verb when absent.\<close>

definition zero_verb :: verb where
  "zero_verb = \<lparr>vName = [], vTier = [], vArgv = [], vArgs = [], vStdinArg = None, vTimeoutS = 0,
     vRetries = None, vRetryBackoff = [], vCBThreshold = None, vParser = [], vWatch = WAny VNil\<rparr>"

definition by_name :: "catalog \<Rightarrow> string \<Rightarrow> verb" where
  "by_name cat name = (case map_of (ByName cat) name of None \<Rightarrow> zero_verb | Some v \<Rightarrow> v)"

definition listVerbsDetail :: "catalog \<Rightarrow> string \<Rightarrow> goval option" where
  "listVerbsDetail cat detail =
     (let d = normalizeDetail detail
      in if d = [] then None
         else if d = DetailNames then
           Some (VMap [(''detail'', VStr DetailNames), (''count'', VInt (int (length (Order cat)))),
                       (''verbs'', VList (map VStr (verbNamesOnly cat)))])
         else if d = DetailSummary then
           (let vs = map (\<lambda>n. verbSummaryEntry (by_name cat n)) (Order cat)
            in Some (VMap [(''detail'', VStr DetailSummary), (''count'', VInt (int (length vs))),
                           (''verbs'', VList vs)]))
         else
           (let vs = map (\<lambda>n. verbFullEntry (by_name cat n)) (Order cat)
            in Some (VMap [(''detail'', VStr DetailFull), (''count'', VInt (int (length vs))),
                           (''verbs'', VList vs)])))"

subsection \<open>Search\<close>

record search_hit =
  hName :: string
  hTier :: string
  hSummary :: string
  hScore :: int
  hStream :: bool

record search_result =
  srQuery :: string
  srLimit :: int
  srTotal :: nat
  srHits :: "search_hit list"

definition hay_of :: "verb \<Rightarrow> string" where
  "hay_of v =
     to_lower (vName v) @
     (case vArgv v of
        [] \<Rightarrow> []
      | b # _ \<Rightarrow> '' '' @ to_lower b @ '' '' @ trim_prefix (to_lower b) ''termux-'') @
     concat (map (\<lambda>a. '' '' @ to_lower (aName a)) (vArgs v)) @
     (case vStdinArg v of None \<Rightarrow> [] | Some a \<Rightarrow> '' '' @ to_lower a)"

definition token_score :: "string \<Rightarrow> string \<Rightarrow> string \<Rightarrow> int" where
  "token_score name hay tok =
     (if tok = [] then 0
      else if str_contains name tok then 15
      else if str_contains hay tok then 8
      else 0)"

definition scoreVerb :: "verb \<Rightarrow> string \<Rightarrow> string list \<Rightarrow> int" where
  "scoreVerb v q tokens =
     (let name = to_lower (vName v);
          score = (if name = q then 100 else 0);
          score = (if has_prefix name q then score + 40 else score);
          score = (if str_contains name q then score + 25 else score);
          hay = hay_of v
      in fold (\<lambda>tok s. s + token_score name hay tok) tokens score)"

definition search_sep :: "char \<Rightarrow> bool" where
  "search_sep c \<longleftrightarrow> c \<in> set '' ._-/''"

definition hit_of :: "verb \<Rightarrow> int \<Rightarrow> search_hit" where
  "hit_of v score =
     \<lparr>hName = vName v, hTier = vTier v, hSummary = verbSummaryLine v, hScore = score,
      hStream = isStreamVerb v\<rparr>"

text \<open>The ranking of \<open>sort.SliceStable\<close>: higher scores first, then by name.\<close>

definition rank :: "search_hit \<Rightarrow> int \<times> string" where
  "rank h = (- hScore h, hName h)"

definition scored_hits :: "catalog \<Rightarrow> string \<Rightarrow> search_hit list" where
  "scored_hits cat q =
     (let tokens = fields_func search_sep q
      in concat (map (\<lambda>n. let v = by_name cat n; score = scoreVerb v q tokens
                          in if score \<le> 0 then [] else [hit_of v score]) (Order cat)))"

definition searchVerbs :: "catalog \<Rightarrow> string \<Rightarrow> int \<Rightarrow> search_result" where
  "searchVerbs cat query limit =
     (let q = to_lower (trim_space query);
          limit = (if limit \<le> 0 then 8 else limit);
          limit = (if limit > 50 then 50 else limit)
      in if q = [] then
           \<lparr>srQuery = query, srLimit = limit, srTotal = length (Order cat),
            srHits = map (\<lambda>n. hit_of (by_name cat n) 0) (take (nat limit) (Order cat))\<rparr>
         else
           \<lparr>srQuery = query, srLimit = limit, srTotal = length (Order cat),
            srHits = take (nat limit) (sort_key rank (scored_hits cat q))\<rparr>)"

subsection \<open>Facts about the search\<close>

lemma by_name_verbs:
  assumes "catalog_ok cat"
  shows "map (by_name cat) (Order cat) = map snd (ByName cat)"
proof -
  have o: "Order cat = map fst (ByName cat)" and w: "wf_map (ByName cat)"
    using assms by (simp_all add: catalog_ok_def)
  have "by_name cat (fst kv) = snd kv" if "kv \<in> set (ByName cat)" for kv
    using that w wf_map_of_iff [OF w, of "fst kv" "snd kv"] by (simp add: by_name_def)
  then show ?thesis by (simp add: o)
qed

lemma catalog_names:
  assumes "catalog_ok cat"
  shows "map vName (map snd (ByName cat)) = Order cat" "distinct (Order cat)"
proof -
  have "\<forall>(k, v) \<in> set (ByName cat). k = vName v" and o: "Order cat = map fst (ByName cat)"
    and w: "wf_map (ByName cat)"
    using assms by (auto simp: catalog_ok_def)
  then show "map vName (map snd (ByName cat)) = Order cat" by (auto simp: case_prod_unfold)
  show "distinct (Order cat)" using o w by (simp add: wf_map_def)
qed

lemma concat_filter_map:
  "concat (map (\<lambda>x. if P x then [] else [f x]) xs) = map f (filter (\<lambda>x. \<not> P x) xs)"
  by (induction xs) simp_all

lemma scored_hits_eq:
  assumes "catalog_ok cat"
  shows "scored_hits cat q =
    map (\<lambda>v. hit_of v (scoreVerb v q (fields_func search_sep q)))
      (filter (\<lambda>v. \<not> scoreVerb v q (fields_func search_sep q) \<le> 0) (map snd (ByName cat)))"
proof -
  let ?f = "\<lambda>v. if scoreVerb v q (fields_func search_sep q) \<le> 0 then []
                else [hit_of v (scoreVerb v q (fields_func search_sep q))]"
  have "scored_hits cat q = concat (map ?f (map (by_name cat) (Order cat)))"
    by (simp add: scored_hits_def Let_def o_def cong: if_cong)
  then show ?thesis unfolding by_name_verbs [OF assms] concat_filter_map .
qed

lemma hit_of_name [simp]: "hName (hit_of v s) = vName v" "hScore (hit_of v s) = s"
  by (simp_all add: hit_of_def)

lemma distinct_ranks:
  assumes "catalog_ok cat"
  shows "distinct (map rank (scored_hits cat q))"
proof -
  have "distinct (map vName (map snd (ByName cat)))" using catalog_names [OF assms] by simp
  then have "distinct (map vName (filter P (map snd (ByName cat))))" for P by (rule distinct_map_filter)
  then have "distinct (map hName (scored_hits cat q))"
    by (simp add: scored_hits_eq [OF assms] o_def)
  then have "distinct (map snd (map rank (scored_hits cat q)))" by (simp add: rank_def o_def)
  then show ?thesis by (metis distinct_map)
qed

lemma sorted_strict: "sorted (map f xs) \<Longrightarrow> distinct (map f xs) \<Longrightarrow> sorted_wrt (\<lambda>a b. f a < f b) xs"
  using sorted_wrt_map [of "(<)" f xs] by (simp add: strict_sorted_iff)

lemma sorted_wrt_cut:
  "sorted_wrt R xs \<Longrightarrow> x \<in> set xs \<Longrightarrow> x \<notin> set (take n xs) \<Longrightarrow>
   length (take n xs) = n \<and> (\<forall>y \<in> set (take n xs). R y x)"
proof -
  assume s: "sorted_wrt R xs" and x: "x \<in> set xs" "x \<notin> set (take n xs)"
  have "x \<in> set (take n xs @ drop n xs)" using x(1) by simp
  with x(2) have d: "x \<in> set (drop n xs)" unfolding set_append by blast
  then have "n < length xs" by (metis drop_all empty_iff leI list.set(1))
  moreover have "sorted_wrt R (take n xs @ drop n xs)" using s by simp
  then have "\<forall>y \<in> set (take n xs). R y x" using d unfolding sorted_wrt_append by blast
  ultimately show ?thesis by simp
qed

subsection \<open>Properties\<close>

text \<open>
  C39: Search returns the best matches in rank order: hits are strictly ordered by score (higher
  first) and then by name, at most 50 of them and at most the limit asked for; each is the summary
  of a catalog verb with a positive score; and a matching verb is missing only when the list is
  full of hits that rank before it.
\<close>

theorem search_ranked:
  assumes "catalog_ok cat" and "q = to_lower (trim_space query)" and "q \<noteq> []"
    and "r = searchVerbs cat query limit"
  shows "sorted_wrt (\<lambda>a b. hScore a > hScore b \<or> hScore a = hScore b \<and> hName a < hName b) (srHits r) \<and>
    int (length (srHits r)) \<le> 50 \<and> (0 < limit \<longrightarrow> int (length (srHits r)) \<le> limit) \<and>
    (\<forall>h \<in> set (srHits r). \<exists>name v. Get cat name = Some v \<and> 0 < hScore h \<and>
       h = hit_of v (scoreVerb v q (fields_func search_sep q))) \<and>
    (\<forall>name v. map_of (ByName cat) name = Some v \<and> 0 < scoreVerb v q (fields_func search_sep q) \<longrightarrow>
       hit_of v (scoreVerb v q (fields_func search_sep q)) \<in> set (srHits r) \<or>
       int (length (srHits r)) = srLimit r \<and>
       (\<forall>h \<in> set (srHits r). rank h < rank (hit_of v (scoreVerb v q (fields_func search_sep q)))))"
proof -
  let ?s = "\<lambda>v. scoreVerb v q (fields_func search_sep q)"
  define n where "n = (let l = (if limit \<le> 0 then 8 else limit) in if l > 50 then 50 else l)"
  define all where "all = sort_key rank (scored_hits cat q)"
  have n: "0 < n" "n \<le> 50" "0 < limit \<longrightarrow> n \<le> limit" by (auto simp: n_def Let_def)
  have r: "srHits r = take (nat n) all" "srLimit r = n"
    using assms(2-4) by (simp_all add: searchVerbs_def Let_def n_def all_def)
  have srt: "sorted_wrt (\<lambda>a b. rank a < rank b) all"
    unfolding all_def using distinct_ranks [OF assms(1), of q]
    by (intro sorted_strict) (simp_all add: distinct_map)
  have mem: "h \<in> set all \<longleftrightarrow> (\<exists>kv \<in> set (ByName cat). h = hit_of (snd kv) (?s (snd kv)) \<and> 0 < ?s (snd kv))" for h
    by (auto simp: all_def scored_hits_eq [OF assms(1)] image_iff not_le)
  have w: "wf_map (ByName cat)" using assms(1) by (simp add: catalog_ok_def)
  have lt: "rank a < rank b \<longleftrightarrow> hScore a > hScore b \<or> hScore a = hScore b \<and> hName a < hName b" for a b
    by (auto simp: rank_def less_prod_def')
  have "sorted_wrt (\<lambda>a b. rank a < rank b) (srHits r)" unfolding r by (rule sorted_wrt_take [OF srt])
  then have 1: "sorted_wrt (\<lambda>a b. hScore a > hScore b \<or> hScore a = hScore b \<and> hName a < hName b) (srHits r)"
    by (simp only: lt)
  have len: "int (length (srHits r)) \<le> n" using n(1) by (simp add: r)
  have 3: "\<exists>name v. Get cat name = Some v \<and> 0 < hScore h \<and> h = hit_of v (?s v)" if "h \<in> set (srHits r)" for h
  proof -
    from that have "h \<in> set all" unfolding r by (rule in_set_takeD)
    then obtain k v where kv: "(k, v) \<in> set (ByName cat)" "h = hit_of v (?s v)" "0 < ?s v" unfolding mem by auto
    then have "map_of (ByName cat) k = Some v" using w by (simp add: wf_map_of_iff)
    with kv show ?thesis by (intro exI [of _ k] exI [of _ v]) (simp add: Get_def)
  qed
  have 4: "hit_of v (?s v) \<in> set (srHits r) \<or> int (length (srHits r)) = srLimit r \<and>
      (\<forall>h \<in> set (srHits r). rank h < rank (hit_of v (?s v)))"
    if "map_of (ByName cat) name = Some v \<and> 0 < ?s v" for name v
  proof -
    from that have "hit_of v (?s v) \<in> set all" unfolding mem using map_of_SomeD by force
    then show ?thesis using sorted_wrt_cut [OF srt] n(1) unfolding r by fastforce
  qed
  show ?thesis using 1 len n 3 4 by (intro conjI ballI allI impI) auto
qed

theorem search_ranked_witness:
  "hit_of wifi_verb (scoreVerb wifi_verb ''wifi'' [''wifi'']) \<in> set (srHits (searchVerbs wifi_catalog '' WiFi'' 0))"
proof -
  have ok: "catalog_ok wifi_catalog" using wifi_catalog_loads by (auto simp: Load_def intro: Parse_ok)
  have q: "''wifi'' = to_lower (trim_space '' WiFi'')" and t: "fields_func search_sep ''wifi'' = [''wifi'']"
    and m: "map_of (ByName wifi_catalog) ''wifi.info'' = Some wifi_verb"
    and s: "0 < scoreVerb wifi_verb ''wifi'' [''wifi'']" "srLimit (searchVerbs wifi_catalog '' WiFi'' 0) = 8"
    and l: "length (srHits (searchVerbs wifi_catalog '' WiFi'' 0)) = 1"
    by code_simp+
  show ?thesis
    using search_ranked [OF ok q _ refl, of 0, unfolded t] m s l by fastforce
qed

end
