(* ===== verification/Task_View.thy ===== *)
theory Task_View
  imports Task
begin

text \<open>
  The projection of a task for agents (\<open>projectTask\<close> and \<open>truncateStr\<close> in \<open>internal/api/server.go\<close>):
  compact by default, selected fields, or the whole row. A query is the list of its decoded
  parameters; a time in a JSON object is its RFC 3339 text.
\<close>

type_synonym query = "(string \<times> string) list"

text \<open>\<open>url.Values.Get\<close>: the first value, or the empty string.\<close>

definition qget :: "query \<Rightarrow> string \<Rightarrow> string" where
  "qget q k = (case map_of q k of None \<Rightarrow> [] | Some v \<Rightarrow> v)"

definition truncateStr :: "string \<Rightarrow> int \<Rightarrow> string" where
  "truncateStr s mx =
     (if mx < 0 \<or> int (length s) \<le> mx then s
      else if mx = 0 then []
      else if mx < 3 then take (nat mx) s
      else take (nat (mx - 3)) s @ ''...'')"

text \<open>A numeric parameter that overrides a default when it is a non-negative number.\<close>

definition cap_param :: "query \<Rightarrow> string \<Rightarrow> int \<Rightarrow> int" where
  "cap_param q k def =
     (if qget q k = [] then def
      else case atoi (qget q k) of
        Some n \<Rightarrow> if n \<ge> 0 then n else def
      | None \<Rightarrow> def)"

text \<open>The fields selected so far and what to append at the end.\<close>

record selection =
  selMap :: "goval gomap"
  wantStdout :: bool
  wantStderr :: bool
  wantArgv :: bool

definition set_field :: "string \<Rightarrow> goval \<Rightarrow> selection \<Rightarrow> selection" where
  "set_field k v sel = sel\<lparr>selMap := AList.update k v (selMap sel)\<rparr>"

definition select_field :: "task \<Rightarrow> string \<Rightarrow> selection \<Rightarrow> selection" where
  "select_field t f sel =
     (if f = ''id'' then set_field ''id'' (VStr (tID t)) sel
      else if f = ''verb'' then set_field ''verb'' (VStr (tVerb t)) sel
      else if f = ''state'' \<or> f = ''status'' then set_field ''state'' (VStr (state_name (tState t))) sel
      else if f = ''attempt'' then set_field ''attempt'' (VInt (tAttempt t)) sel
      else if f = ''exit_code'' then
        (case tExitCode t of None \<Rightarrow> sel | Some c \<Rightarrow> set_field ''exit_code'' (VInt c) sel)
      else if f = ''error'' then
        (if tError t \<noteq> [] then set_field ''error'' (VStr (tError t)) sel else sel)
      else if f = ''result'' then
        (if tResult t \<noteq> VNil then set_field ''result'' (tResult t) sel else sel)
      else if f = ''stdout'' then sel\<lparr>wantStdout := True\<rparr>
      else if f = ''stderr'' then sel\<lparr>wantStderr := True\<rparr>
      else if f = ''argv_redacted'' \<or> f = ''argv'' then sel\<lparr>wantArgv := True\<rparr>
      else if f = ''created_at'' then set_field ''created_at'' (VStr (fmtTime (tCreatedAt t))) sel
      else if f = ''updated_at'' then set_field ''updated_at'' (VStr (fmtTime (tUpdatedAt t))) sel
      else if f = ''last_attempt_outcome'' then
        (if tLastOutcome t \<noteq> [] then set_field ''last_attempt_outcome'' (VStr (tLastOutcome t)) sel
         else sel)
      else sel)"

definition add_output :: "task \<Rightarrow> int \<Rightarrow> int \<Rightarrow> selection \<Rightarrow> selection" where
  "add_output t maxOut maxErr sel =
     (let sel = (if wantStdout sel \<and> tStdout t \<noteq> []
                 then set_field ''stdout'' (VStr (truncateStr (tStdout t) maxOut)) sel else sel)
      in if wantStderr sel \<and> tStderr t \<noteq> []
         then set_field ''stderr'' (VStr (truncateStr (tStderr t) maxErr)) sel else sel)"

definition string_list :: "string list \<Rightarrow> goval" where
  "string_list xs = (if xs = [] then VNil else VList (map VStr xs))"

definition compact_task :: "task \<Rightarrow> goval gomap" where
  "compact_task t =
     [(''id'', VStr (tID t)), (''verb'', VStr (tVerb t)), (''state'', VStr (state_name (tState t))),
      (''attempt'', VInt (tAttempt t))] @
     (case tExitCode t of None \<Rightarrow> [] | Some c \<Rightarrow> [(''exit_code'', VInt c)]) @
     (if tError t = [] then [] else [(''error'', VStr (tError t))]) @
     (if tResult t = VNil then [] else [(''result'', tResult t)]) @
     (if tLastOutcome t = [] then [] else [(''last_attempt_outcome'', VStr (tLastOutcome t))])"

text \<open>The JSON object of a whole task: the struct tags of \<open>queue.Task\<close>.\<close>

definition task_json :: "task \<Rightarrow> goval gomap" where
  "task_json t =
     [(''id'', VStr (tID t)), (''verb'', VStr (tVerb t))] @
     (if tArgsJSON t = [] then [] else [(''args_json'', VStr (tArgsJSON t))]) @
     [(''argv_redacted'', string_list (tArgvRedacted t))] @
     (if tStdinPresent t then [(''stdin_present'', VBool True)] else []) @
     [(''state'', VStr (state_name (tState t))), (''attempt'', VInt (tAttempt t))] @
     (if tMaxRetries t = 0 then [] else [(''max_retries'', VInt (tMaxRetries t))]) @
     (case tNextRunAt t of None \<Rightarrow> [] | Some n \<Rightarrow> [(''next_run_at'', VStr (fmtTime n))]) @
     (if tLastOutcome t = [] then [] else [(''last_attempt_outcome'', VStr (tLastOutcome t))]) @
     (case tExitCode t of None \<Rightarrow> [] | Some c \<Rightarrow> [(''exit_code'', VInt c)]) @
     (if tStdout t = [] then [] else [(''stdout'', VStr (tStdout t))]) @
     (if tStderr t = [] then [] else [(''stderr'', VStr (tStderr t))]) @
     (if tResult t = VNil then [] else [(''result'', tResult t)]) @
     (if tError t = [] then [] else [(''error'', VStr (tError t))]) @
     [(''created_at'', VStr (fmtTime (tCreatedAt t))), (''updated_at'', VStr (fmtTime (tUpdatedAt t)))]"

definition projectTask :: "task \<Rightarrow> query \<Rightarrow> goval gomap" where
  "projectTask t q =
     (let detail = to_lower (trim_space (qget q ''detail''))
      in if detail = ''full'' \<or> detail = ''all'' \<or> detail = ''raw'' then task_json t
         else
           (let maxOut = cap_param q ''max_stdout'' 512;
                maxErr = cap_param q ''max_stderr'' maxOut;
                fieldsRaw = trim_space (qget q ''fields'');
                want = (detail = ''stdout'' \<or> detail = ''output'')
            in if fieldsRaw \<noteq> [] then
                 (let sel = \<lparr>selMap = [(''id'', VStr (tID t))], wantStdout = want, wantStderr = want,
                             wantArgv = False\<rparr>;
                      sel = fold (\<lambda>f sel. select_field t (trim_space (to_lower f)) sel)
                              (split_byte (CHR '','') fieldsRaw) sel;
                      sel = add_output t maxOut maxErr sel
                  in if wantArgv sel
                     then selMap (set_field ''argv_redacted'' (string_list (tArgvRedacted t)) sel)
                     else selMap sel)
               else
                 selMap (add_output t maxOut maxErr
                   \<lparr>selMap = compact_task t, wantStdout = want, wantStderr = want, wantArgv = False\<rparr>)))"

subsection \<open>A projection is part of the row\<close>

lemma length_truncateStr: "0 \<le> mx \<Longrightarrow> int (length (truncateStr s mx)) \<le> mx"
  by (auto simp: truncateStr_def)

lemma cap_param_nonneg: "0 \<le> def \<Longrightarrow> 0 \<le> cap_param q k def"
  by (simp add: cap_param_def split: option.split)

text \<open>What a selection may hold: the capped outputs under their names, else pairs of the row.\<close>

definition shown :: "task \<Rightarrow> int \<Rightarrow> int \<Rightarrow> string \<Rightarrow> goval \<Rightarrow> bool" where
  "shown t maxOut maxErr k v \<longleftrightarrow>
     (if k = ''stdout'' then v = VStr (truncateStr (tStdout t) maxOut)
      else if k = ''stderr'' then v = VStr (truncateStr (tStderr t) maxErr)
      else (k, v) \<in> set (task_json t))"

definition shows_row :: "task \<Rightarrow> int \<Rightarrow> int \<Rightarrow> goval gomap \<Rightarrow> bool" where
  "shows_row t maxOut maxErr m \<longleftrightarrow> (\<forall>(k, v) \<in> set m. shown t maxOut maxErr k v)"

lemma set_update_sub: "set (AList.update k v m) \<subseteq> insert (k, v) (set m)"
  by (induction m) auto

lemma shows_set:
  assumes "shows_row t a b (selMap sel)" and "shown t a b k v"
  shows "shows_row t a b (selMap (set_field k v sel))"
  using assms set_update_sub [of k v "selMap sel"] unfolding shows_row_def set_field_def by auto

text \<open>The pairs of the row.\<close>

lemma row_pairs:
  "(''id'', VStr (tID t)) \<in> set (task_json t)" "(''verb'', VStr (tVerb t)) \<in> set (task_json t)"
  "(''state'', VStr (state_name (tState t))) \<in> set (task_json t)"
  "(''attempt'', VInt (tAttempt t)) \<in> set (task_json t)"
  "(''argv_redacted'', string_list (tArgvRedacted t)) \<in> set (task_json t)"
  "tExitCode t = Some c \<Longrightarrow> (''exit_code'', VInt c) \<in> set (task_json t)"
  "tError t \<noteq> [] \<Longrightarrow> (''error'', VStr (tError t)) \<in> set (task_json t)"
  "tResult t \<noteq> VNil \<Longrightarrow> (''result'', tResult t) \<in> set (task_json t)"
  "(''created_at'', VStr (fmtTime (tCreatedAt t))) \<in> set (task_json t)"
  "(''updated_at'', VStr (fmtTime (tUpdatedAt t))) \<in> set (task_json t)"
  "tLastOutcome t \<noteq> [] \<Longrightarrow> (''last_attempt_outcome'', VStr (tLastOutcome t)) \<in> set (task_json t)"
  unfolding task_json_def set_append by simp_all

text \<open>They may be shown.\<close>

lemma shown_pairs:
  "shown t a b ''id'' (VStr (tID t))" "shown t a b ''verb'' (VStr (tVerb t))"
  "shown t a b ''state'' (VStr (state_name (tState t)))" "shown t a b ''attempt'' (VInt (tAttempt t))"
  "shown t a b ''argv_redacted'' (string_list (tArgvRedacted t))"
  "tExitCode t = Some c \<Longrightarrow> shown t a b ''exit_code'' (VInt c)"
  "tError t \<noteq> [] \<Longrightarrow> shown t a b ''error'' (VStr (tError t))"
  "tResult t \<noteq> VNil \<Longrightarrow> shown t a b ''result'' (tResult t)"
  "shown t a b ''created_at'' (VStr (fmtTime (tCreatedAt t)))"
  "shown t a b ''updated_at'' (VStr (fmtTime (tUpdatedAt t)))"
  "tLastOutcome t \<noteq> [] \<Longrightarrow> shown t a b ''last_attempt_outcome'' (VStr (tLastOutcome t))"
  "shown t a b ''stdout'' (VStr (truncateStr (tStdout t) a))"
  "shown t a b ''stderr'' (VStr (truncateStr (tStderr t) b))"
  by (simp_all add: shown_def row_pairs)

lemma shows_flags:
  "selMap (sel\<lparr>wantStdout := x\<rparr>) = selMap sel" "selMap (sel\<lparr>wantStderr := x\<rparr>) = selMap sel"
  "selMap (sel\<lparr>wantArgv := x\<rparr>) = selMap sel"
  by simp_all

lemma shows_if:
  "(c \<Longrightarrow> shows_row t a b (selMap x)) \<Longrightarrow> (\<not> c \<Longrightarrow> shows_row t a b (selMap y)) \<Longrightarrow>
   shows_row t a b (selMap (if c then x else y))"
  by simp

lemma shows_exit:
  "shows_row t a b (selMap sel) \<Longrightarrow> shows_row t a b (selMap
     (case tExitCode t of None \<Rightarrow> sel | Some c \<Rightarrow> set_field ''exit_code'' (VInt c) sel))"
  using shown_pairs(6) by (auto intro!: shows_set split: option.split)

lemma shows_select:
  assumes "shows_row t a b (selMap sel)"
  shows "shows_row t a b (selMap (select_field t f sel))"
  unfolding select_field_def
  by (intro shows_if shows_set [OF assms] shows_exit [OF assms])
    (simp_all only: assms shown_pairs shows_flags simp_thms)

lemma shows_fold:
  "shows_row t a b (selMap sel) \<Longrightarrow>
   shows_row t a b (selMap (fold (\<lambda>f sel. select_field t (trim_space (to_lower f)) sel) fs sel))"
  by (induction fs arbitrary: sel) (simp_all add: shows_select)

lemma shows_output:
  assumes "shows_row t a b (selMap sel)"
  shows "shows_row t a b (selMap (add_output t a b sel))"
proof -
  let ?sel = "if wantStdout sel \<and> tStdout t \<noteq> []
    then set_field ''stdout'' (VStr (truncateStr (tStdout t) a)) sel else sel"
  have 1: "shows_row t a b (selMap ?sel)"
    by (rule shows_if, rule shows_set [OF assms shown_pairs(12)], rule assms)
  have "shows_row t a b (selMap (if wantStderr ?sel \<and> tStderr t \<noteq> []
    then set_field ''stderr'' (VStr (truncateStr (tStderr t) b)) ?sel else ?sel))"
    by (rule shows_if, rule shows_set [OF 1 shown_pairs(13)], rule 1)
  then show ?thesis unfolding add_output_def Let_def .
qed

lemma shows_compact: "shows_row t a b (compact_task t)"
  unfolding shows_row_def compact_task_def set_append ball_Un
  by (auto simp: shown_pairs split: option.split)

lemma shows_project:
  assumes "to_lower (trim_space (qget q ''detail'')) \<notin> {''full'', ''all'', ''raw''}"
  shows "shows_row t (cap_param q ''max_stdout'' 512)
    (cap_param q ''max_stderr'' (cap_param q ''max_stdout'' 512)) (projectTask t q)"
proof -
  have id: "shows_row t a b [(''id'', VStr (tID t))]" for a b using shown_pairs(1) by (simp add: shows_row_def)
  have d: "\<not> (to_lower (trim_space (qget q ''detail'')) = ''full'' \<or>
      to_lower (trim_space (qget q ''detail'')) = ''all'' \<or> to_lower (trim_space (qget q ''detail'')) = ''raw'')"
    using assms by blast
  have out: "shows_row t a b (if w then selMap (set_field ''argv_redacted'' (string_list (tArgvRedacted t)) sel)
      else selMap sel)" if "shows_row t a b (selMap sel)" for a b w sel
    using that shown_pairs(5) shows_set by (cases w) (simp_all only: if_True if_False)
  show ?thesis
    unfolding projectTask_def Let_def if_not_P [OF d]
    by (cases "trim_space (qget q ''fields'') = []")
      (simp_all only: simp_thms if_True if_False not_True_eq_False not_False_eq_True
        out shows_output shows_fold selection.simps id shows_compact)
qed

subsection \<open>Properties\<close>

text \<open>
  C40: What a task projection shows. Whatever the query, the answer depends neither on the stdin body, nor
  on the execution argument vector, nor on the raw result text of the row. Unless the full row was asked
  for, a \<open>stdout\<close> or \<open>stderr\<close> shown is the row's output cut to the byte limit (512 unless the query
  says otherwise), never longer, and every other field shown is the row's own. (The output and the parsed
  result are the child's: whether they repeat the stdin body is the matter of \<open>result_leaks_stdin\<close>.)
\<close>

theorem projection_is_partial_row:
  "projectTask (t\<lparr>tStdinBlob := s, tArgvJSON := a, tResultJSON := r\<rparr>) q = projectTask t q \<and>
   (to_lower (trim_space (qget q ''detail'')) \<notin> {''full'', ''all'', ''raw''} \<longrightarrow>
      (let maxOut = cap_param q ''max_stdout'' 512; maxErr = cap_param q ''max_stderr'' maxOut
       in \<forall>(k, v) \<in> set (projectTask t q).
            if k = ''stdout'' then
              v = VStr (truncateStr (tStdout t) maxOut) \<and> int (length (truncateStr (tStdout t) maxOut)) \<le> maxOut
            else if k = ''stderr'' then
              v = VStr (truncateStr (tStderr t) maxErr) \<and> int (length (truncateStr (tStderr t) maxErr)) \<le> maxErr
            else (k, v) \<in> set (task_json t)))"
proof -
  let ?t = "t\<lparr>tStdinBlob := s, tArgvJSON := a, tResultJSON := r\<rparr>"
  have f: "tID ?t = tID t" "tArgvRedacted ?t = tArgvRedacted t" "task_json ?t = task_json t"
    "compact_task ?t = compact_task t" by (simp_all add: task_json_def compact_task_def)
  have sel: "select_field ?t = select_field t" by (simp add: fun_eq_iff select_field_def)
  have out: "add_output ?t = add_output t" by (simp add: fun_eq_iff add_output_def Let_def)
  have "projectTask ?t q = projectTask t q"
    unfolding projectTask_def Let_def sel f out ..
  moreover have "0 \<le> cap_param q ''max_stdout'' 512" "0 \<le> cap_param q ''max_stderr'' (cap_param q ''max_stdout'' 512)"
    by (simp_all add: cap_param_nonneg)
  moreover note length_truncateStr
  moreover have "\<forall>(k, v) \<in> set (projectTask t q). shown t (cap_param q ''max_stdout'' 512)
      (cap_param q ''max_stderr'' (cap_param q ''max_stdout'' 512)) k v"
    if "to_lower (trim_space (qget q ''detail'')) \<notin> {''full'', ''all'', ''raw''}"
    using shows_project [OF that] by (simp add: shows_row_def)
  ultimately show ?thesis unfolding shown_def Let_def by (auto split: if_splits)
qed

definition view_task :: task where
  "view_task = \<lparr>tID = ''a'', tVerb = ''wifi.info'', tArgsJSON = [], tArgvJSON = [], tArgvRedacted = [],
     tStdinPresent = True, tStdinBlob = ''secret'', tState = StateExecuted, tAttempt = 1, tMaxRetries = 0,
     tNextRunAt = None, tLastOutcome = ''ok'', tExitCode = Some 0, tStdout = ''abcdefgh'', tStderr = [],
     tResultJSON = [], tResult = VNil, tError = [], tCreatedAt = 0, tUpdatedAt = 0\<rparr>"

definition view_query :: query where
  "view_query = [(''fields'', '' stdout, exit_code''), (''max_stdout'', ''5'')]"

theorem projection_is_partial_row_witness:
  "projectTask view_task view_query =
     [(''id'', VStr ''a''), (''exit_code'', VInt 0), (''stdout'', VStr ''ab...'')] \<and>
   (''exit_code'', VInt 0) \<in> set (task_json view_task)"
proof -
  have d: "to_lower (trim_space (qget view_query ''detail'')) \<notin> {''full'', ''all'', ''raw''}"
    and p: "projectTask view_task view_query =
      [(''id'', VStr ''a''), (''exit_code'', VInt 0), (''stdout'', VStr ''ab...'')]"
    by code_simp+
  then show ?thesis
    using projection_is_partial_row [where t = view_task and q = view_query]
    unfolding Let_def by auto
qed

end
