(* ===== verification/Http.thy ===== *)
theory Http
  imports Task Redact
begin

text \<open>
  The HTTP surface as values: responses (\<open>writeJSON\<close>, \<open>writeErr\<close> in \<open>internal/api/server.go\<close>) and the
  decoding of request bodies into the handlers' structs. A response is its status and body; the
  human-readable message of an error is left out, its code and task id are kept. Go's encoding of a
  \<open>nil\<close> slice (\<open>null\<close>) and of an empty one are not told apart.
\<close>

datatype resp_body =
    BErr string string
  | BVal goval

record response =
  rpStatus :: int
  rpBody :: resp_body

definition StatusOK :: int where "StatusOK = 200"
definition StatusAccepted :: int where "StatusAccepted = 202"
definition StatusBadRequest :: int where "StatusBadRequest = 400"
definition StatusUnauthorized :: int where "StatusUnauthorized = 401"
definition StatusNotFound :: int where "StatusNotFound = 404"
definition StatusConflict :: int where "StatusConflict = 409"
definition StatusInternalServerError :: int where "StatusInternalServerError = 500"
definition StatusServiceUnavailable :: int where "StatusServiceUnavailable = 503"

lemmas status_defs = StatusOK_def StatusAccepted_def StatusBadRequest_def StatusUnauthorized_def
  StatusNotFound_def StatusConflict_def StatusInternalServerError_def StatusServiceUnavailable_def

definition writeErr :: "int \<Rightarrow> string \<Rightarrow> string \<Rightarrow> response" where
  "writeErr status code tid = \<lparr>rpStatus = status, rpBody = BErr code tid\<rparr>"

definition writeJSON :: "int \<Rightarrow> goval \<Rightarrow> response" where
  "writeJSON status v = \<lparr>rpStatus = status, rpBody = BVal v\<rparr>"

subsection \<open>Request bodies\<close>

text \<open>
  \<open>json.Decoder\<close> with \<open>DisallowUnknownFields\<close> behind a reader of at most 1 MiB. Only the first JSON
  value is read. A member selects the field of its name up to letter case (with the two Unicode
  letters that fold to ASCII ones); \<open>null\<close> leaves a field alone, except that it resets the map; a
  value of the wrong type and an unknown member are errors. A body without a value is \<open>io.EOF\<close>,
  which the handlers accept.
\<close>

definition max_body :: nat where "max_body = 1048576"

fun fold_name :: "string \<Rightarrow> string" where
  "fold_name (a # b # c # s) =
     (if [a, b] = [CHR 0xC5, CHR 0xBF] then CHR ''s'' # fold_name (c # s)
      else if [a, b, c] = [CHR 0xE2, CHR 0x84, CHR 0xAA] then CHR ''k'' # fold_name s
      else lower_char a # fold_name (b # c # s))"
| "fold_name [a, b] =
     (if [a, b] = [CHR 0xC5, CHR 0xBF] then ''s'' else [lower_char a, lower_char b])"
| "fold_name s = map lower_char s"

text \<open>A decoded \<open>map[string]any\<close> member: numbers become float64; members of a repeated object merge.\<close>

definition decode_args :: "goval \<Rightarrow> args option \<Rightarrow> args option option" where
  "decode_args v old =
     (case v of
        VNil \<Rightarrow> Some None
      | VMap kvs \<Rightarrow>
          (case floats (VMap kvs) of
             Some (VMap kvs') \<Rightarrow>
               Some (Some (fold (\<lambda>(k, x) m. AList.update k x m) kvs'
                             (case old of None \<Rightarrow> [] | Some m \<Rightarrow> m)))
           | _ \<Rightarrow> None)
      | _ \<Rightarrow> None)"

definition decode_text :: "goval \<Rightarrow> string \<Rightarrow> string option" where
  "decode_text v old = (case v of VNil \<Rightarrow> Some old | VStr s \<Rightarrow> Some s | _ \<Rightarrow> None)"

definition decode_members ::
  "(string \<Rightarrow> goval \<Rightarrow> 'b \<Rightarrow> 'b option) \<Rightarrow> 'b \<Rightarrow> string \<Rightarrow> 'b option" where
  "decode_members field zero raw =
     (let b = take max_body raw
      in if skip_ws b = [] then (if length raw \<le> max_body then Some zero else None)
         else case json_decode b of
           Some (VNil, _) \<Rightarrow> Some zero
         | Some (VMap kvs, _) \<Rightarrow>
             fold (\<lambda>(k, v) acc. case acc of None \<Rightarrow> None | Some body \<Rightarrow> field (fold_name k) v body) kvs (Some zero)
         | _ \<Rightarrow> None)"

record post_body =
  pbArgs :: "args option"
  pbStdin :: string
  pbKey :: string

definition post_field :: "string \<Rightarrow> goval \<Rightarrow> post_body \<Rightarrow> post_body option" where
  "post_field k v b =
     (if k = ''args'' then map_option (\<lambda>a. b\<lparr>pbArgs := a\<rparr>) (decode_args v (pbArgs b))
      else if k = ''stdin'' then map_option (\<lambda>s. b\<lparr>pbStdin := s\<rparr>) (decode_text v (pbStdin b))
      else if k = ''idempotency_key'' then map_option (\<lambda>s. b\<lparr>pbKey := s\<rparr>) (decode_text v (pbKey b))
      else None)"

definition decode_post :: "string \<Rightarrow> post_body option" where
  "decode_post = decode_members post_field \<lparr>pbArgs = None, pbStdin = [], pbKey = []\<rparr>"

record stream_body =
  sbVerb :: string
  sbArgs :: "args option"

definition stream_field :: "string \<Rightarrow> goval \<Rightarrow> stream_body \<Rightarrow> stream_body option" where
  "stream_field k v b =
     (if k = ''verb'' then map_option (\<lambda>s. b\<lparr>sbVerb := s\<rparr>) (decode_text v (sbVerb b))
      else if k = ''args'' then map_option (\<lambda>a. b\<lparr>sbArgs := a\<rparr>) (decode_args v (sbArgs b))
      else None)"

definition decode_stream :: "string \<Rightarrow> stream_body option" where
  "decode_stream = decode_members stream_field \<lparr>sbVerb = [], sbArgs = None\<rparr>"

end
