(* ===== verification/Api_Server.thy ===== *)
theory Api_Server
  imports Worker Argv Token Streams Catalog_View Task_View Http
begin

text \<open>
  \<open>internal/api/server.go\<close>: the request handlers. A handler maps the server state to a response and
  the new state. The store behind \<open>Tasks\<close> is any store; the environment of each store call, the clock
  readings, the hash function, the operating system and the outcome of spawning a stream process are
  the record \<open>http_env\<close>. \<open>handlePostVerb\<close> and \<open>handlePostStream\<close> return \<open>None\<close> when expanding the
  arguments never ends: then the handler never answers.
\<close>

record 's server =
  svCatalog :: catalog
  svToken :: "token option"
  svTasks :: 's
  svVersion :: string
  svAudit :: "logger option"
  svCircuits :: "registry option"
  svStreams :: "stream_registry option"
  svResume :: resume_stats
  svStartedAt :: time
  svNotifier :: "notifier option"
  svSyncExec :: bool

record http_env =
  hStore :: "nat \<Rightarrow> env"
  hOS :: os
  hSnap :: time
  hStart :: time
  hEnd :: time
  hFail :: time
  hRetryNow :: time
  hRand :: nat
  hSha :: "string \<Rightarrow> string"
  hSpawnFault :: bool
  hStreamID :: string

definition New_server :: "time \<Rightarrow> catalog \<Rightarrow> token option \<Rightarrow> 's \<Rightarrow> 's server" where
  "New_server now cat tok tasks =
     \<lparr>svCatalog = cat, svToken = tok, svTasks = tasks, svVersion = [], svAudit = None,
      svCircuits = None, svStreams = None,
      svResume = \<lparr>ExecutingToPending = 0, PendingKept = 0, RetryDue = 0, RetryFuture = 0\<rparr>,
      svStartedAt = now, svNotifier = Some Termux, svSyncExec = True\<rparr>"

subsection \<open>Shared steps\<close>

definition sv_update ::
  "'s store_ops \<Rightarrow> env \<Rightarrow> string \<Rightarrow> (task \<Rightarrow> task) \<Rightarrow> audit_event \<Rightarrow> 's server \<Rightarrow> 's server" where
  "sv_update ops e tid fn ev sv = sv\<lparr>svTasks := snd (sUpdateAndAudit ops e tid fn ev (svTasks sv))\<rparr>"

definition sv_drain :: "'s store_ops \<Rightarrow> env \<Rightarrow> int \<Rightarrow> 's server \<Rightarrow> 's server" where
  "sv_drain ops e limit sv =
     (case sDrainOutbox ops e (svAudit sv) limit (svTasks sv) of
        (_, s, l) \<Rightarrow> sv\<lparr>svTasks := s, svAudit := l\<rparr>)"

text \<open>The method \<open>audit\<close>, on a server that has a store.\<close>

definition sv_audit ::
  "'s store_ops \<Rightarrow> env \<Rightarrow> env \<Rightarrow> audit_event \<Rightarrow> 's server \<Rightarrow> store_error option \<times> 's server" where
  "sv_audit ops e e' ev sv =
     (case sAppendAudit ops e ev (svTasks sv) of
        (Some err, s) \<Rightarrow> (Some err, sv\<lparr>svTasks := s\<rparr>)
      | (None, s) \<Rightarrow>
          (case sDrainOutbox ops e' (svAudit sv) 20 s of
             ((_, err), s, l) \<Rightarrow> (err, sv\<lparr>svTasks := s, svAudit := l\<rparr>)))"

definition breakerFor :: "verb \<Rightarrow> 's server \<Rightarrow> breaker option \<times> 's server" where
  "breakerFor v sv =
     (case svCircuits sv of
        None \<Rightarrow> (None, sv)
      | Some r \<Rightarrow>
          (let trp = (case vCBThreshold v of Some n \<Rightarrow> n | None \<Rightarrow> 0)
           in case For (vName v) trp r of (b, r') \<Rightarrow> (Some b, sv\<lparr>svCircuits := Some r'\<rparr>)))"

text \<open>A call on the breaker the handler holds.\<close>

definition sv_breaker :: "verb \<Rightarrow> (breaker \<Rightarrow> 'a \<times> breaker) \<Rightarrow> 's server \<Rightarrow> 'a option \<times> 's server" where
  "sv_breaker v f sv =
     (case svCircuits sv of
        None \<Rightarrow> (None, sv)
      | Some r \<Rightarrow> (case on_breaker (vName v) f r of (a, r') \<Rightarrow> (a, sv\<lparr>svCircuits := Some r'\<rparr>)))"

text \<open>The peek before a request is accepted: the breaker is open. It does not take the probe slot.\<close>

definition peek_open :: "time \<Rightarrow> verb \<Rightarrow> 's server \<Rightarrow> bool \<times> 's server" where
  "peek_open now v sv =
     (case breakerFor v sv of
        (None, sv) \<Rightarrow> (False, sv)
      | (Some _, sv) \<Rightarrow>
          (case sv_breaker v (Snapshot now) sv of
             (sn, sv) \<Rightarrow> ((case sn of Some s \<Rightarrow> sn_state s = Open | None \<Rightarrow> False), sv)))"

definition api_event ::
  "string \<Rightarrow> verb \<Rightarrow> string \<Rightarrow> string list \<Rightarrow> int option \<Rightarrow> int \<Rightarrow> string \<Rightarrow> audit_event" where
  "api_event tid v st red ec lat err =
     \<lparr>evTS = [], evTaskID = tid, evVerb = vName v, evTier = vTier v, evState = st, evArgv = red,
      evExitCode = ec, evLatencyMS = lat, evAttempt = 0, evError = err\<rparr>"

definition idempotencyHash :: "(string \<Rightarrow> string) \<Rightarrow> string \<Rightarrow> args \<Rightarrow> string \<Rightarrow> string" where
  "idempotencyHash sha verb args stdin =
     sha (verb @ [CHR 0x00] @ (case json_marshal (VMap args) of Some b \<Rightarrow> b | None \<Rightarrow> []) @
          [CHR 0x00] @ stdin)"

definition maxServerJitter :: duration where
  "maxServerJitter = 250 * millisecond"

definition backoffBase :: "catalog \<Rightarrow> duration" where
  "backoffBase cat = f64_seconds (BackoffBaseS (cDaemon cat))"

definition verb_retries :: "catalog \<Rightarrow> verb \<Rightarrow> int" where
  "verb_retries cat v = (case vRetries v of Some n \<Rightarrow> n | None \<Rightarrow> MaxRetries (cDaemon cat))"

subsection \<open>Executing inline\<close>

text \<open>The change \<open>executeOnce\<close> makes on success; unlike the worker it leaves \<open>ResultJSON\<close> alone.\<close>

definition sync_ok :: "int \<Rightarrow> string \<Rightarrow> string \<Rightarrow> goval \<Rightarrow> task \<Rightarrow> task" where
  "sync_ok ec out err result t =
     t\<lparr>tState := StateExecuted, tLastOutcome := ''ok'', tExitCode := Some ec, tStdout := out,
       tStderr := err, tResult := result, tError := [], tNextRunAt := None\<rparr>"

definition sync_executing :: "task \<Rightarrow> task" where
  "sync_executing t = t\<lparr>tState := StateExecuting, tAttempt := 0\<rparr>"

definition sync_result :: "verb \<Rightarrow> exec_result \<Rightarrow> goval" where
  "sync_result v res =
     (if json_parser v
      then (case ParseJSON (rStdout res) of (parsed, None) \<Rightarrow> parsed | (_, Some _) \<Rightarrow> VNil)
      else VNil)"

definition executeOnce ::
  "'s store_ops \<Rightarrow> http_env \<Rightarrow> string \<Rightarrow> verb \<Rightarrow> int \<Rightarrow> string list \<Rightarrow> string list \<Rightarrow> string \<Rightarrow>
   's server \<Rightarrow> 's server" where
  "executeOnce ops h tid v maxRetries argv red stdin sv =
     (let sv = sv_update ops (hStore h 8) tid sync_executing
                 (api_event tid v (state_name StateExecuting) red None 0 []) sv;
          res = Run (hOS h) argv stdin (verb_timeout (svCatalog sv) v);
          lat = milliseconds (time_sub (hEnd h) (hStart h));
          out = scrubOutput (rStdout res) stdin;
          err = scrubOutput (rStderr res) stdin;
          (outcome, msg) = outcome_of res;
          ec = rExitCode res;
          sv = sv\<lparr>svTasks := snd (sRecordAttempt ops (hStore h 9) tid 0 (hStart h) (hEnd h) (Some ec)
                                   outcome msg (svTasks sv))\<rparr>
      in if outcome = ''ok'' then
           (let sv = snd (sv_breaker v (\<lambda>b. ((), Success b)) sv)
            in sv_update ops (hStore h 10) tid (sync_ok ec out err (sync_result v res))
                 (api_event tid v (state_name StateExecuted) red (Some ec) lat []) sv)
         else
           (let sv = snd (sv_breaker v (\<lambda>b. ((), Failure (hFail h) b)) sv)
            in if ShouldExhaust 0 maxRetries then
                 (let sv = sv_update ops (hStore h 10) tid (set_exhausted outcome ec out err msg)
                             (api_event tid v (state_name StateExhausted) red (Some ec) lat msg) sv;
                      nt = (case svNotifier sv of None \<Rightarrow> Termux | Some nt \<Rightarrow> nt)
                  in sv\<lparr>svNotifier := Some (snd (Exhausted (hOS h) (vName v) tid 1 nt))\<rparr>)
               else
                 (let nxt = hRetryNow h +
                        DelayAfterFailure (hRand h) (backoffBase (svCatalog sv)) 0 maxServerJitter
                  in sv_update ops (hStore h 10) tid (set_retry outcome ec out err msg 1 nxt)
                       (api_event tid v ''will-retry'' red (Some ec) lat msg) sv)))"

definition set_pending :: "task \<Rightarrow> task" where
  "set_pending t = t\<lparr>tState := StatePending\<rparr>"

definition runPipeline ::
  "'s store_ops \<Rightarrow> http_env \<Rightarrow> string \<Rightarrow> verb \<Rightarrow> string list \<Rightarrow> string list \<Rightarrow> string \<Rightarrow>
   's server \<Rightarrow> 's server" where
  "runPipeline ops h tid v argv red stdin sv =
     (let sv = sv_update ops (hStore h 7) tid (\<lambda>t. t) (api_event tid v ''accepted'' red None 0 []) sv;
          runStdin = (case vStdinArg v of Some _ \<Rightarrow> stdin | None \<Rightarrow> [])
      in if \<not> svSyncExec sv then
           sv_update ops (hStore h 8) tid set_pending
             (api_event tid v (state_name StatePending) red None 0 []) sv
         else
           executeOnce ops h tid v (verb_retries (svCatalog sv) v) argv red runStdin sv)"

subsection \<open>POST /v1/verbs/{name}\<close>

definition task_answer :: "int \<Rightarrow> task \<Rightarrow> (string \<times> goval) list \<Rightarrow> response" where
  "task_answer status t extra =
     writeJSON status
       (VMap ([(''task_id'', VStr (tID t)), (''status'', VStr (state_name (tState t)))] @ extra))"

abbreviation replay_answer :: "task \<Rightarrow> response" where
  "replay_answer t \<equiv> task_answer StatusOK t [(''replay'', VBool True)]"

text \<open>The lookup of a client key before anything is created.\<close>

datatype prior =
    PriorError
  | PriorConflict
  | PriorReplay task
  | PriorNone

definition find_prior ::
  "'s store_ops \<Rightarrow> http_env \<Rightarrow> verb \<Rightarrow> string \<Rightarrow> string \<Rightarrow> 's \<Rightarrow> prior" where
  "find_prior ops h v key reqHash s =
     (if key = [] then PriorNone
      else case sFindIdempotency ops (hStore h 0) key s of
        Inl err \<Rightarrow> PriorError
      | Inr None \<Rightarrow> PriorNone
      | Inr (Some rec) \<Rightarrow>
          if iVerb rec \<noteq> vName v \<or> iHash rec \<noteq> reqHash then PriorConflict
          else (case sGet ops (hStore h 1) (iTaskID rec) s of
                  Some t \<Rightarrow> PriorReplay t
                | None \<Rightarrow> PriorNone))"

definition superseded :: "task \<Rightarrow> task" where
  "superseded t = t\<lparr>tState := StateCanceled, tError := ''superseded by idempotent replay''\<rparr>"

text \<open>
  Binding the key to the new task; when the key was taken meanwhile, the winner is replayed and the
  own task canceled.
\<close>

definition bind_key ::
  "'s store_ops \<Rightarrow> http_env \<Rightarrow> verb \<Rightarrow> string \<Rightarrow> string \<Rightarrow> string \<Rightarrow> string list \<Rightarrow> 's server \<Rightarrow>
   task option \<times> 's server" where
  "bind_key ops h v key reqHash tid red sv =
     (if key = [] then (None, sv)
      else
        (case sSaveIdempotency ops (hStore h 3)
                \<lparr>iKey = key, iVerb = vName v, iHash = reqHash, iTaskID = tid, iCreatedAt = zero_time\<rparr>
                (svTasks sv) of
           (None, s) \<Rightarrow> (None, sv\<lparr>svTasks := s\<rparr>)
         | (Some err, s) \<Rightarrow>
             (let sv = sv\<lparr>svTasks := s\<rparr>
              in case sFindIdempotency ops (hStore h 4) key (svTasks sv) of
                   Inr (Some win) \<Rightarrow>
                     (let sv = sv_update ops (hStore h 5) tid superseded
                            (api_event tid v (state_name StateCanceled) red None 0
                               ''superseded by idempotent replay'') sv
                      in (sGet ops (hStore h 6) (iTaskID win) (svTasks sv), sv))
                 | _ \<Rightarrow> (None, sv))))"

text \<open>From the created task on.\<close>

definition run_created ::
  "'s store_ops \<Rightarrow> http_env \<Rightarrow> verb \<Rightarrow> string \<Rightarrow> string \<Rightarrow> string list \<Rightarrow> string list \<Rightarrow> string \<Rightarrow>
   string \<Rightarrow> 's server \<Rightarrow> response \<times> 's server" where
  "run_created ops h v key reqHash argv red stdin tid sv =
     (case bind_key ops h v key reqHash tid red sv of
        (Some t, sv) \<Rightarrow> (replay_answer t, sv)
      | (None, sv) \<Rightarrow>
          (let sv = runPipeline ops h tid v argv red stdin sv
           in case sGet ops (hStore h 11) tid (svTasks sv) of
                None \<Rightarrow> (writeErr StatusInternalServerError ''store_error'' [], sv)
              | Some t \<Rightarrow> (task_answer StatusAccepted t [], sv_drain ops (hStore h 12) 20 sv)))"

text \<open>From the expanded request on.\<close>

definition post_expanded ::
  "'s store_ops \<Rightarrow> http_env \<Rightarrow> verb \<Rightarrow> args \<Rightarrow> string \<Rightarrow> string \<Rightarrow> string list \<Rightarrow> string list \<Rightarrow>
   's server \<Rightarrow> response \<times> 's server" where
  "post_expanded ops h v args stdin key argv red sv =
     (let reqHash = idempotencyHash (hSha h) (vName v) args stdin
      in case find_prior ops h v key reqHash (svTasks sv) of
           PriorError \<Rightarrow> (writeErr StatusInternalServerError ''store_error'' [], sv)
         | PriorConflict \<Rightarrow> (writeErr StatusConflict ''idempotency_conflict'' [], sv)
         | PriorReplay t \<Rightarrow> (replay_answer t, sv)
         | PriorNone \<Rightarrow>
             (let argsJSON = (case json_marshal (VMap (RedactArgs v args)) of Some b \<Rightarrow> b | None \<Rightarrow> [])
              in case peek_open (hSnap h) v sv of
                   (True, sv) \<Rightarrow> (writeErr StatusServiceUnavailable ''circuit_open'' [], sv)
                 | (False, sv) \<Rightarrow>
                     (case sCreateAndAuditLimited ops (hStore h 2)
                             \<lparr>ciVerb = vName v, ciArgsJSON = argsJSON, ciArgv = argv, ciArgvRedacted = red,
                              ciStdin = stdin, ciMaxRetries = verb_retries (svCatalog sv) v\<rparr>
                             (api_event [] v (state_name StateAccepted) red None 0 [])
                             (MaxQueueDepth (cDaemon (svCatalog sv))) (svTasks sv) of
                        (Inl QueueFull, s) \<Rightarrow>
                          (writeErr StatusServiceUnavailable ''queue_full'' [], sv\<lparr>svTasks := s\<rparr>)
                      | (Inl err, s) \<Rightarrow>
                          (writeErr StatusInternalServerError ''store_error'' [], sv\<lparr>svTasks := s\<rparr>)
                      | (Inr t, s) \<Rightarrow>
                          run_created ops h v key reqHash argv red stdin (tID t) (sv\<lparr>svTasks := s\<rparr>))))"

text \<open>The arguments without the field that is piped to stdin.\<close>

definition request_args :: "verb \<Rightarrow> args option \<Rightarrow> args" where
  "request_args v a =
     (let args = (case a of None \<Rightarrow> [] | Some m \<Rightarrow> m)
      in case vStdinArg v of None \<Rightarrow> args | Some arg \<Rightarrow> AList.delete arg args)"

definition handlePostVerb ::
  "'s store_ops \<Rightarrow> http_env \<Rightarrow> string \<Rightarrow> string \<Rightarrow> 's server \<Rightarrow> (response \<times> 's server) option" where
  "handlePostVerb ops h name payload sv =
     (case Get (svCatalog sv) name of
        None \<Rightarrow> Some (writeErr StatusNotFound ''unknown_verb'' [], sv)
      | Some v \<Rightarrow>
          (case decode_post payload of
             None \<Rightarrow> Some (writeErr StatusBadRequest ''invalid_json'' [], sv)
           | Some body \<Rightarrow>
               (let args = request_args v (pbArgs body)
                in case expandArgv v args (pbStdin body) of
                     None \<Rightarrow> None
                   | Some (Inl err) \<Rightarrow> Some (writeErr StatusBadRequest ''validation_error'' [], sv)
                   | Some (Inr (argv, red)) \<Rightarrow>
                       Some (post_expanded ops h v args (pbStdin body) (pbKey body) argv red sv))))"

subsection \<open>The other handlers\<close>

fun cb_state_name :: "cb_state \<Rightarrow> string" where
  "cb_state_name Closed = ''closed''"
| "cb_state_name Open = ''open''"
| "cb_state_name HalfOpen = ''half_open''"

definition handleHealth :: "'s store_ops \<Rightarrow> http_env \<Rightarrow> 's server \<Rightarrow> response \<times> 's server" where
  "handleHealth ops h sv =
     (let (cb, sv) = (case svCircuits sv of
            None \<Rightarrow> ([], sv)
          | Some r \<Rightarrow> (case Snapshots (hSnap h) r of (sns, r') \<Rightarrow> (sns, sv\<lparr>svCircuits := Some r'\<rparr>)));
          ver = (if svVersion sv = [] then ''dev'' else svVersion sv);
          st = svResume sv;
          up = time_sub (hEnd h) (svStartedAt sv)
      in (writeJSON StatusOK (VMap
            [(''autonomy'', VStr ''full''), (''queue_depth'', VInt (int (sDepth ops (svTasks sv)))),
             (''cb_states'', VMap (map (\<lambda>(k, sn).
                (k, VMap [(''state'', VStr (cb_state_name (sn_state sn))),
                          (''failures'', VInt (sn_failures sn))])) cb)),
             (''resume'', VMap [(''executing_to_pending'', VInt (ExecutingToPending st)),
                (''pending_kept'', VInt (PendingKept st)), (''retry_due'', VInt (RetryDue st)),
                (''retry_future'', VInt (RetryFuture st))]),
             (''uptime_s'', VInt (if 0 \<le> up then up div second else - (- up div second))),
             (''version'', VStr ver)]), sv))"

definition handleListVerbs :: "query \<Rightarrow> 's server \<Rightarrow> response" where
  "handleListVerbs q sv =
     (let detail = (if qget q ''detail'' = [] then DetailSummary else qget q ''detail'')
      in case listVerbsDetail (svCatalog sv) detail of
           None \<Rightarrow> writeErr StatusBadRequest ''invalid_detail'' []
         | Some out \<Rightarrow> writeJSON StatusOK out)"

definition search_json :: "search_result \<Rightarrow> goval" where
  "search_json r =
     VMap [(''query'', VStr (srQuery r)), (''limit'', VInt (srLimit r)),
           (''count'', VInt (int (length (srHits r)))), (''total'', VInt (int (srTotal r))),
           (''hits'', VList (map (\<lambda>hit.
              VMap [(''name'', VStr (hName hit)), (''tier'', VStr (hTier hit)),
                    (''summary'', VStr (hSummary hit)), (''score'', VInt (hScore hit)),
                    (''stream'', VBool (hStream hit))]) (srHits r)))]"

definition handleSearchVerbs :: "query \<Rightarrow> 's server \<Rightarrow> response" where
  "handleSearchVerbs q sv =
     (let s = (if qget q ''q'' = [] then qget q ''query'' else qget q ''q'');
          lim = qget q ''limit''
      in if lim = [] then writeJSON StatusOK (search_json (searchVerbs (svCatalog sv) s 8))
         else case atoi lim of
           None \<Rightarrow> writeErr StatusBadRequest ''invalid_limit'' []
         | Some n \<Rightarrow>
             if n < 1 then writeErr StatusBadRequest ''invalid_limit'' []
             else writeJSON StatusOK (search_json (searchVerbs (svCatalog sv) s n)))"

definition handleGetVerb :: "string \<Rightarrow> 's server \<Rightarrow> response" where
  "handleGetVerb name sv =
     (case Get (svCatalog sv) name of
        None \<Rightarrow> writeErr StatusNotFound ''unknown_verb'' []
      | Some v \<Rightarrow> writeJSON StatusOK (verbFullEntry v))"

definition handleGetTask :: "'s store_ops \<Rightarrow> http_env \<Rightarrow> string \<Rightarrow> query \<Rightarrow> 's server \<Rightarrow> response" where
  "handleGetTask ops h tid q sv =
     (case sGet ops (hStore h 0) tid (svTasks sv) of
        None \<Rightarrow> writeErr StatusNotFound ''unknown_task'' tid
      | Some t \<Rightarrow> writeJSON StatusOK (VMap (projectTask t q)))"

definition handleListTasks :: "'s store_ops \<Rightarrow> http_env \<Rightarrow> query \<Rightarrow> 's server \<Rightarrow> response" where
  "handleListTasks ops h q sv =
     writeJSON StatusOK (VMap [(''tasks'',
       VList (map (\<lambda>t. VMap (task_json t)) (sList ops (hStore h 0) (qget q ''state'') (svTasks sv))))])"

subsection \<open>Streams\<close>

definition handlePostStream ::
  "'s store_ops \<Rightarrow> http_env \<Rightarrow> string \<Rightarrow> 's server \<Rightarrow> (response \<times> 's server) option" where
  "handlePostStream ops h payload sv =
     (case svStreams sv of
        None \<Rightarrow> Some (writeErr StatusServiceUnavailable ''streams_disabled'' [], sv)
      | Some reg \<Rightarrow>
          (case decode_stream payload of
             None \<Rightarrow> Some (writeErr StatusBadRequest ''invalid_json'' [], sv)
           | Some body \<Rightarrow>
               (let args = (case sbArgs body of None \<Rightarrow> [] | Some m \<Rightarrow> m)
                in case Get (svCatalog sv) (sbVerb body) of
                     None \<Rightarrow> Some (writeErr StatusNotFound ''unknown_verb'' [], sv)
                   | Some v \<Rightarrow>
                       if \<not> isStreamVerb v then Some (writeErr StatusBadRequest ''not_a_stream'' [], sv)
                       else (case expandArgv v args [] of
                         None \<Rightarrow> None
                       | Some (Inl err) \<Rightarrow> Some (writeErr StatusBadRequest ''validation_error'' [], sv)
                       | Some (Inr (argv, red)) \<Rightarrow>
                           Some (case peek_open (hSnap h) v sv of
                             (True, sv) \<Rightarrow> (writeErr StatusServiceUnavailable ''circuit_open'' [], sv)
                           | (False, sv) \<Rightarrow>
                               (case Start (hSpawnFault h) (hStreamID h) v argv reg of
                                  (Inl err, reg) \<Rightarrow>
                                    (writeErr StatusInternalServerError ''stream_start_failed'' [],
                                     (snd (sv_breaker v (\<lambda>b. ((), Failure (hFail h) b)) sv))\<lparr>svStreams := Some reg\<rparr>)
                                | (Inr st, reg) \<Rightarrow>
                                    (let sv = (snd (sv_breaker v (\<lambda>b. ((), Success b)) sv))\<lparr>svStreams := Some reg\<rparr>;
                                         sv = snd (sv_audit ops (hStore h 0) (hStore h 1)
                                                (api_event (stID st) v ''stream_open'' red None 0 []) sv);
                                         sv = sv_drain ops (hStore h 2) 20 sv
                                     in (writeJSON StatusAccepted (VMap
                                           [(''stream_id'', VStr (stID st)), (''verb'', VStr (stVerb st))]), sv))))))))"

text \<open>
  \<open>fmt.Sscanf(q, "%d", &since)\<close>: white space, then digits; what follows them is ignored. A newline in
  the white space is an error.
\<close>

definition scan_uint :: "string \<Rightarrow> 64 word option" where
  "scan_uint q =
     (let r = trim_left q; ds = takeWhile is_digit r
      in if CHR 0x0A \<in> set (take (length q - length r) q) \<or> ds = [] then None
         else case digits_val 0 ds of
           None \<Rightarrow> None
         | Some n \<Rightarrow> if n < 2 ^ 64 then Some (word_of_int n) else None)"

definition event_json :: "event \<Rightarrow> goval" where
  "event_json ev = VMap [(''seq'', VInt (uint (Seq ev))), (''ts'', VStr (TS ev)), (''line'', VStr (Line ev))]"

definition handleGetStream :: "string \<Rightarrow> query \<Rightarrow> 's server \<Rightarrow> response" where
  "handleGetStream sid q sv =
     (case svStreams sv of
        None \<Rightarrow> writeErr StatusNotFound ''unknown_stream'' []
      | Some reg \<Rightarrow>
          (case GetStream sid reg of
             None \<Rightarrow> writeErr StatusNotFound ''unknown_stream'' sid
           | Some st \<Rightarrow>
               (let payload = qget q ''since''
                in case (if payload = [] then Some 0 else scan_uint payload) of
                     None \<Rightarrow> writeErr StatusBadRequest ''invalid_since'' sid
                   | Some since \<Rightarrow>
                       writeJSON StatusOK (VMap
                         [(''stream_id'', VStr (stID st)), (''verb'', VStr (stVerb st)),
                          (''events'', VList (map event_json (Since since (stRing st)))),
                          (''buffered'', VInt (int (Len (stRing st))))]))))"

definition handleDeleteStream ::
  "'s store_ops \<Rightarrow> http_env \<Rightarrow> string \<Rightarrow> 's server \<Rightarrow> response \<times> 's server" where
  "handleDeleteStream ops h sid sv =
     (case svStreams sv of
        None \<Rightarrow> (writeErr StatusNotFound ''unknown_stream'' [], sv)
      | Some reg \<Rightarrow>
          (let verb = (case GetStream sid reg of None \<Rightarrow> [] | Some st \<Rightarrow> stVerb st)
           in case DeleteStream sid reg of
                (None, reg) \<Rightarrow> (writeErr StatusNotFound ''unknown_stream'' sid, sv\<lparr>svStreams := Some reg\<rparr>)
              | (Some st, reg) \<Rightarrow>
                  (let ev = \<lparr>evTS = [], evTaskID = sid, evVerb = verb, evTier = [], evState = ''stream_closed'',
                             evArgv = [], evExitCode = None, evLatencyMS = 0, evAttempt = 0, evError = []\<rparr>;
                       sv = snd (sv_audit ops (hStore h 0) (hStore h 1) ev (sv\<lparr>svStreams := Some reg\<rparr>))
                   in (writeJSON StatusOK (VMap [(''stream_id'', VStr sid), (''status'', VStr ''closed'')]), sv))))"

subsection \<open>Routing and authentication\<close>

datatype request =
    ReqHealth
  | ReqSearchVerbs query
  | ReqGetVerb string
  | ReqListVerbs query
  | ReqPostVerb string string
  | ReqGetTask string query
  | ReqListTasks query
  | ReqPostStream string
  | ReqGetStream string query
  | ReqDeleteStream string

fun mux :: "'s store_ops \<Rightarrow> http_env \<Rightarrow> request \<Rightarrow> 's server \<Rightarrow> (response \<times> 's server) option" where
  "mux ops h ReqHealth sv = Some (handleHealth ops h sv)"
| "mux ops h (ReqSearchVerbs q) sv = Some (handleSearchVerbs q sv, sv)"
| "mux ops h (ReqGetVerb name) sv = Some (handleGetVerb name sv, sv)"
| "mux ops h (ReqListVerbs q) sv = Some (handleListVerbs q sv, sv)"
| "mux ops h (ReqPostVerb name payload) sv = handlePostVerb ops h name payload sv"
| "mux ops h (ReqGetTask tid q) sv = Some (handleGetTask ops h tid q sv, sv)"
| "mux ops h (ReqListTasks q) sv = Some (handleListTasks ops h q sv, sv)"
| "mux ops h (ReqPostStream payload) sv = handlePostStream ops h payload sv"
| "mux ops h (ReqGetStream sid q) sv = Some (handleGetStream sid q sv, sv)"
| "mux ops h (ReqDeleteStream sid) sv = Some (handleDeleteStream ops h sid sv)"

text \<open>\<open>withAuth\<close> around the routes: the header first, the handler only behind it.\<close>

definition withAuth ::
  "('s server \<Rightarrow> (response \<times> 's server) option) \<Rightarrow> string \<Rightarrow> 's server \<Rightarrow> (response \<times> 's server) option" where
  "withAuth handler header sv =
     (if \<not> Valid (svToken sv) header then Some (writeErr StatusUnauthorized ''unauthorized'' [], sv)
      else handler sv)"

definition Handler ::
  "'s store_ops \<Rightarrow> http_env \<Rightarrow> string \<Rightarrow> request \<Rightarrow> 's server \<Rightarrow> (response \<times> 's server) option" where
  "Handler ops h header req = withAuth (mux ops h req) header"

end
