(* ===== verification/Api_Facts.thy ===== *)
theory Api_Facts
  imports Api_Server Worker_Facts
begin

text \<open>
  What the handlers do to a store, proved over the Store contract, and the properties of the API on
  the memory store.
\<close>

subsection \<open>Updates\<close>

text \<open>A change to a task that looks only at fields every provider keeps, and not at the time stamp.\<close>

definition change_fun :: "(task \<Rightarrow> task) \<Rightarrow> bool" where
  "change_fun fn \<longleftrightarrow> core_fun fn \<and> (\<forall>t. storable t \<longrightarrow> fair_update fn t) \<and>
     (\<forall>t u u'. (fn (t\<lparr>tUpdatedAt := u\<rparr>))\<lparr>tUpdatedAt := u'\<rparr> = (fn t)\<lparr>tUpdatedAt := u'\<rparr>)"

lemma core_fun_simple:
  "core_fun (\<lambda>t. t)" "core_fun set_pending" "core_fun sync_executing" "core_fun superseded"
  "core_fun (sync_ok ec out err r)"
  unfolding core_fun_def set_pending_def sync_executing_def superseded_def sync_ok_def
  by (intro allI impI, (case_tac a, case_tac b)?, simp add: core_def)+

lemma change_fun_simple:
  "change_fun (\<lambda>t. t)" "change_fun set_pending" "change_fun sync_executing" "change_fun superseded"
  "change_fun (sync_ok ec out err r)" "change_fun (set_exhausted oc ec out err m)"
  "year_ok tm \<Longrightarrow> change_fun (set_retry oc ec out err m n tm)"
  using core_fun_simple core_fun_set
  by (simp_all add: change_fun_def fair_update_def storable_def set_pending_def sync_executing_def
      superseded_def sync_ok_def set_exhausted_def set_retry_def)

context task_store begin

lemma update_step:
  assumes "inv s" and "env_ok e" and "view s tid = Some t" and "core t = core (t0\<lparr>tUpdatedAt := u0\<rparr>)"
    and "change_fun fn"
  shows "inv (snd (sUpdateAndAudit ops e tid fn ev s)) \<and>
    keys (snd (sUpdateAndAudit ops e tid fn ev s)) = keys s \<and>
    (\<exists>t'. view (snd (sUpdateAndAudit ops e tid fn ev s)) = (view s)(tid \<mapsto> t') \<and>
      core t' = core ((fn t0)\<lparr>tUpdatedAt := eNow e\<rparr>))"
proof -
  have "storable t" using view_id [OF assms(1,3)] by simp
  then have f: "fair_update fn t" "core_fun fn"
    "(fn (t0\<lparr>tUpdatedAt := u0\<rparr>))\<lparr>tUpdatedAt := eNow e\<rparr> = (fn t0)\<lparr>tUpdatedAt := eNow e\<rparr>"
    using assms(5) by (simp_all add: change_fun_def)
  from step_update [OF assms(1-3) f(1,2) assms(4), of ev] show ?thesis unfolding f(3) .
qed

end

subsection \<open>Executing inline\<close>

text \<open>The last change \<open>executeOnce\<close> makes, as one function.\<close>

definition sync_change ::
  "http_env \<Rightarrow> catalog \<Rightarrow> verb \<Rightarrow> int \<Rightarrow> string list \<Rightarrow> string \<Rightarrow> task \<Rightarrow> task" where
  "sync_change h cat v maxRetries argv stdin =
     (let res = Run (hOS h) argv stdin (verb_timeout cat v);
          out = scrubOutput (rStdout res) stdin; err = scrubOutput (rStderr res) stdin;
          (outcome, msg) = outcome_of res
      in if outcome = ''ok'' then sync_ok (rExitCode res) out err (sync_result v res)
         else if ShouldExhaust 0 maxRetries then set_exhausted outcome (rExitCode res) out err msg
         else set_retry outcome (rExitCode res) out err msg 1
           (hRetryNow h + DelayAfterFailure (hRand h) (backoffBase cat) 0 maxServerJitter))"

definition henv_ok :: "http_env \<Rightarrow> catalog \<Rightarrow> bool" where
  "henv_ok h cat \<longleftrightarrow> (\<forall>k. env_ok (hStore h k)) \<and>
     year_ok (hRetryNow h + DelayAfterFailure (hRand h) (backoffBase cat) 0 maxServerJitter)"

lemma change_fun_sync: "henv_ok h cat \<Longrightarrow> change_fun (sync_change h cat v mr argv stdin)"
  unfolding sync_change_def Let_def henv_ok_def by (simp add: change_fun_simple split: prod.split)

lemma sv_update_simps [simp]:
  "svTasks (sv_update ops e tid fn ev sv) = snd (sUpdateAndAudit ops e tid fn ev (svTasks sv))"
  "svCatalog (sv_update ops e tid fn ev sv) = svCatalog sv"
  "svSyncExec (sv_update ops e tid fn ev sv) = svSyncExec sv"
  by (simp_all add: sv_update_def)

lemma sv_breaker_simps [simp]:
  "svTasks (snd (sv_breaker v f sv)) = svTasks sv" "svCatalog (snd (sv_breaker v f sv)) = svCatalog sv"
  "svSyncExec (snd (sv_breaker v f sv)) = svSyncExec sv"
  by (simp_all add: sv_breaker_def split: option.split prod.split)

lemma breakerFor_simps [simp]:
  "svTasks (snd (breakerFor v sv)) = svTasks sv" "svCatalog (snd (breakerFor v sv)) = svCatalog sv"
  "svSyncExec (snd (breakerFor v sv)) = svSyncExec sv"
  by (simp_all add: breakerFor_def Let_def split: option.split prod.split)

lemma peek_open_simps [simp]:
  "svTasks (snd (peek_open now v sv)) = svTasks sv" "svCatalog (snd (peek_open now v sv)) = svCatalog sv"
  "svSyncExec (snd (peek_open now v sv)) = svSyncExec sv"
  by (simp_all add: peek_open_def case_prod_unfold split: option.split)

lemma executeOnce_store:
  "\<exists>ev1 ev3 oc msg ec.
     svTasks (executeOnce ops h tid v mr argv red stdin sv) =
       snd (sUpdateAndAudit ops (hStore h 10) tid (sync_change h (svCatalog sv) v mr argv stdin) ev3
         (snd (sRecordAttempt ops (hStore h 9) tid 0 (hStart h) (hEnd h) ec oc msg
           (snd (sUpdateAndAudit ops (hStore h 8) tid sync_executing ev1 (svTasks sv))))))"
proof -
  let ?res = "Run (hOS h) argv stdin (verb_timeout (svCatalog sv) v)"
  obtain oc msg where o: "outcome_of ?res = (oc, msg)" by (cases "outcome_of ?res")
  show ?thesis
  proof (cases "oc = ''ok''")
    case True
    with o show ?thesis unfolding executeOnce_def sync_change_def Let_def
      apply (simp split del: if_split)
      apply (intro exI)
      apply (rule refl)
      done
  next
    case False
    with o show ?thesis unfolding executeOnce_def sync_change_def Let_def
      apply (cases "ShouldExhaust 0 mr")
       apply (simp split del: if_split)
       apply (intro exI)
       apply (rule refl)
      apply (simp split del: if_split)
      apply (intro exI)
      apply (rule refl)
      done
  qed
qed

lemma executeOnce_catalog [simp]:
  "svCatalog (executeOnce ops h tid v mr argv red stdin sv) = svCatalog sv"
  "svSyncExec (executeOnce ops h tid v mr argv red stdin sv) = svSyncExec sv"
  by (simp_all add: executeOnce_def Let_def split: prod.split)

text \<open>The pipeline hands the task to the worker or executes it.\<close>

definition pipeline_change :: "http_env \<Rightarrow> 's server \<Rightarrow> verb \<Rightarrow> string list \<Rightarrow> string \<Rightarrow> task \<Rightarrow> task" where
  "pipeline_change h sv v argv stdin t =
     (if svSyncExec sv
      then sync_change h (svCatalog sv) v (verb_retries (svCatalog sv) v) argv
             (case vStdinArg v of Some _ \<Rightarrow> stdin | None \<Rightarrow> []) (sync_executing t)
      else set_pending t)"

lemma pipeline_change_tasks [simp]:
  "pipeline_change h (sv\<lparr>svTasks := s\<rparr>) v argv stdin = pipeline_change h sv v argv stdin"
  by (simp add: fun_eq_iff pipeline_change_def)

context task_store begin

lemma executeOnce_effect:
  assumes "inv (svTasks sv)" and "henv_ok h (svCatalog sv)" and "view (svTasks sv) tid = Some t"
    and "core t = core (t0\<lparr>tUpdatedAt := u0\<rparr>)"
  shows "inv (svTasks (executeOnce ops h tid v mr argv red stdin sv)) \<and>
    keys (svTasks (executeOnce ops h tid v mr argv red stdin sv)) = keys (svTasks sv) \<and>
    (\<exists>t' u. view (svTasks (executeOnce ops h tid v mr argv red stdin sv)) = (view (svTasks sv))(tid \<mapsto> t') \<and>
      core t' = core ((sync_change h (svCatalog sv) v mr argv stdin (sync_executing t0))\<lparr>tUpdatedAt := u\<rparr>))"
proof -
  have e: "env_ok (hStore h k)" for k using assms(2) by (simp add: henv_ok_def)
  obtain ev1 ev3 oc msg ec where ws: "svTasks (executeOnce ops h tid v mr argv red stdin sv) =
       snd (sUpdateAndAudit ops (hStore h 10) tid (sync_change h (svCatalog sv) v mr argv stdin) ev3
         (snd (sRecordAttempt ops (hStore h 9) tid 0 (hStart h) (hEnd h) ec oc msg
           (snd (sUpdateAndAudit ops (hStore h 8) tid sync_executing ev1 (svTasks sv))))))"
    using executeOnce_store by blast
  let ?s1 = "snd (sUpdateAndAudit ops (hStore h 8) tid sync_executing ev1 (svTasks sv))"
  let ?s2 = "snd (sRecordAttempt ops (hStore h 9) tid 0 (hStart h) (hEnd h) ec oc msg ?s1)"
  obtain t1 where s1: "inv ?s1" "keys ?s1 = keys (svTasks sv)" "view ?s1 = (view (svTasks sv))(tid \<mapsto> t1)"
      "core t1 = core ((sync_executing t0)\<lparr>tUpdatedAt := eNow (hStore h 8)\<rparr>)"
    using update_step [OF assms(1) e assms(3,4) change_fun_simple(3)] by blast
  note s2 = record_attempt [OF s1(1), of "hStore h 9" tid 0 "hStart h" "hEnd h" ec oc msg]
  have v2: "view ?s2 tid = Some t1" using s2 s1(3) by simp
  have i2: "inv ?s2" using s2 by blast
  obtain t' where "inv (svTasks (executeOnce ops h tid v mr argv red stdin sv))"
      "keys (svTasks (executeOnce ops h tid v mr argv red stdin sv)) = keys ?s2"
      "view (svTasks (executeOnce ops h tid v mr argv red stdin sv)) = (view ?s2)(tid \<mapsto> t')"
      "core t' = core ((sync_change h (svCatalog sv) v mr argv stdin (sync_executing t0))
         \<lparr>tUpdatedAt := eNow (hStore h 10)\<rparr>)"
    using update_step [OF i2 e v2 s1(4) change_fun_sync [OF assms(2)]] unfolding ws by metis
  with s1 s2 show ?thesis by auto
qed

lemma runPipeline_effect:
  assumes "inv (svTasks sv)" and "henv_ok h (svCatalog sv)" and "view (svTasks sv) tid = Some t"
    and "core t = core (t0\<lparr>tUpdatedAt := u0\<rparr>)"
  shows "inv (svTasks (runPipeline ops h tid v argv red stdin sv)) \<and>
    keys (svTasks (runPipeline ops h tid v argv red stdin sv)) = keys (svTasks sv) \<and>
    (\<exists>t' u. view (svTasks (runPipeline ops h tid v argv red stdin sv)) = (view (svTasks sv))(tid \<mapsto> t') \<and>
      core t' = core ((pipeline_change h sv v argv stdin t0)\<lparr>tUpdatedAt := u\<rparr>))"
proof -
  have e: "env_ok (hStore h k)" for k using assms(2) by (simp add: henv_ok_def)
  let ?sv = "sv_update ops (hStore h 7) tid (\<lambda>t. t) (api_event tid v ''accepted'' red None 0 []) sv"
  obtain t1 where s1: "inv (svTasks ?sv)" "keys (svTasks ?sv) = keys (svTasks sv)"
      "view (svTasks ?sv) = (view (svTasks sv))(tid \<mapsto> t1)"
      "core t1 = core (t0\<lparr>tUpdatedAt := eNow (hStore h 7)\<rparr>)"
    using update_step [OF assms(1) e assms(3,4) change_fun_simple(1)] unfolding sv_update_simps by blast
  have v1: "view (svTasks ?sv) tid = Some t1" using s1(3) by simp
  show ?thesis
  proof (cases "svSyncExec sv")
    case True
    then have eq: "runPipeline ops h tid v argv red stdin sv =
        executeOnce ops h tid v (verb_retries (svCatalog sv) v) argv red
          (case vStdinArg v of Some _ \<Rightarrow> stdin | None \<Rightarrow> []) ?sv"
      by (simp add: runPipeline_def Let_def)
    have "henv_ok h (svCatalog ?sv)" using assms(2) by simp
    from executeOnce_effect [OF s1(1) this v1 s1(4)] s1(2,3) True show ?thesis
      unfolding eq pipeline_change_def by (simp add: fun_upd_upd)
  next
    case False
    then have eq: "runPipeline ops h tid v argv red stdin sv =
        sv_update ops (hStore h 8) tid set_pending
          (api_event tid v (state_name StatePending) red None 0 []) ?sv"
      by (simp add: runPipeline_def Let_def del: state_name.simps)
    let ?ev = "api_event tid v (state_name StatePending) red None 0 []"
    have "change_fun set_pending" by (rule change_fun_simple)
    then obtain t' where "inv (snd (sUpdateAndAudit ops (hStore h 8) tid set_pending ?ev (svTasks ?sv)))"
        "keys (snd (sUpdateAndAudit ops (hStore h 8) tid set_pending ?ev (svTasks ?sv))) = keys (svTasks ?sv)"
        "view (snd (sUpdateAndAudit ops (hStore h 8) tid set_pending ?ev (svTasks ?sv))) =
           (view (svTasks ?sv))(tid \<mapsto> t')"
        "core t' = core ((set_pending t0)\<lparr>tUpdatedAt := eNow (hStore h 8)\<rparr>)"
      using update_step [OF s1(1) e v1 s1(4)] by metis
    then show ?thesis
      unfolding eq pipeline_change_def sv_update_simps(1) [of ops "hStore h 8"] using s1(2,3) False by auto
  qed
qed

end

definition post_input :: "catalog \<Rightarrow> verb \<Rightarrow> args \<Rightarrow> string \<Rightarrow> string list \<Rightarrow> string list \<Rightarrow> create_input" where
  "post_input cat v args stdin argv red =
     \<lparr>ciVerb = vName v,
      ciArgsJSON = (case json_marshal (VMap (RedactArgs v args)) of Some b \<Rightarrow> b | None \<Rightarrow> []),
      ciArgv = argv, ciArgvRedacted = red, ciStdin = stdin, ciMaxRetries = verb_retries cat v\<rparr>"

subsection \<open>Idempotency keys\<close>

context task_store begin

lemma prior_none: "inv s \<Longrightarrow> henv_ok h cat \<Longrightarrow> key = [] \<or> keys s key = None \<Longrightarrow>
  find_prior ops h v key rh s = PriorNone"
  using find_key [of s "hStore h 0" key] by (auto simp: find_prior_def henv_ok_def)

lemma prior_found:
  assumes "inv s" and "henv_ok h cat" and "key \<noteq> []" and "keys s key = Some b"
  shows "find_prior ops h v key rh s =
    (if iVerb b \<noteq> vName v \<or> iHash b \<noteq> rh then PriorConflict
     else case sGet ops (hStore h 1) (iTaskID b) s of Some t \<Rightarrow> PriorReplay t | None \<Rightarrow> PriorNone)"
proof -
  have "env_ok (hStore h 0)" using assms(2) by (simp add: henv_ok_def)
  with find_key [OF assms(1), of "hStore h 0" key] assms(4)
  obtain r where "sFindIdempotency ops (hStore h 0) key s = Inr (Some r)" "same_binding r b"
    by (auto simp: option_rel_Some2)
  with assms(3) show ?thesis by (simp add: find_prior_def same_binding_def)
qed

lemma get_found:
  assumes "inv s" and "env_ok e" and "view s tid = Some t"
  obtains t1 where "sGet ops e tid s = Some t1" and "core t1 = core t"
  using get [OF assms(1,2), of tid] assms(3) by auto

lemma bind_fresh:
  assumes "inv (svTasks sv)" and "henv_ok h cat" and "key = [] \<or> keys (svTasks sv) key = None"
  shows "\<exists>s'. bind_key ops h v key rh tid red sv = (None, sv\<lparr>svTasks := s'\<rparr>) \<and> inv s' \<and>
    view s' = view (svTasks sv) \<and>
    (if key = [] then keys s' = keys (svTasks sv)
     else \<exists>b. keys s' = (keys (svTasks sv))(key \<mapsto> b) \<and> iVerb b = vName v \<and> iHash b = rh \<and> iTaskID b = tid)"
proof (cases "key = []")
  case True
  have "sv = sv\<lparr>svTasks := svTasks sv\<rparr>" by simp
  with True assms(1) show ?thesis by (intro exI [of _ "svTasks sv"]) (simp add: bind_key_def)
next
  case False
  let ?r = "\<lparr>iKey = key, iVerb = vName v, iHash = rh, iTaskID = tid, iCreatedAt = zero_time\<rparr>"
  have "env_ok (hStore h 3)" using assms(2) by (simp add: henv_ok_def)
  with save_key [OF assms(1), of "hStore h 3" ?r] False assms(3)
  obtain s' b where "sSaveIdempotency ops (hStore h 3) ?r (svTasks sv) = (None, s')" "inv s'"
      "view s' = view (svTasks sv)" "keys s' = (keys (svTasks sv))(key \<mapsto> b)" "same_binding b ?r"
    by auto
  with False show ?thesis by (intro exI [of _ s']) (auto simp: bind_key_def same_binding_def)
qed

lemma bind_taken:
  assumes "inv (svTasks sv)" and "henv_ok h cat" and "key \<noteq> []" and "keys (svTasks sv) key = Some b"
    and "view (svTasks sv) tid = Some own" and "view (svTasks sv) (iTaskID b) = Some win"
    and "tid \<noteq> iTaskID b"
  shows "\<exists>t1 sv' own'. bind_key ops h v key rh tid red sv = (Some t1, sv') \<and> core t1 = core win \<and>
    inv (svTasks sv') \<and> keys (svTasks sv') = keys (svTasks sv) \<and>
    view (svTasks sv') = (view (svTasks sv))(tid \<mapsto> own') \<and>
    tState own' = StateCanceled \<and> tError own' = ''superseded by idempotent replay''"
proof -
  have e: "env_ok (hStore h k)" for k using assms(2) by (simp add: henv_ok_def)
  let ?r = "\<lparr>iKey = key, iVerb = vName v, iHash = rh, iTaskID = tid, iCreatedAt = zero_time\<rparr>"
  obtain err where s: "sSaveIdempotency ops (hStore h 3) ?r (svTasks sv) = (Some err, svTasks sv)"
    using save_taken [OF assms(1) e [of 3], of ?r] assms(4) by auto
  obtain r where f: "sFindIdempotency ops (hStore h 4) key (svTasks sv) = Inr (Some r)" "same_binding r b"
    using find_key [OF assms(1) e [of 4], of key] assms(4) by (auto simp: option_rel_Some2)
  let ?ev = "api_event tid v (state_name StateCanceled) red None 0 ''superseded by idempotent replay''"
  let ?sv = "sv_update ops (hStore h 5) tid superseded ?ev sv"
  have "core own = core (own\<lparr>tUpdatedAt := tUpdatedAt own\<rparr>)" by simp
  from update_step [OF assms(1) e [of 5] assms(5) this change_fun_simple(4), of ?ev]
  obtain own' where u: "inv (svTasks ?sv)" "keys (svTasks ?sv) = keys (svTasks sv)"
      "view (svTasks ?sv) = (view (svTasks sv))(tid \<mapsto> own')"
      "core own' = core ((superseded own)\<lparr>tUpdatedAt := eNow (hStore h 5)\<rparr>)"
    by auto
  have "view (svTasks ?sv) (iTaskID b) = Some win" using u(3) assms(6,7) by simp
  then obtain t1 where g: "sGet ops (hStore h 6) (iTaskID b) (svTasks ?sv) = Some t1" "core t1 = core win"
    using get_found [OF u(1) e] by metis
  have "bind_key ops h v key rh tid red sv = (Some t1, ?sv)"
    using assms(3) s f g(1) by (simp add: bind_key_def Let_def same_binding_def del: state_name.simps sv_update_simps)
  moreover have "tState own' = StateCanceled" "tError own' = ''superseded by idempotent replay''"
    using core_eqD(3,11) [OF u(4)] by (simp_all add: superseded_def)
  ultimately show ?thesis using g(2) u(1-3) by blast
qed

subsection \<open>An accepted request\<close>

lemma run_created_effect:
  assumes "inv (svTasks sv)" and "henv_ok h (svCatalog sv)" and "view (svTasks sv) tid = Some t"
    and "core t = core (t0\<lparr>tUpdatedAt := u0\<rparr>)" and "key = [] \<or> keys (svTasks sv) key = None"
  shows "\<exists>sv' t' u. run_created ops h v key rh argv red stdin tid sv = (task_answer StatusAccepted t' [], sv') \<and>
    inv (svTasks sv') \<and> view (svTasks sv') tid = Some t' \<and>
    (\<forall>k. k \<noteq> tid \<longrightarrow> view (svTasks sv') k = view (svTasks sv) k) \<and>
    core t' = core ((pipeline_change h sv v argv stdin t0)\<lparr>tUpdatedAt := u\<rparr>) \<and>
    svCatalog sv' = svCatalog sv \<and>
    (if key = [] then keys (svTasks sv') = keys (svTasks sv)
     else \<exists>b. keys (svTasks sv') = (keys (svTasks sv))(key \<mapsto> b) \<and>
       iVerb b = vName v \<and> iHash b = rh \<and> iTaskID b = tid)"
proof -
  have e: "env_ok (hStore h k)" for k using assms(2) by (simp add: henv_ok_def)
  obtain s1 where s1: "bind_key ops h v key rh tid red sv = (None, sv\<lparr>svTasks := s1\<rparr>)" "inv s1"
      "view s1 = view (svTasks sv)"
      "if key = [] then keys s1 = keys (svTasks sv)
       else \<exists>b. keys s1 = (keys (svTasks sv))(key \<mapsto> b) \<and> iVerb b = vName v \<and> iHash b = rh \<and> iTaskID b = tid"
    using bind_fresh [OF assms(1,2,5)] by blast
  let ?sv1 = "sv\<lparr>svTasks := s1\<rparr>"
  let ?sv2 = "runPipeline ops h tid v argv red stdin ?sv1"
  have h1: "inv (svTasks ?sv1)" "henv_ok h (svCatalog ?sv1)" "view (svTasks ?sv1) tid = Some t"
    using s1 assms(2,3) by simp_all
  obtain t' u where p: "inv (svTasks ?sv2)" "keys (svTasks ?sv2) = keys s1"
      "view (svTasks ?sv2) = (view s1)(tid \<mapsto> t')"
      "core t' = core ((pipeline_change h sv v argv stdin t0)\<lparr>tUpdatedAt := u\<rparr>)"
    using runPipeline_effect [OF h1 assms(4), of v argv red stdin] by auto
  have "view (svTasks ?sv2) tid = Some t'" using p(3) by simp
  then obtain t2 where g: "sGet ops (hStore h 11) tid (svTasks ?sv2) = Some t2" "core t2 = core t'"
    using get_found [OF p(1) e] by metis
  let ?sv3 = "sv_drain ops (hStore h 12) 20 ?sv2"
  have d: "view (svTasks ?sv3) = view (svTasks ?sv2)" "keys (svTasks ?sv3) = keys (svTasks ?sv2)"
    "inv (svTasks ?sv3)" "svCatalog ?sv3 = svCatalog sv"
    using drain [OF p(1), of "hStore h 12" "svAudit ?sv2" 20]
    by (simp_all add: sv_drain_def case_prod_unfold runPipeline_def Let_def)
  have "run_created ops h v key rh argv red stdin tid sv = (task_answer StatusAccepted t2 [], ?sv3)"
    using s1(1) g(1) by (simp add: run_created_def Let_def)
  moreover have "task_answer StatusAccepted t2 [] = task_answer StatusAccepted t' []"
    using core_eqD(1,3) [OF g(2)] by (simp add: task_answer_def)
  ultimately show ?thesis using d p s1(3,4)
    by (intro exI [of _ ?sv3] exI [of _ t'] exI [of _ u]) auto
qed

lemma post_fresh:
  assumes "inv (svTasks sv)" and "henv_ok h (svCatalog sv)"
    and "key = [] \<or> keys (svTasks sv) key = None" and "\<not> fst (peek_open (hSnap h) v sv)"
    and "int (sDepth ops (svTasks sv)) < MaxQueueDepth (cDaemon (svCatalog sv))"
    and "view (svTasks sv) (eID (hStore h 2)) = None"
  shows "\<exists>sv' t' u. post_expanded ops h v args stdin key argv red sv = (task_answer StatusAccepted t' [], sv') \<and>
    inv (svTasks sv') \<and> view (svTasks sv') (eID (hStore h 2)) = Some t' \<and>
    (\<forall>k. k \<noteq> eID (hStore h 2) \<longrightarrow> view (svTasks sv') k = view (svTasks sv) k) \<and>
    core t' = core ((pipeline_change h sv v argv stdin
      (new_task (hStore h 2) (post_input (svCatalog sv) v args stdin argv red)))\<lparr>tUpdatedAt := u\<rparr>) \<and>
    svCatalog sv' = svCatalog sv \<and>
    (if key = [] then keys (svTasks sv') = keys (svTasks sv)
     else \<exists>b. keys (svTasks sv') = (keys (svTasks sv))(key \<mapsto> b) \<and> iVerb b = vName v \<and>
       iHash b = idempotencyHash (hSha h) (vName v) args stdin \<and> iTaskID b = eID (hStore h 2))"
proof -
  let ?e = "hStore h 2"
  let ?i = "post_input (svCatalog sv) v args stdin argv red"
  let ?rh = "idempotencyHash (hSha h) (vName v) args stdin"
  obtain sv1 where pk: "peek_open (hSnap h) v sv = (False, sv1)" using assms(4) by (metis (full_types) prod.collapse)
  have sv1: "svTasks sv1 = svTasks sv" "svCatalog sv1 = svCatalog sv" "svSyncExec sv1 = svSyncExec sv"
    using peek_open_simps [of "hSnap h" v sv] unfolding pk by simp_all
  have "env_ok ?e" using assms(2) by (simp add: henv_ok_def)
  then obtain s t1 t2 where c: "sCreateAndAuditLimited ops ?e ?i
        (api_event [] v (state_name StateAccepted) red None 0 []) (MaxQueueDepth (cDaemon (svCatalog sv)))
        (svTasks sv) = (Inr t1, s)" "inv s" "view s = (view (svTasks sv))(eID ?e \<mapsto> t2)"
      "keys s = keys (svTasks sv)" "core t2 = core (new_task ?e ?i)" "core t1 = core t2"
    using create_room [OF assms(1) _ assms(5,6)] by blast
  have id: "tID t1 = eID ?e" using core_eqD(1) [OF c(6)] core_eqD(1) [OF c(5)] by (simp add: new_task_def)
  let ?sv2 = "sv1\<lparr>svTasks := s\<rparr>"
  have p: "core t2 = core ((new_task ?e ?i)\<lparr>tUpdatedAt := eNow ?e\<rparr>)" using c(5) by (simp add: new_task_def)
  have q: "inv (svTasks ?sv2)" "henv_ok h (svCatalog ?sv2)" "view (svTasks ?sv2) (tID t1) = Some t2"
    "key = [] \<or> keys (svTasks ?sv2) key = None"
    using c assms(2,3) sv1 id by simp_all
  have ch: "pipeline_change h ?sv2 v argv stdin = pipeline_change h sv v argv stdin"
    by (simp add: fun_eq_iff pipeline_change_def sv1)
  have f: "svTasks ?sv2 = s" "svCatalog ?sv2 = svCatalog sv" using sv1 by simp_all
  obtain sv' t' u where r:
      "run_created ops h v key ?rh argv red stdin (tID t1) ?sv2 = (task_answer StatusAccepted t' [], sv')"
      "inv (svTasks sv')" "view (svTasks sv') (tID t1) = Some t'"
      "\<forall>k. k \<noteq> tID t1 \<longrightarrow> view (svTasks sv') k = view s k"
      "core t' = core ((pipeline_change h sv v argv stdin (new_task ?e ?i))\<lparr>tUpdatedAt := u\<rparr>)"
      "svCatalog sv' = svCatalog sv"
      "if key = [] then keys (svTasks sv') = keys s
       else \<exists>b. keys (svTasks sv') = (keys s)(key \<mapsto> b) \<and> iVerb b = vName v \<and> iHash b = ?rh \<and> iTaskID b = tID t1"
    using run_created_effect [OF q(1-3) p q(4), of v ?rh argv red stdin] unfolding ch f by blast
  have "post_expanded ops h v args stdin key argv red sv =
      run_created ops h v key ?rh argv red stdin (tID t1) ?sv2"
    using prior_none [OF assms(1-3)] c(1) pk sv1
    by (simp add: post_expanded_def Let_def post_input_def)
  with r c(3,4) id show ?thesis
    by (intro exI [of _ sv'] exI [of _ t'] exI [of _ u]) auto
qed

lemma post_full:
  assumes "inv (svTasks sv)" and "henv_ok h (svCatalog sv)"
    and "key = [] \<or> keys (svTasks sv) key = None" and "\<not> fst (peek_open (hSnap h) v sv)"
    and "MaxQueueDepth (cDaemon (svCatalog sv)) \<le> int (sDepth ops (svTasks sv))"
  shows "\<exists>sv'. post_expanded ops h v args stdin key argv red sv =
      (writeErr StatusServiceUnavailable ''queue_full'' [], sv') \<and> svTasks sv' = svTasks sv"
proof -
  obtain sv1 where pk: "peek_open (hSnap h) v sv = (False, sv1)" using assms(4) by (metis (full_types) prod.collapse)
  have sv1: "svTasks sv1 = svTasks sv" "svCatalog sv1 = svCatalog sv"
    using peek_open_simps [of "hSnap h" v sv] unfolding pk by simp_all
  have "env_ok (hStore h 2)" using assms(2) by (simp add: henv_ok_def)
  from create_full [OF assms(1) this assms(5)] prior_none [OF assms(1-3)] pk sv1 show ?thesis
    by (simp add: post_expanded_def Let_def)
qed

end

subsection \<open>Properties\<close>

text \<open>A request that parses and expands.\<close>

definition parsed_post ::
  "catalog \<Rightarrow> string \<Rightarrow> string \<Rightarrow> verb \<Rightarrow> post_body \<Rightarrow> string list \<Rightarrow> string list \<Rightarrow> bool" where
  "parsed_post cat name payload v body argv red \<longleftrightarrow>
     Get cat name = Some v \<and> decode_post payload = Some body \<and>
     expandArgv v (request_args v (pbArgs body)) (pbStdin body) = Some (Inr (argv, red))"

lemma handlePostVerb_parsed:
  "parsed_post (svCatalog sv) name payload v body argv red \<Longrightarrow>
   handlePostVerb ops h name payload sv =
     Some (post_expanded ops h v (request_args v (pbArgs body)) (pbStdin body) (pbKey body) argv red sv)"
  by (simp add: handlePostVerb_def parsed_post_def Let_def)

context task_store begin

lemma accepted_or_full:
  assumes "inv (svTasks sv)" and "henv_ok h (svCatalog sv)" and "\<not> svSyncExec sv"
    and "parsed_post (svCatalog sv) name payload v body argv red"
    and "pbKey body = [] \<or> keys (svTasks sv) (pbKey body) = None"
    and "\<not> fst (peek_open (hSnap h) v sv)" and "view (svTasks sv) (eID (hStore h 2)) = None"
  shows "\<exists>rp sv'. handlePostVerb ops h name payload sv = Some (rp, sv') \<and>
    (if int (sDepth ops (svTasks sv)) < MaxQueueDepth (cDaemon (svCatalog sv))
     then \<exists>t. rp = task_answer StatusAccepted t [] \<and> inv (svTasks sv') \<and>
       view (svTasks sv') = (view (svTasks sv))(eID (hStore h 2) \<mapsto> t) \<and>
       tID t = eID (hStore h 2) \<and> tState t = StatePending \<and> tVerb t = vName v \<and> tAttempt t = 0 \<and>
       tArgvJSON t = encodeArgv argv \<and> tStdinBlob t = pbStdin body \<and>
       tMaxRetries t = verb_retries (svCatalog sv) v
     else rp = writeErr StatusServiceUnavailable ''queue_full'' [] \<and> svTasks sv' = svTasks sv)"
proof (cases "int (sDepth ops (svTasks sv)) < MaxQueueDepth (cDaemon (svCatalog sv))")
  case True
  then have room: "int (sDepth ops (svTasks sv)) < MaxQueueDepth (cDaemon (svCatalog sv))" by simp
  let ?args = "request_args v (pbArgs body)"
  obtain sv' t' u where r: "post_expanded ops h v ?args (pbStdin body) (pbKey body) argv red sv =
        (task_answer StatusAccepted t' [], sv')" "inv (svTasks sv')"
      "view (svTasks sv') (eID (hStore h 2)) = Some t'"
      "\<forall>k. k \<noteq> eID (hStore h 2) \<longrightarrow> view (svTasks sv') k = view (svTasks sv) k"
      "core t' = core ((pipeline_change h sv v argv (pbStdin body)
        (new_task (hStore h 2) (post_input (svCatalog sv) v ?args (pbStdin body) argv red)))\<lparr>tUpdatedAt := u\<rparr>)"
    using post_fresh [OF assms(1,2,5,6) room assms(7)] by blast
  have "view (svTasks sv') = (view (svTasks sv))(eID (hStore h 2) \<mapsto> t')" using r(3,4) by auto
  moreover note f = core_eqD [OF r(5)]
  have "tID t' = eID (hStore h 2) \<and> tState t' = StatePending \<and> tVerb t' = vName v \<and> tAttempt t' = 0 \<and>
      tArgvJSON t' = encodeArgv argv \<and> tStdinBlob t' = pbStdin body \<and>
      tMaxRetries t' = verb_retries (svCatalog sv) v"
    using f assms(3) by (simp add: pipeline_change_def set_pending_def new_task_def post_input_def)
  ultimately show ?thesis using True r(1,2) handlePostVerb_parsed [OF assms(4), of ops h] by auto
next
  case False
  then have full: "MaxQueueDepth (cDaemon (svCatalog sv)) \<le> int (sDepth ops (svTasks sv))" by simp
  show ?thesis
    using post_full [OF assms(1,2,5,6) full] handlePostVerb_parsed [OF assms(4), of ops h] False
    by fastforce
qed

end

text \<open>
  On the memory store: An accepted request becomes exactly one pending task. With the worker on, a well-formed post
  whose key is not bound yet and whose breaker is not open is answered 202 with the id of a new
  pending task that carries the expanded argument vector, the stdin body and the retry limit of the
  verb, and no other task changes; when the queue is at its capacity it is answered 503
  \<open>queue_full\<close> and the store is untouched.
\<close>

theorem post_accepts:
  assumes "mem_ok (svTasks sv)" and "henv_ok h (svCatalog sv)" and "\<not> svSyncExec sv"
    and "parsed_post (svCatalog sv) name payload v body argv red"
    and "pbKey body = [] \<or> mem_keys (svTasks sv) (pbKey body) = None"
    and "\<not> fst (peek_open (hSnap h) v sv)" and "mem_view (svTasks sv) (eID (hStore h 2)) = None"
  shows "\<exists>rp sv'. handlePostVerb memory_ops h name payload sv = Some (rp, sv') \<and>
    (if int (mem_Depth (svTasks sv)) < MaxQueueDepth (cDaemon (svCatalog sv))
     then \<exists>t. rp = task_answer StatusAccepted t [] \<and> mem_ok (svTasks sv') \<and>
       mem_view (svTasks sv') = (mem_view (svTasks sv))(eID (hStore h 2) \<mapsto> t) \<and>
       tID t = eID (hStore h 2) \<and> tState t = StatePending \<and> tVerb t = vName v \<and> tAttempt t = 0 \<and>
       tArgvJSON t = encodeArgv argv \<and> tStdinBlob t = pbStdin body \<and>
       tMaxRetries t = verb_retries (svCatalog sv) v
     else rp = writeErr StatusServiceUnavailable ''queue_full'' [] \<and> svTasks sv' = svTasks sv)"
  using mem.accepted_or_full [OF assms(1-5) _ assms(7)] assms(6) by simp

text \<open>
  Repeating a request at once, on the memory store: it is harmless (ADR-0003). After a keyed post was accepted, the same request
  again, whatever happened to the clock, is answered 200 with the same task, marked as a replay,
  and nothing at all changes: no second task, no second execution. Any request for the same verb
  under the same key whose hash differs is answered 409 and changes nothing either.
\<close>

theorem idempotent_replay:
  assumes "mem_ok (svTasks sv)" and "henv_ok h (svCatalog sv)" and "henv_ok h2 (svCatalog sv)"
    and "hSha h2 = hSha h" and "parsed_post (svCatalog sv) name payload v body argv red"
    and "pbKey body \<noteq> []" and "mem_keys (svTasks sv) (pbKey body) = None"
    and "\<not> fst (peek_open (hSnap h) v sv)" and "mem_view (svTasks sv) (eID (hStore h 2)) = None"
    and "int (mem_Depth (svTasks sv)) < MaxQueueDepth (cDaemon (svCatalog sv))"
  shows "\<exists>t sv'. handlePostVerb memory_ops h name payload sv = Some (task_answer StatusAccepted t [], sv') \<and>
    handlePostVerb memory_ops h2 name payload sv' = Some (replay_answer t, sv') \<and>
    (\<forall>name2 payload2 v2 body2 argv2 red2.
       parsed_post (svCatalog sv) name2 payload2 v2 body2 argv2 red2 \<and> pbKey body2 = pbKey body \<and>
       (vName v2 \<noteq> vName v \<or>
        idempotencyHash (hSha h) (vName v2) (request_args v2 (pbArgs body2)) (pbStdin body2) \<noteq>
        idempotencyHash (hSha h) (vName v) (request_args v (pbArgs body)) (pbStdin body)) \<longrightarrow>
       handlePostVerb memory_ops h2 name2 payload2 sv' =
         Some (writeErr StatusConflict ''idempotency_conflict'' [], sv'))"
proof -
  let ?args = "request_args v (pbArgs body)"
  have room: "int (sDepth memory_ops (svTasks sv)) < MaxQueueDepth (cDaemon (svCatalog sv))"
    using assms(10) by simp
  have k: "pbKey body = [] \<or> mem_keys (svTasks sv) (pbKey body) = None" using assms(7) by simp
  obtain sv' t' b where r: "post_expanded memory_ops h v ?args (pbStdin body) (pbKey body) argv red sv =
        (task_answer StatusAccepted t' [], sv')" "mem_ok (svTasks sv')"
      "mem_view (svTasks sv') (eID (hStore h 2)) = Some t'" "svCatalog sv' = svCatalog sv"
      "mem_keys (svTasks sv') = (mem_keys (svTasks sv))(pbKey body \<mapsto> b)" "iVerb b = vName v"
      "iHash b = idempotencyHash (hSha h) (vName v) ?args (pbStdin body)" "iTaskID b = eID (hStore h 2)"
    using mem.post_fresh [OF assms(1,2) k assms(8) room assms(9), of ?args "pbStdin body" argv red] assms(6)
    unfolding if_not_P [OF assms(6)] by blast
  have h2: "henv_ok h2 (svCatalog sv')" using assms(3) r(4) by simp
  have bound: "mem_keys (svTasks sv') (pbKey body) = Some b" using r(5) by simp
  have "env_ok (hStore h2 1)" using h2 by (simp add: henv_ok_def)
  then obtain t1 where g: "sGet memory_ops (hStore h2 1) (iTaskID b) (svTasks sv') = Some t1" "core t1 = core t'"
    using mem.get_found [OF r(2) _ r(3)] r(8) by metis
  have "task_answer st t1 ex = task_answer st t' ex" for st ex
    using core_eqD(1,3) [OF g(2)] by (simp add: task_answer_def)
  then have 2: "handlePostVerb memory_ops h2 name payload sv' = Some (replay_answer t', sv')"
    using mem.prior_found [OF r(2) h2 assms(6) bound] g(1) r(6,7)
      handlePostVerb_parsed [of sv' name payload v body argv red memory_ops h2] assms(4,5)
    unfolding r(4) by (simp add: post_expanded_def Let_def)
  have 3: "handlePostVerb memory_ops h2 name2 payload2 sv' =
         Some (writeErr StatusConflict ''idempotency_conflict'' [], sv')"
    if p: "parsed_post (svCatalog sv) name2 payload2 v2 body2 argv2 red2" "pbKey body2 = pbKey body"
      "vName v2 \<noteq> vName v \<or>
        idempotencyHash (hSha h) (vName v2) (request_args v2 (pbArgs body2)) (pbStdin body2) \<noteq>
        idempotencyHash (hSha h) (vName v) ?args (pbStdin body)"
    for name2 payload2 v2 body2 argv2 red2
    using mem.prior_found [OF r(2) h2 assms(6) bound] r(6,7) p(2,3)
      handlePostVerb_parsed [of sv' name2 payload2 v2 body2 argv2 red2 memory_ops h2] p(1) assms(4)
    unfolding r(4) by (auto simp: post_expanded_def Let_def)
  show ?thesis using handlePostVerb_parsed [OF assms(5), of memory_ops h] r(1) 2 3 by auto
qed

subsection \<open>A concrete server\<close>

definition demo_henv :: "string \<Rightarrow> http_env" where
  "demo_henv tid = \<lparr>hStore = (\<lambda>k. clock_env 0 tid), hOS = demo_os True, hSnap = 0, hStart = 0, hEnd = 0,
     hFail = 0, hRetryNow = 0, hRand = 0, hSha = (\<lambda>s. s), hSpawnFault = False, hStreamID = ''s1''\<rparr>"

definition demo_server :: "memory server" where
  "demo_server = (New_server 0 wifi_catalog None NewMemory)\<lparr>svSyncExec := False\<rparr>"

definition keyed_payload :: string where
  "keyed_payload = [CHR ''{'', quote] @ ''idempotency_key'' @ [quote, CHR '':'', quote] @ ''k1'' @ [quote, CHR ''}'']"

definition stdin_payload :: string where
  "stdin_payload = [CHR ''{'', quote] @ ''idempotency_key'' @ [quote, CHR '':'', quote] @ ''k1'' @
     [quote, CHR '','', quote] @ ''stdin'' @ [quote, CHR '':'', quote] @ ''x'' @ [quote, CHR ''}'']"

definition keyed_body :: "string \<Rightarrow> post_body" where
  "keyed_body s = \<lparr>pbArgs = None, pbStdin = s, pbKey = ''k1''\<rparr>"

lemma demo_henv_ok: "henv_ok (demo_henv tid) cat"
proof -
  have "0 \<le> DelayAfterFailure 0 b 0 maxServerJitter \<and> DelayAfterFailure 0 b 0 maxServerJitter \<le> 2000 * second" for b
    by (rule delay_range) (simp_all add: maxServerJitter_def duration_defs)
  then show ?thesis
    using year_ok_range by (fastforce simp: henv_ok_def demo_henv_def env_ok_clock year_ok_0 second_def)
qed

lemma demo_server_simps [simp]:
  "svTasks demo_server = NewMemory" "svCatalog demo_server = wifi_catalog" "svSyncExec demo_server = False"
  "svCircuits demo_server = None"
  by (simp_all add: demo_server_def New_server_def)

lemma demo_peek: "\<not> fst (peek_open now v demo_server)"
  by (simp add: peek_open_def breakerFor_def)

lemma NewMemory_empty [simp]: "mem_view NewMemory = Map.empty" "mem_keys NewMemory = Map.empty"
  "mem_Depth NewMemory = 0"
  by (simp_all add: mem_view_def mem_keys_def NewMemory_def mem_Depth_def)

definition wifi_token :: expanded where
  "wifi_token = \<lparr>eRaw = ''termux-wifi-connectioninfo'', eOut = ''termux-wifi-connectioninfo'',
     eTmpl = False, eFields = []\<rparr>"

lemma demo_expand:
  "expandArgv wifi_verb [] s = Some (Inr ([''termux-wifi-connectioninfo''], [redact_token [] s wifi_token]))"
proof -
  have t: "str_contains ''termux-wifi-connectioninfo'' open_tag = False" by code_simp
  have s: "subst ''termux-wifi-connectioninfo'' [] = Some wifi_token"
    unfolding subst_def t by (simp add: wifi_token_def)
  have k: "kept [wifi_token] (drop_marks (arg_specs []) [wifi_token]) = [wifi_token]" by code_simp
  have w: "vArgs wifi_verb = []" "vArgv wifi_verb = [''termux-wifi-connectioninfo'']" "SecretFields wifi_verb = []"
    by (simp_all add: wifi_verb_def SecretFields_def)
  show ?thesis
    unfolding expandArgv_def w by (simp add: s k Let_def) (simp add: wifi_token_def)
qed

lemma demo_parsed:
  "parsed_post wifi_catalog ''wifi.info'' keyed_payload wifi_verb (keyed_body [])
     [''termux-wifi-connectioninfo''] [redact_token [] [] wifi_token]"
  "parsed_post wifi_catalog ''wifi.info'' stdin_payload wifi_verb (keyed_body ''x'')
     [''termux-wifi-connectioninfo''] [redact_token [] ''x'' wifi_token]"
proof -
  have j: "json_decode keyed_payload = Some (VMap [(''idempotency_key'', VStr ''k1'')], [])"
    "json_decode stdin_payload = Some (VMap [(''idempotency_key'', VStr ''k1''), (''stdin'', VStr ''x'')], [])"
    "fold_name ''idempotency_key'' = ''idempotency_key''" "fold_name ''stdin'' = ''stdin''"
    by code_simp+
  have l: "take max_body keyed_payload = keyed_payload" "take max_body stdin_payload = stdin_payload"
    by (simp_all add: keyed_payload_def stdin_payload_def max_body_def)
  have w: "skip_ws keyed_payload \<noteq> []" "skip_ws stdin_payload \<noteq> []" by code_simp+
  have d: "decode_post keyed_payload = Some (keyed_body [])" "decode_post stdin_payload = Some (keyed_body ''x'')"
    unfolding decode_post_def decode_members_def l Let_def j if_not_P [OF w(1)] if_not_P [OF w(2)]
    by (simp_all add: j post_field_def decode_text_def keyed_body_def del: fold_name.simps)
  have a: "request_args wifi_verb (pbArgs (keyed_body s)) = []" for s
    by (simp add: request_args_def keyed_body_def wifi_verb_def)
  have b: "pbStdin (keyed_body s) = s" for s by (simp add: keyed_body_def)
  show "parsed_post wifi_catalog ''wifi.info'' keyed_payload wifi_verb (keyed_body [])
     [''termux-wifi-connectioninfo''] [redact_token [] [] wifi_token]"
    "parsed_post wifi_catalog ''wifi.info'' stdin_payload wifi_verb (keyed_body ''x'')
     [''termux-wifi-connectioninfo''] [redact_token [] ''x'' wifi_token]"
    unfolding parsed_post_def a b demo_get d demo_expand by simp_all
qed

lemma demo_mem: "mem_ok (svTasks demo_server)"
  by (simp add: mem_ok_New)

lemma demo_capacity: "0 < MaxQueueDepth (cDaemon (svCatalog demo_server))"
  by (simp add: wifi_catalog_def Default_def)

theorem post_accepts_witness:
  "\<exists>sv' t. handlePostVerb memory_ops (demo_henv ''t1'') ''wifi.info'' keyed_payload demo_server =
      Some (task_answer StatusAccepted t [], sv') \<and>
    mem_view (svTasks sv') = [''t1'' \<mapsto> t] \<and> tState t = StatePending \<and> tMaxRetries t = 0"
proof -
  have e: "eID (hStore (demo_henv ''t1'') 2) = ''t1''" by (simp add: demo_henv_def clock_env_def)
  have r: "verb_retries wifi_catalog wifi_verb = 0" by (simp add: verb_retries_def wifi_verb_def)
  have p: "parsed_post (svCatalog demo_server) ''wifi.info'' keyed_payload wifi_verb (keyed_body [])
      [''termux-wifi-connectioninfo''] [redact_token [] [] wifi_token]" using demo_parsed by simp
  have k: "pbKey (keyed_body []) = [] \<or> mem_keys (svTasks demo_server) (pbKey (keyed_body [])) = None"
    and n: "\<not> svSyncExec demo_server" "mem_view (svTasks demo_server) (eID (hStore (demo_henv ''t1'') 2)) = None"
    and d: "int (mem_Depth (svTasks demo_server)) < MaxQueueDepth (cDaemon (svCatalog demo_server))"
    using demo_capacity by simp_all
  from post_accepts [OF demo_mem demo_henv_ok n(1) p k demo_peek n(2), unfolded if_P [OF d]]
  show ?thesis unfolding e by (simp add: r) metis
qed

theorem idempotent_replay_witness:
  "\<exists>t sv'. handlePostVerb memory_ops (demo_henv ''t1'') ''wifi.info'' keyed_payload demo_server =
      Some (task_answer StatusAccepted t [], sv') \<and>
    handlePostVerb memory_ops (demo_henv ''t2'') ''wifi.info'' keyed_payload sv' = Some (replay_answer t, sv') \<and>
    handlePostVerb memory_ops (demo_henv ''t2'') ''wifi.info'' stdin_payload sv' =
      Some (writeErr StatusConflict ''idempotency_conflict'' [], sv')"
proof -
  have p: "parsed_post (svCatalog demo_server) ''wifi.info'' keyed_payload wifi_verb (keyed_body [])
      [''termux-wifi-connectioninfo''] [redact_token [] [] wifi_token]"
    and p2: "parsed_post (svCatalog demo_server) ''wifi.info'' stdin_payload wifi_verb (keyed_body ''x'')
      [''termux-wifi-connectioninfo''] [redact_token [] ''x'' wifi_token]" using demo_parsed by simp_all
  have k: "pbKey (keyed_body s) \<noteq> []" "mem_keys (svTasks demo_server) (pbKey (keyed_body s)) = None"
    "pbKey (keyed_body s) = pbKey (keyed_body [])" for s
    by (simp_all add: keyed_body_def)
  have f: "mem_view (svTasks demo_server) (eID (hStore (demo_henv ''t1'') 2)) = None"
    "hSha (demo_henv ''t2'') = hSha (demo_henv ''t1'')" by (simp_all add: demo_henv_def)
  have d: "int (mem_Depth (svTasks demo_server)) < MaxQueueDepth (cDaemon (svCatalog demo_server))"
    using demo_capacity by simp
  have n: "idempotencyHash (hSha (demo_henv ''t1'')) (vName wifi_verb)
        (request_args wifi_verb (pbArgs (keyed_body ''x''))) (pbStdin (keyed_body ''x'')) \<noteq>
      idempotencyHash (hSha (demo_henv ''t1'')) (vName wifi_verb)
        (request_args wifi_verb (pbArgs (keyed_body []))) (pbStdin (keyed_body []))"
    by (simp add: idempotencyHash_def keyed_body_def demo_henv_def)
  show ?thesis
    using idempotent_replay [OF demo_mem demo_henv_ok demo_henv_ok f(2) p k(1,2) demo_peek f(1) d] p2 n k(3)
    by blast
qed

context task_store begin

lemma race_lost:
  assumes "inv (svTasks sv)" and "henv_ok h (svCatalog sv)" and "key \<noteq> []"
    and "keys (svTasks sv) key = Some b" and "view (svTasks sv) tid = Some own"
    and "view (svTasks sv) (iTaskID b) = Some win" and "tid \<noteq> iTaskID b"
  shows "\<exists>sv' own'.
    (\<forall>os argv. run_created ops (h\<lparr>hOS := os\<rparr>) v key rh argv red stdin tid sv = (replay_answer win, sv')) \<and>
    keys (svTasks sv') = keys (svTasks sv) \<and>
    view (svTasks sv') = (view (svTasks sv))(tid \<mapsto> own') \<and> tState own' = StateCanceled"
proof -
  obtain t1 sv' own' where b: "bind_key ops h v key rh tid red sv = (Some t1, sv')" "core t1 = core win"
      "keys (svTasks sv') = keys (svTasks sv)"
      "view (svTasks sv') = (view (svTasks sv))(tid \<mapsto> own')" "tState own' = StateCanceled"
    using bind_taken [OF assms] by blast
  have "bind_key ops (h\<lparr>hOS := os\<rparr>) v key rh tid red sv = bind_key ops h v key rh tid red sv" for os
  proof -
    have "hStore (h\<lparr>hOS := os\<rparr>) = hStore h" by simp
    then show ?thesis unfolding bind_key_def by (simp only:)
  qed
  moreover have "replay_answer t1 = replay_answer win"
    using core_eqD(1,3) [OF b(2)] by (simp add: task_answer_def)
  ultimately have "\<forall>os argv. run_created ops (h\<lparr>hOS := os\<rparr>) v key rh argv red stdin tid sv = (replay_answer win, sv')"
    using b(1) by (simp add: run_created_def)
  with b(3-5) show ?thesis by blast
qed

end

text \<open>
  On the memory store: Two requests racing for one key: the one whose \<open>SaveIdempotency\<close> comes second finds the key
  taken, cancels the task it had created and answers with the winner's task; it runs no child
  process (the answer and the store do not depend on the operating system or on its own argument
  vector), and neither the key binding nor any other task changes.
\<close>

theorem key_race_loser_yields:
  assumes "mem_ok (svTasks sv)" and "henv_ok h (svCatalog sv)" and "key \<noteq> []"
    and "mem_keys (svTasks sv) key = Some b" and "mem_view (svTasks sv) tid = Some own"
    and "mem_view (svTasks sv) (iTaskID b) = Some win" and "tid \<noteq> iTaskID b"
  shows "\<exists>sv' own'.
    (\<forall>os argv. run_created memory_ops (h\<lparr>hOS := os\<rparr>) v key rh argv red stdin tid sv = (replay_answer win, sv')) \<and>
    mem_keys (svTasks sv') = mem_keys (svTasks sv) \<and>
    mem_view (svTasks sv') = (mem_view (svTasks sv))(tid \<mapsto> own') \<and> tState own' = StateCanceled"
  using mem.race_lost [OF assms] .

definition race_memory :: memory where
  "race_memory = \<lparr>mTasks = [(''a'', sample_task ''a'' StatePending), (''b'', sample_task ''b'' StateAccepted)],
     mAudit = [],
     mIdem = [(''k'', \<lparr>iKey = ''k'', iVerb = ''torch.set'', iHash = [], iTaskID = ''a'', iCreatedAt = 0\<rparr>)],
     mLogger = None\<rparr>"

theorem key_race_loser_yields_witness:
  "\<exists>sv' own'. run_created memory_ops (demo_henv ''x'') wifi_verb ''k'' [] [] [] [] ''b''
      (demo_server\<lparr>svTasks := race_memory\<rparr>) = (replay_answer (sample_task ''a'' StatePending), sv') \<and>
    mem_view (svTasks sv') ''b'' = Some own' \<and> tState own' = StateCanceled"
proof -
  let ?sv = "demo_server\<lparr>svTasks := race_memory\<rparr>"
  have i: "tID (sample_task t st) = t" for t st by (simp add: sample_task_def new_task_def clock_env_def)
  have ok: "mem_ok (svTasks ?sv)"
    using storable_sample by (simp add: mem_ok_def race_memory_def wf_map_def i)
  have f: "''k'' \<noteq> []" "mem_keys (svTasks ?sv) ''k'' =
      Some \<lparr>iKey = ''k'', iVerb = ''torch.set'', iHash = [], iTaskID = ''a'', iCreatedAt = 0\<rparr>"
    "mem_view (svTasks ?sv) ''b'' = Some (sample_task ''b'' StateAccepted)"
    "mem_view (svTasks ?sv) (iTaskID \<lparr>iKey = ''k'', iVerb = ''torch.set'', iHash = [], iTaskID = ''a'', iCreatedAt = 0\<rparr>) =
       Some (sample_task ''a'' StatePending)"
    "''b'' \<noteq> iTaskID \<lparr>iKey = ''k'', iVerb = ''torch.set'', iHash = [], iTaskID = ''a'', iCreatedAt = 0\<rparr>"
    by (simp_all add: mem_keys_def mem_view_def race_memory_def)
  obtain sv' own' where r: "\<forall>os argv. run_created memory_ops (demo_henv ''x''\<lparr>hOS := os\<rparr>) wifi_verb ''k'' [] argv []
        [] ''b'' ?sv = (replay_answer (sample_task ''a'' StatePending), sv')"
      "mem_view (svTasks sv') = (mem_view (svTasks ?sv))(''b'' \<mapsto> own')" "tState own' = StateCanceled"
    using key_race_loser_yields [OF ok demo_henv_ok f, where v = wifi_verb and rh = "[]" and red = "[]" and stdin = "[]"]
    by blast
  have "demo_henv ''x''\<lparr>hOS := demo_os True\<rparr> = demo_henv ''x''" by (simp add: demo_henv_def)
  with r show ?thesis by (metis fun_upd_same)
qed

lemma create_limited_full:
  "mem_CreateAndAuditLimited e i ev mx m = (Inl QueueFull, m') \<Longrightarrow> m' = m"
  by (auto simp: mem_CreateAndAuditLimited_def mirror_def Let_def split: if_splits option.splits prod.splits)

lemma run_created_status:
  "rpStatus (fst (run_created ops h v key rh argv red stdin tid sv)) \<in> {200, 202, 500}"
  by (auto simp: run_created_def task_answer_def writeJSON_def writeErr_def status_defs Let_def
      split: prod.split option.split)

text \<open>A store that is full stays as it is, whatever else its state and the faults of its environment.\<close>

definition full_keeps :: "'s store_ops \<Rightarrow> bool" where
  "full_keeps ops \<longleftrightarrow> (\<forall>e i ev mx s s'. sCreateAndAuditLimited ops e i ev mx s = (Inl QueueFull, s') \<longrightarrow> s' = s)"

lemma post_expanded_reject:
  assumes full: "full_keeps ops" and "post_expanded ops h v args stdin key argv red sv = (rp, sv')"
  shows "rpStatus rp \<in> {200, 202, 409, 500, 503} \<and>
    (rpStatus rp \<in> {409, 503} \<longrightarrow> svTasks sv' = svTasks sv)"
proof -
  obtain b sv1 where pk: "peek_open (hSnap h) v sv = (b, sv1)" by (cases "peek_open (hSnap h) v sv")
  then have sv1: "svTasks sv1 = svTasks sv" using peek_open_simps(1) [of "hSnap h" v sv] by simp
  show ?thesis
  proof (cases "find_prior ops h v key (idempotencyHash (hSha h) (vName v) args stdin) (svTasks sv) = PriorNone \<and> \<not> b")
    case False
    with assms(2) sv1 show ?thesis
      by (cases "find_prior ops h v key (idempotencyHash (hSha h) (vName v) args stdin) (svTasks sv)")
        (auto simp: post_expanded_def pk Let_def writeErr_def task_answer_def writeJSON_def status_defs)
  next
    case True
    obtain r s where c: "sCreateAndAuditLimited ops (hStore h 2)
        (post_input (svCatalog sv1) v args stdin argv red)
        (api_event [] v (state_name StateAccepted) red None 0 []) (MaxQueueDepth (cDaemon (svCatalog sv1)))
        (svTasks sv1) = (r, s)" by fastforce
    show ?thesis
    proof (cases r)
      case (Inr t)
      then have "(rp, sv') = run_created ops h v key (idempotencyHash (hSha h) (vName v) args stdin)
          argv red stdin (tID t) (sv1\<lparr>svTasks := s\<rparr>)"
        using assms(2) True c by (simp add: post_expanded_def pk Let_def post_input_def)
      then have "rpStatus rp \<in> {200, 202, 500}" using run_created_status by (metis fst_conv)
      then show ?thesis by auto
    next
      case (Inl err)
      with assms(2) True c have e: "(rp, sv') = (if err = QueueFull
          then (writeErr StatusServiceUnavailable ''queue_full'' [], sv1\<lparr>svTasks := s\<rparr>)
          else (writeErr StatusInternalServerError ''store_error'' [], sv1\<lparr>svTasks := s\<rparr>))"
        by (cases err) (simp_all add: post_expanded_def pk Let_def post_input_def)
      then show ?thesis using c Inl sv1 full [unfolded full_keeps_def, rule_format, of "hStore h 2"]
        by (auto simp: writeErr_def status_defs split: if_splits)
    qed
  qed
qed

lemma rejected_post:
  assumes full: "full_keeps ops" and "Handler ops h header (ReqPostVerb name payload) sv = Some (rp, sv')"
  shows "rpStatus rp \<in> {200, 202, 400, 401, 404, 409, 500, 503} \<and>
    (rpStatus rp \<in> {400, 401, 404, 409, 503} \<longrightarrow> svTasks sv' = svTasks sv) \<and>
    (rpStatus rp = 401 \<longleftrightarrow> \<not> Valid (svToken sv) header)"
proof (cases "Valid (svToken sv) header")
  case False
  with assms(2) show ?thesis by (auto simp: Handler_def withAuth_def writeErr_def status_defs)
next
  case True
  then have p: "handlePostVerb ops h name payload sv = Some (rp, sv')"
    using assms(2) by (simp add: Handler_def withAuth_def)
  consider (err) st code where "(rp, sv') = (writeErr st code [], sv)" "st \<in> {400, 404}"
    | (run) v args stdin key argv red where
        "post_expanded ops h v args stdin key argv red sv = (rp, sv')"
  proof (cases "Get (svCatalog sv) name")
    case None
    with p have "(rp, sv') = (writeErr 404 ''unknown_verb'' [], sv)"
      by (simp add: handlePostVerb_def status_defs)
    then show ?thesis by (rule err) simp
  next
    case v: (Some v)
    show ?thesis
    proof (cases "decode_post payload")
      case None
      with p v have "(rp, sv') = (writeErr 400 ''invalid_json'' [], sv)"
        by (simp add: handlePostVerb_def status_defs)
      then show ?thesis by (rule err) simp
    next
      case b: (Some body)
      obtain r where r: "expandArgv v (request_args v (pbArgs body)) (pbStdin body) = Some r"
        using p v b by (cases "expandArgv v (request_args v (pbArgs body)) (pbStdin body)")
          (simp_all add: handlePostVerb_def Let_def)
      show ?thesis
      proof (cases r)
        case (Inl e)
        with p v b r have "(rp, sv') = (writeErr 400 ''validation_error'' [], sv)"
          by (simp add: handlePostVerb_def status_defs Let_def)
        then show ?thesis by (rule err) simp
      next
        case (Inr a)
        with p v b r show ?thesis
          by (intro run) (simp add: handlePostVerb_def Let_def case_prod_unfold)
      qed
    qed
  qed
  then show ?thesis
  proof cases
    case err
    with True show ?thesis by (auto simp: writeErr_def)
  next
    case run
    from post_expanded_reject [OF full run] True show ?thesis by auto
  qed
qed

lemma memory_full_keeps: "full_keeps memory_ops"
  using create_limited_full by (auto simp: full_keeps_def)

text \<open>
  On the memory store: A rejected post leaves no trace in the store. Whatever the header, the path, the body, the
  state of the server and the faults of its environment, the status of an answer to a post is one of
  200, 202, 400, 401, 404, 409, 500 and 503; with 400, 401, 404, 409 and 503 the store is exactly what
  it was; and 401 is the answer exactly when the token in the header is not valid.
\<close>

theorem rejected_post_leaves_store:
  assumes "Handler memory_ops h header (ReqPostVerb name payload) sv = Some (rp, sv')"
  shows "rpStatus rp \<in> {200, 202, 400, 401, 404, 409, 500, 503} \<and>
    (rpStatus rp \<in> {400, 401, 404, 409, 503} \<longrightarrow> svTasks sv' = svTasks sv) \<and>
    (rpStatus rp = 401 \<longleftrightarrow> \<not> Valid (svToken sv) header)"
  using rejected_post [OF memory_full_keeps assms] .

theorem rejected_post_leaves_store_witness:
  "\<exists>rp sv'. Handler memory_ops (demo_henv ''t'') ''hdr'' (ReqPostVerb ''wifi.info'' []) demo_server = Some (rp, sv') \<and>
     svTasks sv' = NewMemory \<and> rpStatus rp = 401"
proof -
  have "svToken demo_server = None" by (simp add: demo_server_def New_server_def)
  then have v: "\<not> Valid (svToken demo_server) ''hdr''" by (simp add: Valid_def)
  then obtain rp sv' where r: "Handler memory_ops (demo_henv ''t'') ''hdr'' (ReqPostVerb ''wifi.info'' []) demo_server = Some (rp, sv')"
    by (simp add: Handler_def withAuth_def)
  with rejected_post_leaves_store [OF r] v show ?thesis by auto
qed

text \<open>The two executors make the same change, up to the cached result text.\<close>

lemma changes_agree:
  assumes "hOS h = xOS x" and "tAttempt task = 0" and "backoffBase (wCatalog wk) = wBackoffBase wk"
    and "maxServerJitter = wMaxJitter wk" and "hRetryNow h = xRetryNow x" and "hRand h = xRand x"
    and "mr = effective_retries (wCatalog wk) task"
  shows "core (sync_change h (wCatalog wk) v mr (task_argv task) (tStdinBlob task) t) =
    core (attempt_change wk x v task t)"
proof -
  let ?r = "Run (xOS x) (task_argv task) (tStdinBlob task) (verb_timeout (wCatalog wk) v)"
  obtain oc msg where o: "outcome_of ?r = (oc, msg)" by (cases "outcome_of ?r")
  have ok: "core (sync_ok ec out err res t) = core (set_ok ec out err res' t)" for ec out err res res'
    by (simp add: sync_ok_def set_ok_def core_def)
  show ?thesis
    unfolding sync_change_def attempt_change_def Let_def assms worker_scrub_eq o prod.case
    using ok by simp
qed

context task_store begin

lemma executors_same:
  assumes "inv (svTasks sv)" and "wStore w = svTasks sv" and "henv_ok h (svCatalog sv)" and "envs_ok x"
    and "times_ok wk x" and "view (svTasks sv) tid = Some task" and "tAttempt task = 0"
    and "svCatalog sv = wCatalog wk" and "hOS h = xOS x" and "hRetryNow h = xRetryNow x" and "hRand h = xRand x"
    and "backoffBase (wCatalog wk) = wBackoffBase wk" and "maxServerJitter = wMaxJitter wk"
    and "mr = effective_retries (wCatalog wk) task"
  shows "\<exists>t1 t2.
    view (svTasks (executeOnce ops h tid v mr (task_argv task) red (tStdinBlob task) sv)) =
      (view (svTasks sv))(tid \<mapsto> t1) \<and>
    view (wStore (run_attempt ops wk x v task w)) = (view (svTasks sv))(tid \<mapsto> t2) \<and>
    core (t1\<lparr>tUpdatedAt := 0\<rparr>) = core (t2\<lparr>tUpdatedAt := 0\<rparr>)"
proof -
  have id: "tID task = tid" using view_id [OF assms(1,6)] by simp
  have c0: "core task = core (task\<lparr>tUpdatedAt := tUpdatedAt task\<rparr>)" by simp
  obtain t1 u1 where t1:
      "view (svTasks (executeOnce ops h tid v mr (task_argv task) red (tStdinBlob task) sv)) =
        (view (svTasks sv))(tid \<mapsto> t1)"
      "core t1 = core ((sync_change h (svCatalog sv) v mr (task_argv task) (tStdinBlob task)
         (sync_executing task))\<lparr>tUpdatedAt := u1\<rparr>)"
    using executeOnce_effect [OF assms(1,3,6) c0] by blast
  have i: "inv (wStore w)" "view (wStore w) (tID task) = Some task"
    "year_ok (retry_time wk x task)"
    using assms(1,2,5,6) id by (simp_all add: times_ok_def retry_time_def)
  obtain t2 where t2: "view (wStore (run_attempt ops wk x v task w)) = (view (svTasks sv))(tid \<mapsto> t2)"
      "core t2 = core ((attempt_change wk x v task (set_executing task))\<lparr>tUpdatedAt := eNow (xStore x 3)\<rparr>)"
    using run_attempt_effect [OF i(1) assms(4) i(2) refl i(3), of v] assms(2) id by auto
  have ex: "core (sync_executing task) = core (set_executing task)"
    using assms(7) by (simp add: sync_executing_def set_executing_def core_def)
  have "core (sync_change h (svCatalog sv) v mr (task_argv task) (tStdinBlob task) (sync_executing task)) =
      core (attempt_change wk x v task (set_executing task))"
    unfolding assms(8) changes_agree [OF assms(9,7,12,13,10,11,14)]
    by (rule core_funD [OF core_fun_attempt ex])
  then have "core ((sync_change h (svCatalog sv) v mr (task_argv task) (tStdinBlob task)
        (sync_executing task))\<lparr>tUpdatedAt := 0\<rparr>) =
      core ((attempt_change wk x v task (set_executing task))\<lparr>tUpdatedAt := 0\<rparr>)"
    by (rule core_touch)
  with core_touch [OF t1(2), of 0] core_touch [OF t2(2), of 0]
  have "core (t1\<lparr>tUpdatedAt := 0\<rparr>) = core (t2\<lparr>tUpdatedAt := 0\<rparr>)" by simp
  with t1(1) t2(1) show ?thesis by blast
qed

end

text \<open>
  On the memory store: The inline executor and the worker agree. Run on the same stored task for its first attempt,
  with the same system, clock and random bytes, the daemon's backoff and the same retry limit,
  \<open>executeOnce\<close> and the worker leave the same task behind: same state, outcome, exit code, scrubbed
  output, error, attempt number and retry time (up to the modification time and the decoded result),
  and neither touches any other task.
\<close>

theorem executors_agree:
  assumes "mem_ok (svTasks sv)" and "wStore w = svTasks sv" and "henv_ok h (svCatalog sv)" and "envs_ok x"
    and "times_ok wk x" and "mem_view (svTasks sv) tid = Some task" and "tAttempt task = 0"
    and "svCatalog sv = wCatalog wk" and "hOS h = xOS x" and "hRetryNow h = xRetryNow x" and "hRand h = xRand x"
    and "backoffBase (wCatalog wk) = wBackoffBase wk" and "maxServerJitter = wMaxJitter wk"
    and "mr = effective_retries (wCatalog wk) task"
  shows "\<exists>t1 t2.
    mem_view (svTasks (executeOnce memory_ops h tid v mr (task_argv task) red (tStdinBlob task) sv)) =
      (mem_view (svTasks sv))(tid \<mapsto> t1) \<and>
    mem_view (wStore (run_attempt memory_ops wk x v task w)) = (mem_view (svTasks sv))(tid \<mapsto> t2) \<and>
    core (t1\<lparr>tUpdatedAt := 0\<rparr>) = core (t2\<lparr>tUpdatedAt := 0\<rparr>)"
  using mem.executors_same [OF assms] .

definition agree_worker :: worker where
  "agree_worker = \<lparr>wCatalog = wifi_catalog, wBackoffBase = backoffBase wifi_catalog, wMaxJitter = maxServerJitter\<rparr>"

theorem executors_agree_witness:
  "\<exists>t1 t2. mem_view (svTasks (executeOnce memory_ops (demo_henv ''x'') ''a'' wifi_verb 2 (task_argv demo_task) []
       [] (demo_server\<lparr>svTasks := wStore (demo_state demo_task)\<rparr>))) ''a'' = Some t1 \<and>
     mem_view (wStore (run_attempt memory_ops agree_worker (demo_exec True) wifi_verb demo_task
       (demo_state demo_task))) ''a'' = Some t2 \<and> tState t1 = tState t2"
proof -
  let ?sv = "demo_server\<lparr>svTasks := wStore (demo_state demo_task)\<rparr>"
  have ok: "mem_ok (svTasks ?sv)" using demo_mem_ok [OF demo_storable] by simp
  have t: "times_ok agree_worker (demo_exec True)"
    by (rule times_ok_range) (simp_all add: demo_exec_def agree_worker_def maxServerJitter_def duration_defs)
  have f: "wStore (demo_state demo_task) = svTasks ?sv" "mem_view (svTasks ?sv) ''a'' = Some demo_task"
    "svCatalog ?sv = wCatalog agree_worker" "hOS (demo_henv ''x'') = xOS (demo_exec True)"
    "hRetryNow (demo_henv ''x'') = xRetryNow (demo_exec True)" "hRand (demo_henv ''x'') = xRand (demo_exec True)"
    "backoffBase (wCatalog agree_worker) = wBackoffBase agree_worker" "maxServerJitter = wMaxJitter agree_worker"
    "2 = effective_retries (wCatalog agree_worker) demo_task"
    by (simp_all add: demo_view agree_worker_def demo_henv_def, simp_all add: demo_exec_def)
  from executors_agree [OF ok f(1) demo_henv_ok demo_envs(1) t f(2) demo_task_simps(4) f(3-9), of wifi_verb "[]"]
  obtain t1 t2 where r:
    "mem_view (svTasks (executeOnce memory_ops (demo_henv ''x'') ''a'' wifi_verb 2 (task_argv demo_task) []
       (tStdinBlob demo_task) ?sv)) = (mem_view (svTasks ?sv))(''a'' \<mapsto> t1)"
    "mem_view (wStore (run_attempt memory_ops agree_worker (demo_exec True) wifi_verb demo_task
       (demo_state demo_task))) = (mem_view (svTasks ?sv))(''a'' \<mapsto> t2)"
    "core (t1\<lparr>tUpdatedAt := 0\<rparr>) = core (t2\<lparr>tUpdatedAt := 0\<rparr>)" by blast
  have "tState t1 = tState t2" using core_eqD(3) [OF r(3)] by simp
  with r(1,2) show ?thesis by auto
qed

text \<open>
  Where they disagree: a verb with an explicit limit of no retries. The inline executor exhausts the
  task on its first failure; the worker takes the stored 0 for unset and schedules a retry.
\<close>

lemma zero_retries_ignored:
  assumes "tMaxRetries task = 0" and "tAttempt task = 0" and "0 < MaxRetries (cDaemon (wCatalog wk))"
    and "\<not> is_ok (Run (xOS x) (task_argv task) (tStdinBlob task) (verb_timeout (wCatalog wk) v))"
    and "hOS h = xOS x"
  shows "tState (sync_change h (wCatalog wk) v 0 (task_argv task) (tStdinBlob task) t) = StateExhausted \<and>
    tState (attempt_change wk x v task t) = StateRetryScheduled"
proof
  let ?r = "Run (xOS x) (task_argv task) (tStdinBlob task) (verb_timeout (wCatalog wk) v)"
  obtain oc msg where o: "outcome_of ?r = (oc, msg)" by (cases "outcome_of ?r")
  with assms(4) outcome_ok [of ?r] have "oc \<noteq> ''ok''" by simp
  with o show "tState (sync_change h (wCatalog wk) v 0 (task_argv task) (tStdinBlob task) t) = StateExhausted"
    by (simp add: sync_change_def Let_def assms(5) ShouldExhaust_def set_exhausted_def)
  show "tState (attempt_change wk x v task t) = StateRetryScheduled"
    using attempt_failed [OF assms(4)] assms(1-3)
    by (auto simp: ShouldExhaust_def effective_retries_def set_retry_def)
qed

end
