(* ===== verification/Sqlite_Store.thy ===== *)
theory Sqlite_Store
  imports Memory_Store "HOL-Library.List_Lexorder"
begin

text \<open>
  \<open>internal/queue/sqlite.go\<close>: the durable store. The database is its tables, rows in insertion
  order; a nullable column is an option, and every time is the RFC 3339 text the code writes, which
  the SQL statements compare and order as text (byte by byte). One connection serialises the
  statements, and a transaction that fails leaves the tables as they were: each operation is one
  step on the tables. \<open>eFault\<close> of its environment stands for every way the driver can fail before a
  call has changed anything, including a collision of the random id of an outbox row, and \<open>eLate\<close> for a
  failure of the SELECT by which \<open>ClaimDue\<close> reads its task back. The tie order of \<open>ORDER BY\<close>, which SQL
  leaves open, is the table order.
\<close>

record task_row =
  rwID :: string
  rwVerb :: string
  rwArgsJSON :: string
  rwArgvJSON :: string
  rwArgvRedacted :: string
  rwStdinBlob :: string
  rwStdinPresent :: int
  rwState :: string
  rwAttempt :: int
  rwMaxRetries :: int
  rwNextRunAt :: "string option"
  rwLastOutcome :: "string option"
  rwExitCode :: "int option"
  rwStdout :: "string option"
  rwStderr :: "string option"
  rwResultJSON :: "string option"
  rwError :: "string option"
  rwCreatedAt :: string
  rwUpdatedAt :: string

record attempt_row =
  atTask :: string
  atN :: int
  atStarted :: string
  atEnded :: string
  atExitCode :: "int option"
  atOutcome :: string
  atError :: string

record outbox_row =
  obID :: string
  obTS :: string
  obPayload :: string
  obWritten :: "string option"

record idem_row =
  irKey :: string
  irVerb :: string
  irHash :: string
  irTask :: string
  irCreated :: string

record db =
  dbTasks :: "task_row list"
  dbAttempts :: "attempt_row list"
  dbOutbox :: "outbox_row list"
  dbIdem :: "idem_row list"

definition empty_db :: db where
  "empty_db = \<lparr>dbTasks = [], dbAttempts = [], dbOutbox = [], dbIdem = []\<rparr>"

text \<open>
  \<open>OpenSQLite\<close>: the store opens only when the effective pragmas are WAL and FULL; the schema
  statements leave existing tables alone.
\<close>

definition OpenSQLite :: "bool \<Rightarrow> string \<Rightarrow> int \<Rightarrow> db \<Rightarrow> db option" where
  "OpenSQLite fault journalMode synchronous d =
     (if fault then None
      else if to_lower journalMode \<noteq> ''wal'' then None
      else if synchronous \<noteq> 2 then None
      else Some d)"

subsection \<open>Rows and tasks\<close>

definition nullStr :: "string \<Rightarrow> string option" where
  "nullStr s = (if s = [] then None else Some s)"

definition boolInt :: "bool \<Rightarrow> int" where
  "boolInt b = (if b then 1 else 0)"

definition text_or_empty :: "string option \<Rightarrow> string" where
  "text_or_empty t = (case t of None \<Rightarrow> [] | Some s \<Rightarrow> s)"

text \<open>The time of a column, the zero time when it does not parse.\<close>

definition time_or_zero :: "string \<Rightarrow> time" where
  "time_or_zero s = (case parseTime s of None \<Rightarrow> zero_time | Some t \<Rightarrow> t)"

text \<open>\<open>scanTask\<close>; a row whose state is none of the known names is not modelled (it does not scan).\<close>

definition scanTask :: "task_row \<Rightarrow> task option" where
  "scanTask r =
     (case state_of (rwState r) of
        None \<Rightarrow> None
      | Some st \<Rightarrow> Some
          \<lparr>tID = rwID r, tVerb = rwVerb r, tArgsJSON = rwArgsJSON r, tArgvJSON = rwArgvJSON r,
           tArgvRedacted = (case unmarshal_strings (rwArgvRedacted r) of Some a \<Rightarrow> a | None \<Rightarrow> []),
           tStdinPresent = (rwStdinPresent r \<noteq> 0), tStdinBlob = rwStdinBlob r, tState = st,
           tAttempt = rwAttempt r, tMaxRetries = rwMaxRetries r,
           tNextRunAt = (case rwNextRunAt r of
              None \<Rightarrow> None | Some s \<Rightarrow> if s = [] then None else parseTime s),
           tLastOutcome = text_or_empty (rwLastOutcome r), tExitCode = rwExitCode r,
           tStdout = text_or_empty (rwStdout r), tStderr = text_or_empty (rwStderr r),
           tResultJSON = text_or_empty (rwResultJSON r),
           tResult = (case rwResultJSON r of
              None \<Rightarrow> VNil | Some s \<Rightarrow> (case unmarshal_any s of Some v \<Rightarrow> v | None \<Rightarrow> VNil)),
           tError = text_or_empty (rwError r), tCreatedAt = time_or_zero (rwCreatedAt r),
           tUpdatedAt = time_or_zero (rwUpdatedAt r)\<rparr>)"

text \<open>The row an INSERT of a new task writes.\<close>

definition new_row :: "task \<Rightarrow> task_row" where
  "new_row t =
     \<lparr>rwID = tID t, rwVerb = tVerb t, rwArgsJSON = tArgsJSON t, rwArgvJSON = tArgvJSON t,
      rwArgvRedacted = marshal_strings (tArgvRedacted t), rwStdinBlob = tStdinBlob t,
      rwStdinPresent = boolInt (tStdinPresent t), rwState = state_name (tState t),
      rwAttempt = tAttempt t, rwMaxRetries = tMaxRetries t, rwNextRunAt = None, rwLastOutcome = None,
      rwExitCode = None, rwStdout = None, rwStderr = None, rwResultJSON = None, rwError = None,
      rwCreatedAt = fmtTime (tCreatedAt t), rwUpdatedAt = fmtTime (tUpdatedAt t)\<rparr>"

definition result_text :: "task \<Rightarrow> string" where
  "result_text t =
     (if tResultJSON t = [] \<and> tResult t \<noteq> VNil
      then (case json_marshal (tResult t) of Some b \<Rightarrow> b | None \<Rightarrow> [])
      else tResultJSON t)"

text \<open>The assignments of the UPDATE in \<open>writeTaskTx\<close>; \<open>id\<close> and \<open>created_at\<close> stay.\<close>

definition update_row :: "task \<Rightarrow> task_row \<Rightarrow> task_row" where
  "update_row t r =
     r\<lparr>rwVerb := tVerb t, rwArgsJSON := tArgsJSON t, rwArgvJSON := tArgvJSON t,
       rwArgvRedacted := marshal_strings (tArgvRedacted t), rwStdinBlob := tStdinBlob t,
       rwStdinPresent := boolInt (tStdinPresent t), rwState := state_name (tState t),
       rwAttempt := tAttempt t, rwMaxRetries := tMaxRetries t,
       rwNextRunAt := map_option fmtTime (tNextRunAt t), rwLastOutcome := nullStr (tLastOutcome t),
       rwExitCode := tExitCode t, rwStdout := Some (tStdout t), rwStderr := Some (tStderr t),
       rwResultJSON := nullStr (result_text t), rwError := nullStr (tError t),
       rwUpdatedAt := fmtTime (tUpdatedAt t)\<rparr>"

text \<open>The number of rows changed and the table.\<close>

definition writeTaskTx :: "task \<Rightarrow> db \<Rightarrow> nat \<times> db" where
  "writeTaskTx t d =
     (length (filter (\<lambda>r. rwID r = tID t) (dbTasks d)),
      d\<lparr>dbTasks := map (\<lambda>r. if rwID r = tID t then update_row t r else r) (dbTasks d)\<rparr>)"

definition find_row :: "string \<Rightarrow> db \<Rightarrow> task_row option" where
  "find_row tid d = List.find (\<lambda>r. rwID r = tid) (dbTasks d)"

definition scanOne :: "string \<Rightarrow> db \<Rightarrow> task option" where
  "scanOne tid d = (case find_row tid d of None \<Rightarrow> None | Some r \<Rightarrow> scanTask r)"

text \<open>The primary key rejects a second row with the same id.\<close>

definition insert_task :: "task \<Rightarrow> db \<Rightarrow> db option" where
  "insert_task t d =
     (if find_row (tID t) d \<noteq> None then None else Some (d\<lparr>dbTasks := dbTasks d @ [new_row t]\<rparr>))"

subsection \<open>The audit outbox\<close>

definition auditRow :: "env \<Rightarrow> audit_event \<Rightarrow> outbox_row" where
  "auditRow e ev =
     (let ev = (if evTS ev = [] then ev\<lparr>evTS := fmtTime (eNow e)\<rparr> else ev)
      in \<lparr>obID = eRowID e, obTS = evTS ev, obPayload = marshal_event ev, obWritten = None\<rparr>)"

definition insertAuditTx :: "env \<Rightarrow> audit_event \<Rightarrow> db \<Rightarrow> db" where
  "insertAuditTx e ev d = d\<lparr>dbOutbox := dbOutbox d @ [auditRow e ev]\<rparr>"

text \<open>\<open>json.Unmarshal\<close> of a payload into an event.\<close>

definition ev_text :: "goval gomap \<Rightarrow> string \<Rightarrow> string option" where
  "ev_text m k = (case map_of m k of None \<Rightarrow> Some [] | Some VNil \<Rightarrow> Some [] | Some (VStr s) \<Rightarrow> Some s | _ \<Rightarrow> None)"

definition ev_int :: "goval gomap \<Rightarrow> string \<Rightarrow> int option option" where
  "ev_int m k =
     (case map_of m k of
        None \<Rightarrow> Some None
      | Some VNil \<Rightarrow> Some None
      | Some (VNumber s) \<Rightarrow> map_option Some (atoi s)
      | _ \<Rightarrow> None)"

definition ev_argv :: "goval gomap \<Rightarrow> string list option" where
  "ev_argv m =
     (case map_of m ''argv_redacted'' of
        None \<Rightarrow> Some []
      | Some VNil \<Rightarrow> Some []
      | Some (VList vs) \<Rightarrow>
          all_some (map (\<lambda>v. case v of VStr s \<Rightarrow> Some s | VNil \<Rightarrow> Some [] | _ \<Rightarrow> None) vs)
      | _ \<Rightarrow> None)"

definition int_or_zero :: "int option \<Rightarrow> int" where
  "int_or_zero i = (case i of None \<Rightarrow> 0 | Some n \<Rightarrow> n)"

definition event_of_map :: "goval gomap \<Rightarrow> audit_event option" where
  "event_of_map m =
     (case (ev_text m ''ts'', ev_text m ''task_id'', ev_text m ''verb'', ev_text m ''tier'') of
        (Some ts, Some tid, Some verb, Some tier) \<Rightarrow>
          (case (ev_text m ''state'', ev_argv m, ev_int m ''exit_code'', ev_int m ''latency_ms'') of
             (Some st, Some argv, Some ec, Some lat) \<Rightarrow>
               (case (ev_int m ''attempt'', ev_text m ''error'') of
                  (Some att, Some err) \<Rightarrow> Some
                    \<lparr>evTS = ts, evTaskID = tid, evVerb = verb, evTier = tier, evState = st, evArgv = argv,
                     evExitCode = ec, evLatencyMS = int_or_zero lat, evAttempt = int_or_zero att, evError = err\<rparr>
                | _ \<Rightarrow> None)
           | _ \<Rightarrow> None)
      | _ \<Rightarrow> None)"

definition unmarshal_event :: "string \<Rightarrow> audit_event option" where
  "unmarshal_event s =
     (case json_decode s of
        Some (VMap m, r) \<Rightarrow> if skip_ws r = [] then event_of_map m else None
      | _ \<Rightarrow> None)"

definition mark_written :: "string \<Rightarrow> string \<Rightarrow> db \<Rightarrow> db" where
  "mark_written ts rid d =
     d\<lparr>dbOutbox := map (\<lambda>r. if obID r = rid then r\<lparr>obWritten := Some ts\<rparr> else r) (dbOutbox d)\<rparr>"

text \<open>The rows a drain looks at: unwritten, by time stamp, at most \<open>limit\<close>.\<close>

definition outbox_batch :: "int \<Rightarrow> db \<Rightarrow> outbox_row list" where
  "outbox_batch limit d =
     take (nat (if limit \<le> 0 then 100 else limit))
       (sort_key obTS (filter (\<lambda>r. obWritten r = None) (dbOutbox d)))"

text \<open>
  The loop over the batch, the k-th row in the environment \<open>es k\<close>: a payload that does not decode is
  marked written (a failure to mark it is ignored), an event is logged and then marked; the first
  failure stops the drain.
\<close>

fun drain_rows ::
  "(nat \<Rightarrow> env) \<Rightarrow> nat \<Rightarrow> outbox_row list \<Rightarrow> nat \<Rightarrow> logger option \<Rightarrow> db \<Rightarrow>
   (nat \<times> store_error option) \<times> db \<times> logger option" where
  "drain_rows es k [] n lg d = ((n, None), d, lg)"
| "drain_rows es k (r # rs) n lg d =
     (let e = es k
      in case unmarshal_event (obPayload r) of
           None \<Rightarrow>
             drain_rows es (Suc k) rs n lg (if eFault e then d else mark_written (fmtTime (eNow e)) (obID r) d)
         | Some ev \<Rightarrow>
             (case Log (eWrite e) (fmtTime (eNow e)) ev lg of
                (True, lg) \<Rightarrow> ((n, Some LogFailed), d, lg)
              | (False, lg) \<Rightarrow>
                  if eFault e then ((n, Some DBError), d, lg)
                  else drain_rows es (Suc k) rs (n + 1) lg (mark_written (fmtTime (eNow e)) (obID r) d)))"

definition drain_batch ::
  "env \<Rightarrow> (nat \<Rightarrow> env) \<Rightarrow> logger option \<Rightarrow> int \<Rightarrow> db \<Rightarrow> (nat \<times> store_error option) \<times> db \<times> logger option" where
  "drain_batch e es lg limit d =
     (if eFault e then ((0, Some DBError), d, lg)
      else drain_rows es 0 (outbox_batch limit d) 0 lg d)"

definition sq_DrainOutbox ::
  "env \<Rightarrow> logger option \<Rightarrow> int \<Rightarrow> db \<Rightarrow> (nat \<times> store_error option) \<times> db \<times> logger option" where
  "sq_DrainOutbox e lg limit d = drain_batch e (\<lambda>k. e) lg limit d"

subsection \<open>Operations\<close>

definition sq_Create :: "env \<Rightarrow> create_input \<Rightarrow> db \<Rightarrow> (store_error + task) \<times> db" where
  "sq_Create e i d =
     (let t = new_task e i
      in if eFault e then (Inl DBError, d)
         else case insert_task t d of
                None \<Rightarrow> (Inl DBError, d)
              | Some d' \<Rightarrow> (Inr (cloneTask t), d'))"

definition sq_Get :: "env \<Rightarrow> string \<Rightarrow> db \<Rightarrow> task option" where
  "sq_Get e tid d = (if eFault e then None else scanOne tid d)"

text \<open>A row that does not scan is skipped.\<close>

definition sq_List :: "env \<Rightarrow> string \<Rightarrow> db \<Rightarrow> task list" where
  "sq_List e st d =
     (if eFault e then []
      else List.map_filter scanTask
             (sort_key rwCreatedAt (filter (\<lambda>r. st = [] \<or> rwState r = st) (dbTasks d))))"

definition sq_Update :: "env \<Rightarrow> string \<Rightarrow> (task \<Rightarrow> task) \<Rightarrow> db \<Rightarrow> store_error option \<times> db" where
  "sq_Update e tid fn d =
     (if eFault e then (Some DBError, d)
      else case scanOne tid d of
             None \<Rightarrow> (Some (NotFound tid), d)
           | Some t \<Rightarrow>
               (case writeTaskTx ((fn t)\<lparr>tUpdatedAt := eNow e\<rparr>) d of
                  (n, d') \<Rightarrow> if n = 0 then (Some (RacedDelete tid), d) else (None, d')))"

definition sq_CreateAndAudit ::
  "env \<Rightarrow> create_input \<Rightarrow> audit_event \<Rightarrow> db \<Rightarrow> (store_error + task) \<times> db" where
  "sq_CreateAndAudit e i ev d =
     (let t = new_task e i
      in if eFault e then (Inl DBError, d)
         else case insert_task t d of
                None \<Rightarrow> (Inl DBError, d)
              | Some d' \<Rightarrow> (Inr (cloneTask t), insertAuditTx e (with_task_id ev (tID t)) d'))"

text \<open>The rows in the five states that count against the capacity.\<close>

definition counted_states :: "string list" where
  "counted_states =
     map state_name [StatePending, StateRetryScheduled, StatePendingApproval, StateExecuting, StateAccepted]"

definition sq_Depth :: "db \<Rightarrow> nat" where
  "sq_Depth d = length (filter (\<lambda>r. rwState r \<in> set counted_states) (dbTasks d))"

definition sq_CreateAndAuditLimited ::
  "env \<Rightarrow> create_input \<Rightarrow> audit_event \<Rightarrow> int \<Rightarrow> db \<Rightarrow> (store_error + task) \<times> db" where
  "sq_CreateAndAuditLimited e i ev maxDepth d =
     (let t = new_task e i
      in if eFault e then (Inl DBError, d)
         else if maxDepth \<le> int (sq_Depth d) then (Inl QueueFull, d)
         else case insert_task t d of
                None \<Rightarrow> (Inl DBError, d)
              | Some d' \<Rightarrow> (Inr (cloneTask t), insertAuditTx e (with_task_id ev (tID t)) d'))"

definition sq_UpdateAndAudit ::
  "env \<Rightarrow> string \<Rightarrow> (task \<Rightarrow> task) \<Rightarrow> audit_event \<Rightarrow> db \<Rightarrow> store_error option \<times> db" where
  "sq_UpdateAndAudit e tid fn ev d =
     (if eFault e then (Some DBError, d)
      else case scanOne tid d of
             None \<Rightarrow> (Some (NotFound tid), d)
           | Some t \<Rightarrow>
               (case writeTaskTx ((fn t)\<lparr>tUpdatedAt := eNow e\<rparr>) d of
                  (n, d') \<Rightarrow>
                    if n = 0 then (Some (RacedDelete tid), d)
                    else (None, insertAuditTx e (with_task_id ev tid) d')))"

definition idem_of_row :: "idem_row \<Rightarrow> idem_record" where
  "idem_of_row r =
     \<lparr>iKey = irKey r, iVerb = irVerb r, iHash = irHash r, iTaskID = irTask r,
      iCreatedAt = time_or_zero (irCreated r)\<rparr>"

definition find_idem :: "string \<Rightarrow> db \<Rightarrow> idem_row option" where
  "find_idem key d = List.find (\<lambda>r. irKey r = key) (dbIdem d)"

definition sq_FindIdempotency :: "env \<Rightarrow> string \<Rightarrow> db \<Rightarrow> store_error + idem_record option" where
  "sq_FindIdempotency e key d =
     (if eFault e then Inl DBError else Inr (map_option idem_of_row (find_idem key d)))"

definition sq_SaveIdempotency :: "env \<Rightarrow> idem_record \<Rightarrow> db \<Rightarrow> store_error option \<times> db" where
  "sq_SaveIdempotency e rec d =
     (let rec = (if iCreatedAt rec = zero_time then rec\<lparr>iCreatedAt := eNow e\<rparr> else rec)
      in if eFault e \<or> find_idem (iKey rec) d \<noteq> None then (Some DBError, d)
         else (None, d\<lparr>dbIdem := dbIdem d @
                [\<lparr>irKey = iKey rec, irVerb = iVerb rec, irHash = iHash rec, irTask = iTaskID rec,
                  irCreated = fmtTime (iCreatedAt rec)\<rparr>]\<rparr>))"

text \<open>
  \<open>ClaimDue\<close>: a SELECT of the oldest due row, then a conditional UPDATE of that row, at most five
  times. Between the two statements the connection is free: \<open>others k\<close> is what other users of the
  database do there in round \<open>k\<close>.
\<close>

definition due_row :: "string \<Rightarrow> task_row \<Rightarrow> bool" where
  "due_row now r \<longleftrightarrow>
     rwState r = state_name StatePending \<or>
     rwState r = state_name StateRetryScheduled \<and>
       (case rwNextRunAt r of None \<Rightarrow> True | Some s \<Rightarrow> s \<le> now)"

definition claim_select :: "time \<Rightarrow> db \<Rightarrow> string option" where
  "claim_select now d =
     (case sort_key rwCreatedAt (filter (due_row (fmtTime now)) (dbTasks d)) of
        [] \<Rightarrow> None
      | r # rs \<Rightarrow> Some (rwID r))"

definition claimed_row :: "env \<Rightarrow> task_row \<Rightarrow> task_row" where
  "claimed_row e r = r\<lparr>rwState := state_name StateExecuting, rwUpdatedAt := fmtTime (eNow e)\<rparr>"

definition claim_update :: "env \<Rightarrow> time \<Rightarrow> string \<Rightarrow> db \<Rightarrow> nat \<times> db" where
  "claim_update e now tid d =
     (let hit = (\<lambda>r. rwID r = tid \<and> due_row (fmtTime now) r)
      in (length (filter hit (dbTasks d)),
          d\<lparr>dbTasks := map (\<lambda>r. if hit r then claimed_row e r else r) (dbTasks d)\<rparr>))"

fun claim_loop ::
  "nat \<Rightarrow> (nat \<Rightarrow> db \<Rightarrow> db) \<Rightarrow> env \<Rightarrow> time \<Rightarrow> db \<Rightarrow> (store_error + task option) \<times> db" where
  "claim_loop 0 others e now d = (Inr None, d)"
| "claim_loop (Suc k) others e now d =
     (case claim_select now d of
        None \<Rightarrow> (Inr None, d)
      | Some tid \<Rightarrow>
          (case claim_update e now tid (others k d) of
             (n, d') \<Rightarrow>
               if n = 1
               then (case scanOne tid d' of
                       None \<Rightarrow> (Inl NoRows, d')
                     | Some t \<Rightarrow> (Inr (Some (cloneTask t)), d'))
               else claim_loop k others e now d'))"

definition sq_ClaimDue :: "env \<Rightarrow> time \<Rightarrow> db \<Rightarrow> (store_error + task option) \<times> db" where
  "sq_ClaimDue e now d =
     (if eFault e then (Inl DBError, d)
      else case claim_loop 5 (\<lambda>k d. d) e now d of
        (Inr (Some t), d') \<Rightarrow> (if eLate e then Inl DBError else Inr (Some t), d')
      | r \<Rightarrow> r)"

definition sq_RecordAttempt ::
  "env \<Rightarrow> string \<Rightarrow> int \<Rightarrow> time \<Rightarrow> time \<Rightarrow> int option \<Rightarrow> string \<Rightarrow> string \<Rightarrow> db \<Rightarrow> store_error option \<times> db" where
  "sq_RecordAttempt e tid n started ended ec outcome errMsg d =
     (if eFault e \<or> (\<exists>a \<in> set (dbAttempts d). atTask a = tid \<and> atN a = n) then (Some DBError, d)
      else (None, d\<lparr>dbAttempts := dbAttempts d @
             [\<lparr>atTask = tid, atN = n, atStarted = fmtTime started, atEnded = fmtTime ended,
               atExitCode = ec, atOutcome = outcome, atError = errMsg\<rparr>]\<rparr>))"

definition sq_AppendAudit :: "env \<Rightarrow> audit_event \<Rightarrow> db \<Rightarrow> store_error option \<times> db" where
  "sq_AppendAudit e ev d = (if eFault e then (Some DBError, d) else (None, insertAuditTx e ev d))"

definition sqlite_ops :: "db store_ops" where
  "sqlite_ops =
     \<lparr>sCreate = sq_Create, sGet = sq_Get, sList = sq_List, sUpdate = sq_Update,
      sDepth = sq_Depth, sClaimDue = sq_ClaimDue, sRecordAttempt = sq_RecordAttempt,
      sAppendAudit = sq_AppendAudit, sCreateAndAudit = sq_CreateAndAudit,
      sCreateAndAuditLimited = sq_CreateAndAuditLimited, sUpdateAndAudit = sq_UpdateAndAudit,
      sFindIdempotency = sq_FindIdempotency, sSaveIdempotency = sq_SaveIdempotency,
      sDrainOutbox = sq_DrainOutbox\<rparr>"

end
