(* ===== verification/Sqlite_Facts.thy ===== *)
theory Sqlite_Facts
  imports Sqlite_Store
begin

text \<open>
  What the SQLite store guarantees: it provides the Store contract, under the table invariant
  \<open>sq_ok\<close> (primary keys distinct, every row scans, every time text was written by the formatter).
\<close>

definition time_text :: "string \<Rightarrow> bool" where
  "time_text s \<longleftrightarrow> (\<exists>t. year_ok t \<and> s = fmtTime t)"

definition row_ok :: "task_row \<Rightarrow> bool" where
  "row_ok r \<longleftrightarrow>
     state_of (rwState r) \<noteq> None \<and> time_text (rwCreatedAt r) \<and>
     (\<forall>s. rwNextRunAt r = Some s \<longrightarrow> time_text s)"

definition sq_ok :: "db \<Rightarrow> bool" where
  "sq_ok d \<longleftrightarrow>
     distinct (map rwID (dbTasks d)) \<and> (\<forall>r \<in> set (dbTasks d). row_ok r) \<and>
     distinct (map irKey (dbIdem d))"

definition sq_view :: "db \<Rightarrow> string \<Rightarrow> task option" where
  "sq_view d tid = scanOne tid d"

definition sq_keys :: "db \<Rightarrow> string \<Rightarrow> idem_record option" where
  "sq_keys d key = map_option idem_of_row (find_idem key d)"

subsection \<open>Lookup in a table\<close>

lemma find_append: "find P (xs @ ys) = (case find P xs of None \<Rightarrow> find P ys | Some x \<Rightarrow> Some x)"
  by (induction xs) simp_all

lemma find_key_Some: "find (\<lambda>r. key r = k) xs = Some r \<Longrightarrow> r \<in> set xs \<and> key r = k"
  by (auto simp: find_Some_iff in_set_conv_nth)

lemma find_key_iff:
  assumes "distinct (map key xs)"
  shows "find (\<lambda>r. key r = k) xs = Some r \<longleftrightarrow> r \<in> set xs \<and> key r = k"
  using assms by (induction xs) auto

lemma find_key_None: "find (\<lambda>r. key r = k) xs = None \<longleftrightarrow> k \<notin> key ` set xs"
  by (auto simp: find_None_iff)

lemma find_key_map:
  assumes "\<And>r. key (f r) = key r"
  shows "find (\<lambda>r. key r = k) (map (\<lambda>r. if P r then f r else r) xs) =
    map_option (\<lambda>r. if P r then f r else r) (find (\<lambda>r. key r = k) xs)"
  using assms by (induction xs) auto

text \<open>With distinct keys a WHERE clause on the key selects at most one row.\<close>

lemma count_key:
  assumes "distinct (map key xs)" and "r \<in> set xs"
  shows "length (filter (\<lambda>x. key x = key r \<and> P x) xs) = (if P r then 1 else 0)"
  using assms
proof (induction xs)
  case (Cons x xs)
  have none: "filter (\<lambda>y. key y = key x \<and> P y) xs = []"
    using Cons.prems(1) by (auto simp: filter_empty_conv) (metis image_eqI)
  show ?case
  proof (cases "r = x")
    case True
    with none show ?thesis by simp
  next
    case False
    with Cons.prems have "r \<in> set xs" "key x \<noteq> key r" by auto
    with Cons show ?thesis by simp
  qed
qed simp

subsection \<open>Rows\<close>

lemma row_fields [simp]:
  "rwID (update_row t r) = rwID r" "rwCreatedAt (update_row t r) = rwCreatedAt r"
  "rwState (update_row t r) = state_name (tState t)"
  "rwNextRunAt (update_row t r) = map_option fmtTime (tNextRunAt t)"
  "rwID (new_row t) = tID t" "rwState (new_row t) = state_name (tState t)"
  "rwCreatedAt (new_row t) = fmtTime (tCreatedAt t)" "rwNextRunAt (new_row t) = None"
  "rwID (claimed_row e r) = rwID r" "rwCreatedAt (claimed_row e r) = rwCreatedAt r"
  "rwState (claimed_row e r) = state_name StateExecuting" "rwNextRunAt (claimed_row e r) = rwNextRunAt r"
  by (simp_all add: update_row_def new_row_def claimed_row_def del: state_name.simps)

lemma row_ok_update: "row_ok r \<Longrightarrow> storable t \<Longrightarrow> row_ok (update_row t r)"
  by (auto simp: row_ok_def storable_def time_text_def)

lemma row_ok_new: "storable t \<Longrightarrow> row_ok (new_row t)"
  by (auto simp: row_ok_def storable_def time_text_def)

lemma row_ok_claimed: "row_ok r \<Longrightarrow> row_ok (claimed_row e r)"
  by (simp add: row_ok_def del: state_name.simps)

lemma time_or_zero_fmt [simp]: "year_ok t \<Longrightarrow> time_or_zero (fmtTime t) = t"
  by (simp add: time_or_zero_def parseTime_fmtTime)

lemma fmtTime_nonempty [simp]: "fmtTime t \<noteq> []"
  by (simp add: fmtTime_def Let_def split: prod.split)

lemma scan_total: "row_ok r \<Longrightarrow> \<exists>t. scanTask r = Some t"
  by (auto simp: row_ok_def scanTask_def)

lemma scan_fields:
  assumes "scanTask r = Some t"
  shows "tID t = rwID r" "state_name (tState t) = rwState r" "tCreatedAt t = time_or_zero (rwCreatedAt r)"
    "tNextRunAt t = (case rwNextRunAt r of None \<Rightarrow> None | Some s \<Rightarrow> if s = [] then None else parseTime s)"
proof -
  from assms obtain st where st: "state_of (rwState r) = Some st" and t: "tState t = st"
    by (auto simp: scanTask_def split: option.splits)
  from st have "state_name st = rwState r" by (auto simp: state_of_def find_Some_iff)
  with t show "state_name (tState t) = rwState r" by simp
  show "tID t = rwID r" "tCreatedAt t = time_or_zero (rwCreatedAt r)"
    "tNextRunAt t = (case rwNextRunAt r of None \<Rightarrow> None | Some s \<Rightarrow> if s = [] then None else parseTime s)"
    using assms st by (auto simp: scanTask_def)
qed

lemma scan_state:
  "scanTask r = Some t \<Longrightarrow> tState t = st \<longleftrightarrow> rwState r = state_name st"
  using scan_fields(2) state_name_inj by metis

lemma scan_storable:
  assumes "row_ok r" and "scanTask r = Some t"
  shows "storable t"
  using assms(1) scan_fields(3,4) [OF assms(2)]
  by (auto simp: storable_def row_ok_def time_text_def parseTime_fmtTime split: option.splits if_splits)

lemma text_or_empty_nullStr [simp]: "text_or_empty (nullStr s) = s"
  by (simp add: text_or_empty_def nullStr_def)

lemma text_or_empty_Some [simp]: "text_or_empty (Some s) = s" "text_or_empty None = []"
  by (simp_all add: text_or_empty_def)

lemma boolInt_0 [simp]: "boolInt b \<noteq> 0 \<longleftrightarrow> b" "boolInt b = 0 \<longleftrightarrow> \<not> b"
  by (simp_all add: boolInt_def)

text \<open>Reading back what was written, up to the re-encoded fields.\<close>

lemma scan_update:
  assumes "rwID r = tID t" and "rwCreatedAt r = fmtTime (tCreatedAt t)" and "storable t"
    and "year_ok (tUpdatedAt t)"
  shows "\<exists>t'. scanTask (update_row t r) = Some t' \<and> core t' = core t"
proof -
  have "(case map_option fmtTime (tNextRunAt t) of None \<Rightarrow> None
      | Some s \<Rightarrow> if s = [] then None else parseTime s) = tNextRunAt t"
    using assms(3) by (cases "tNextRunAt t") (simp_all add: storable_def parseTime_fmtTime)
  moreover have "year_ok (tCreatedAt t)" using assms(3) by (simp add: storable_def)
  ultimately show ?thesis using assms by (simp add: scanTask_def update_row_def core_def)
qed

lemma scan_new:
  assumes "env_ok e"
  shows "\<exists>t'. scanTask (new_row (new_task e i)) = Some t' \<and> core t' = core (new_task e i)"
  using assms by (simp add: scanTask_def new_row_def new_task_def core_def env_ok_def del: state_name.simps)

lemma scan_claimed:
  assumes "scanTask r = Some t" and "env_ok e"
  shows "\<exists>t'. scanTask (claimed_row e r) = Some t' \<and>
    t' = t\<lparr>tState := StateExecuting, tUpdatedAt := eNow e\<rparr>"
proof -
  have "state_of (rwState r) \<noteq> None" using assms(1) by (auto simp: scanTask_def split: option.splits)
  with assms show ?thesis
    by (auto simp: scanTask_def claimed_row_def env_ok_def simp del: state_name.simps)
qed

subsection \<open>Tables\<close>

lemma sq_ok_empty [inv_intros]: "sq_ok empty_db"
  by (simp add: sq_ok_def empty_db_def)

text \<open>The tables a task operation does not touch.\<close>

lemma sq_ok_other [simp]:
  "sq_ok (d\<lparr>dbOutbox := o'\<rparr>) = sq_ok d" "sq_ok (d\<lparr>dbAttempts := a\<rparr>) = sq_ok d"
  by (simp_all add: sq_ok_def)

lemma sq_view_other [simp]:
  "sq_view (d\<lparr>dbOutbox := o'\<rparr>) = sq_view d" "sq_view (d\<lparr>dbAttempts := a\<rparr>) = sq_view d"
  "sq_view (d\<lparr>dbIdem := i\<rparr>) = sq_view d"
  by (simp_all add: sq_view_def scanOne_def find_row_def fun_eq_iff)

lemma sq_keys_other [simp]:
  "sq_keys (d\<lparr>dbOutbox := o'\<rparr>) = sq_keys d" "sq_keys (d\<lparr>dbAttempts := a\<rparr>) = sq_keys d"
  "sq_keys (d\<lparr>dbTasks := ts\<rparr>) = sq_keys d"
  by (simp_all add: sq_keys_def find_idem_def fun_eq_iff)

lemma insertAudit_other [simp]:
  "sq_ok (insertAuditTx e ev d) = sq_ok d" "sq_view (insertAuditTx e ev d) = sq_view d"
  "sq_keys (insertAuditTx e ev d) = sq_keys d" "dbTasks (insertAuditTx e ev d) = dbTasks d"
  by (simp_all add: insertAuditTx_def)

lemma mark_other [simp]:
  "sq_ok (mark_written ts k d) = sq_ok d" "sq_view (mark_written ts k d) = sq_view d"
  "sq_keys (mark_written ts k d) = sq_keys d" "dbTasks (mark_written ts k d) = dbTasks d"
  by (simp_all add: mark_written_def)

lemma drain_rows_other:
  "sq_ok (fst (snd (drain_rows es k rs n lg d))) = sq_ok d \<and>
   sq_view (fst (snd (drain_rows es k rs n lg d))) = sq_view d \<and>
   sq_keys (fst (snd (drain_rows es k rs n lg d))) = sq_keys d"
proof (induction rs arbitrary: k n lg d)
  case (Cons r rs)
  show ?case
    by (cases "unmarshal_event (obPayload r)";
        cases "Log (eWrite (es k)) (fmtTime (eNow (es k))) (the (unmarshal_event (obPayload r))) lg")
      (auto simp: Let_def Cons split: bool.split)
qed simp

lemma find_row_iff: "sq_ok d \<Longrightarrow> find_row tid d = Some r \<longleftrightarrow> r \<in> set (dbTasks d) \<and> rwID r = tid"
  by (simp add: find_row_def sq_ok_def find_key_iff)

lemma sq_view_iff:
  assumes "sq_ok d"
  shows "sq_view d tid = Some t \<longleftrightarrow> (\<exists>r \<in> set (dbTasks d). rwID r = tid \<and> scanTask r = Some t)"
proof (cases "find_row tid d")
  case None
  then have "\<forall>r \<in> set (dbTasks d). rwID r \<noteq> tid" using find_row_iff [OF assms, of tid] by simp
  with None show ?thesis by (simp add: sq_view_def scanOne_def)
next
  case (Some a)
  then have "r \<in> set (dbTasks d) \<and> rwID r = tid \<longleftrightarrow> r = a" for r
    using find_row_iff [OF assms, of tid r] by auto
  then have "(\<exists>r \<in> set (dbTasks d). rwID r = tid \<and> scanTask r = Some t) \<longleftrightarrow> scanTask a = Some t"
    unfolding Bex_def conj_assoc [symmetric] by simp
  with Some show ?thesis by (simp add: sq_view_def scanOne_def)
qed

lemma sq_view_row:
  assumes "sq_ok d" and "sq_view d tid = Some t"
  obtains r where "find_row tid d = Some r" "r \<in> set (dbTasks d)" "rwID r = tid" "scanTask r = Some t"
    "row_ok r"
  using assms find_row_iff [OF assms(1), of tid] sq_view_iff [OF assms(1), of tid t]
  by (auto simp: sq_ok_def)

lemma sq_view_None: "sq_ok d \<Longrightarrow> sq_view d tid = None \<longleftrightarrow> find_row tid d = None"
  using scan_total find_row_iff [of d tid]
  by (cases "find_row tid d") (auto simp: sq_view_def scanOne_def sq_ok_def)

text \<open>An UPDATE of the one row with a given id.\<close>

definition update_where :: "(task_row \<Rightarrow> bool) \<Rightarrow> (task_row \<Rightarrow> task_row) \<Rightarrow> db \<Rightarrow> db" where
  "update_where P f d = d\<lparr>dbTasks := map (\<lambda>r. if P r then f r else r) (dbTasks d)\<rparr>"

lemma update_where:
  assumes "sq_ok d" and "find_row tid d = Some r" and "P r" and "\<And>x. P x \<Longrightarrow> rwID x = tid"
    and "\<And>x. rwID (f x) = rwID x" and "row_ok (f r)"
  shows "sq_ok (update_where P f d)"
    and "sq_view (update_where P f d) = (sq_view d)(tid := scanTask (f r))"
proof -
  have r: "r \<in> set (dbTasks d)" "rwID r = tid" using assms(1,2) by (simp_all add: find_row_iff)
  have only: "x = r" if "P x" "x \<in> set (dbTasks d)" for x
    using find_row_iff [OF assms(1), of tid] that assms(2,4) by (metis option.inject)
  have "map rwID (map (\<lambda>r. if P r then f r else r) (dbTasks d)) = map rwID (dbTasks d)"
    using assms(5) by simp
  moreover have "row_ok (f x)" if "x \<in> set (dbTasks d)" "P x" for x
    using only [OF that(2,1)] assms(6) by simp
  ultimately show "sq_ok (update_where P f d)"
    using assms(1) by (auto simp: sq_ok_def update_where_def simp del: map_map)
  show "sq_view (update_where P f d) = (sq_view d)(tid := scanTask (f r))"
  proof
    fix k
    have look: "find_row k (update_where P f d) = map_option (\<lambda>r. if P r then f r else r) (find_row k d)"
      using find_key_map [where key = rwID and f = f and P = P, OF assms(5)]
      by (simp add: find_row_def update_where_def)
    show "sq_view (update_where P f d) k = ((sq_view d)(tid := scanTask (f r))) k"
    proof (cases "k = tid")
      case True
      with look assms(2,3) show ?thesis by (simp add: sq_view_def scanOne_def)
    next
      case False
      have "\<not> P x" if "find_row k d = Some x" for x
        using that False assms(4) by (auto simp: find_row_iff [OF assms(1)])
      with False look show ?thesis by (auto simp: sq_view_def scanOne_def split: option.split)
    qed
  qed
qed

lemma sq_keys_update_where [simp]: "sq_keys (update_where P f d) = sq_keys d"
  by (simp add: update_where_def)

lemma count_where:
  assumes "sq_ok d" and "find_row tid d = Some r"
  shows "length (filter (\<lambda>x. rwID x = tid \<and> P x) (dbTasks d)) = (if P r then 1 else 0)"
  using assms count_key [of rwID "dbTasks d" r P] by (auto simp: find_row_iff sq_ok_def)

lemma write_task:
  assumes "sq_ok d" and "sq_view d tid = Some t" and "fair_update fn t" and "env_ok e"
  shows "\<exists>d' t'. writeTaskTx ((fn t)\<lparr>tUpdatedAt := eNow e\<rparr>) d = (1, d') \<and> sq_ok d' \<and>
    sq_view d' = (sq_view d)(tid \<mapsto> t') \<and> sq_keys d' = sq_keys d \<and>
    core t' = core ((fn t)\<lparr>tUpdatedAt := eNow e\<rparr>)"
proof -
  from sq_view_row [OF assms(1,2)] obtain r where r: "find_row tid d = Some r" "rwID r = tid"
    "scanTask r = Some t" "row_ok r" by blast
  let ?t = "(fn t)\<lparr>tUpdatedAt := eNow e\<rparr>"
  let ?P = "\<lambda>x. rwID x = tid"
  have id: "tID ?t = tid" using assms(3) scan_fields(1) [OF r(3)] r(2) by (simp add: fair_update_def)
  have st: "storable ?t" using assms(3) by (simp add: fair_update_def)
  obtain c where c: "year_ok c" "rwCreatedAt r = fmtTime c" using r(4) by (auto simp: row_ok_def time_text_def)
  then have "rwCreatedAt r = fmtTime (tCreatedAt ?t)"
    using scan_fields(3) [OF r(3)] assms(3) by (simp add: fair_update_def)
  then obtain t' where t': "scanTask (update_row ?t r) = Some t'" "core t' = core ?t"
    using scan_update [of r ?t] id r(2) st assms(4) by (auto simp: env_ok_def)
  note up = update_where [where P = ?P and f = "update_row ?t", OF assms(1) r(1,2) _ _ row_ok_update [OF r(4) st]]
  have "writeTaskTx ?t d = (1, update_where ?P (update_row ?t) d)"
    using count_where [OF assms(1) r(1), of "\<lambda>x. True"] id
    by (simp add: writeTaskTx_def update_where_def)
  with up t' show ?thesis by (auto intro!: exI [of _ t'])
qed

subsection \<open>Listing and counting\<close>

lemma scanned_ids:
  "\<forall>r \<in> set rs. row_ok r \<Longrightarrow> map tID (List.map_filter scanTask rs) = map rwID rs"
proof (induction rs)
  case (Cons r rs)
  then obtain t where "scanTask r = Some t" using scan_total [of r] by auto
  with Cons scan_fields(1) [OF this] show ?case by (simp add: List.map_filter_simps)
qed (simp add: List.map_filter_simps)

lemma sq_list_ids:
  assumes "sq_ok d" and "\<not> eFault e"
  shows "distinct (map tID (sq_List e st d)) \<and>
    set (map tID (sq_List e st d)) =
      {tid. \<exists>t. sq_view d tid = Some t \<and> (st = [] \<or> state_name (tState t) = st)}"
proof -
  define P where "P r \<longleftrightarrow> st = [] \<or> rwState r = st" for r :: task_row
  define rs where "rs = sort_key rwCreatedAt (filter P (dbTasks d))"
  have rs: "set rs = {r \<in> set (dbTasks d). P r}" by (simp add: rs_def)
  have "map tID (sq_List e st d) = map rwID rs"
    using assms scanned_ids [of rs] rs by (simp add: sq_List_def rs_def P_def [abs_def] sq_ok_def)
  moreover have "distinct (map rwID (filter P (dbTasks d)))"
    using assms(1) by (simp add: sq_ok_def distinct_map_filter)
  then have "distinct (map rwID rs)" unfolding rs_def distinct_map [of rwID] distinct_sort set_sort .
  moreover have "rwID ` set rs = {tid. \<exists>t. sq_view d tid = Some t \<and> (st = [] \<or> state_name (tState t) = st)}"
  proof (intro set_eqI iffI)
    fix tid assume "tid \<in> rwID ` set rs"
    then obtain r where r: "r \<in> set (dbTasks d)" "P r" "rwID r = tid" by (auto simp: rs)
    then obtain t where t: "scanTask r = Some t" using assms(1) scan_total by (auto simp: sq_ok_def)
    then have "sq_view d tid = Some t" using r sq_view_iff [OF assms(1)] by blast
    then show "tid \<in> {tid. \<exists>t. sq_view d tid = Some t \<and> (st = [] \<or> state_name (tState t) = st)}"
      using r(2) scan_fields(2) [OF t] by (auto simp: P_def)
  next
    fix tid assume "tid \<in> {tid. \<exists>t. sq_view d tid = Some t \<and> (st = [] \<or> state_name (tState t) = st)}"
    then obtain t where t: "sq_view d tid = Some t" "st = [] \<or> state_name (tState t) = st" by blast
    from sq_view_row [OF assms(1) t(1)] obtain r where r: "r \<in> set (dbTasks d)" "rwID r = tid"
      "scanTask r = Some t" by metis
    then have "r \<in> set rs" using t(2) scan_fields(2) [OF r(3)] by (simp add: rs P_def)
    with r(2) show "tid \<in> rwID ` set rs" by blast
  qed
  ultimately show ?thesis by simp
qed

lemma counted_iff: "state_name st \<in> set counted_states \<longleftrightarrow> active_state st"
  by (cases st) (simp_all add: counted_states_def del: state_name.simps)

lemma sq_depth:
  assumes "sq_ok d"
  shows "sq_Depth d = card (active_ids (sq_view d))"
proof -
  let ?rs = "filter (\<lambda>r. rwState r \<in> set counted_states) (dbTasks d)"
  have "distinct (map rwID ?rs)" using assms by (simp add: sq_ok_def distinct_map_filter)
  then have "length ?rs = card (rwID ` set ?rs)" by (metis distinct_card length_map set_map)
  moreover have "rwID ` set ?rs = active_ids (sq_view d)"
  proof (intro set_eqI iffI)
    fix tid assume "tid \<in> rwID ` set ?rs"
    then obtain r where r: "r \<in> set (dbTasks d)" "rwState r \<in> set counted_states" "rwID r = tid" by auto
    then obtain t where t: "scanTask r = Some t" using assms scan_total by (auto simp: sq_ok_def)
    then have "sq_view d tid = Some t" using r sq_view_iff [OF assms] by blast
    moreover have "active_state (tState t)" using r(2) scan_fields(2) [OF t] counted_iff by metis
    ultimately show "tid \<in> active_ids (sq_view d)" by (auto simp: active_ids_def)
  next
    fix tid assume "tid \<in> active_ids (sq_view d)"
    then obtain t where t: "sq_view d tid = Some t" "active_state (tState t)" by (auto simp: active_ids_def)
    from sq_view_row [OF assms t(1)] obtain r where r: "r \<in> set (dbTasks d)" "rwID r = tid"
      "scanTask r = Some t" by metis
    then have "rwState r \<in> set counted_states" using t(2) scan_fields(2) [OF r(3)] counted_iff by metis
    with r show "tid \<in> rwID ` set ?rs" by auto
  qed
  ultimately show ?thesis by (simp add: sq_Depth_def)
qed

subsection \<open>Claiming\<close>

text \<open>The instant a row waits for, as the task shows it.\<close>

lemma due_row_states:
  "due_row now r \<Longrightarrow> scanTask r = Some t \<Longrightarrow> tState t = StatePending \<or> tState t = StateRetryScheduled"
  using scan_state [of r t] by (auto simp: due_row_def)

lemma claim_select_Some:
  assumes "claim_select now d = Some tid"
  shows "\<exists>r \<in> set (dbTasks d). rwID r = tid \<and> due_row (fmtTime now) r \<and>
    (\<forall>x \<in> set (dbTasks d). due_row (fmtTime now) x \<longrightarrow> rwCreatedAt r \<le> rwCreatedAt x)"
proof -
  let ?rs = "sort_key rwCreatedAt (filter (due_row (fmtTime now)) (dbTasks d))"
  from assms obtain r rs where r: "?rs = r # rs" "rwID r = tid"
    by (auto simp: claim_select_def split: list.splits)
  have "sorted (map rwCreatedAt ?rs)" by simp
  then have "\<forall>x \<in> set rs. rwCreatedAt r \<le> rwCreatedAt x" unfolding r(1) by simp
  moreover have "set (r # rs) = {x \<in> set (dbTasks d). due_row (fmtTime now) x}"
    unfolding r(1) [symmetric] by simp
  ultimately show ?thesis using r(2) by (intro bexI [of _ r]) auto
qed

lemma claim_select_None:
  "claim_select now d = None \<longleftrightarrow> (\<forall>r \<in> set (dbTasks d). \<not> due_row (fmtTime now) r)"
proof -
  have "claim_select now d = None \<longleftrightarrow> sort_key rwCreatedAt (filter (due_row (fmtTime now)) (dbTasks d)) = []"
    by (simp add: claim_select_def split: list.split)
  also have "\<dots> \<longleftrightarrow> set (sort_key rwCreatedAt (filter (due_row (fmtTime now)) (dbTasks d))) = {}"
    by (simp only: set_empty)
  finally show ?thesis by auto
qed

lemma map_if_none: "\<forall>x \<in> set xs. \<not> P x \<Longrightarrow> map (\<lambda>x. if P x then f x else x) xs = xs"
  by (induction xs) simp_all

text \<open>The conditional UPDATE: it takes the row when it is still due, and nothing otherwise.\<close>

lemma claim_update_effect:
  assumes "sq_ok d" and "find_row tid d = Some r"
  shows "due_row (fmtTime now) r \<Longrightarrow> env_ok e \<Longrightarrow>
      \<exists>d' t. claim_update e now tid d = (1, d') \<and> sq_ok d' \<and> sq_keys d' = sq_keys d \<and>
        scanTask r = Some t \<and>
        sq_view d' = (sq_view d)(tid \<mapsto> t\<lparr>tState := StateExecuting, tUpdatedAt := eNow e\<rparr>)"
    and "\<not> due_row (fmtTime now) r \<Longrightarrow> claim_update e now tid d = (0, d)"
proof -
  let ?P = "\<lambda>x. rwID x = tid \<and> due_row (fmtTime now) x"
  have r: "r \<in> set (dbTasks d)" "rwID r = tid" "row_ok r"
    using assms by (auto simp: find_row_iff sq_ok_def)
  have n: "length (filter ?P (dbTasks d)) = (if due_row (fmtTime now) r then 1 else 0)"
    by (rule count_where [OF assms])
  {
    assume due: "due_row (fmtTime now) r" and e: "env_ok e"
    obtain t where t: "scanTask r = Some t" using scan_total [OF r(3)] by blast
    note up = update_where [where P = ?P and f = "claimed_row e", OF assms _ _ _ row_ok_claimed [OF r(3)]]
    have "claim_update e now tid d = (1, update_where ?P (claimed_row e) d)"
      using n due by (simp add: claim_update_def update_where_def Let_def)
    with up due r(2) t scan_claimed [OF t e] show "\<exists>d' t. claim_update e now tid d = (1, d') \<and> sq_ok d' \<and>
        sq_keys d' = sq_keys d \<and> scanTask r = Some t \<and>
        sq_view d' = (sq_view d)(tid \<mapsto> t\<lparr>tState := StateExecuting, tUpdatedAt := eNow e\<rparr>)"
      by auto
  }
  assume "\<not> due_row (fmtTime now) r"
  with n have "filter ?P (dbTasks d) = []" by simp
  then have "map (\<lambda>x. if ?P x then claimed_row e x else x) (dbTasks d) = dbTasks d"
    unfolding filter_empty_conv by (rule map_if_none)
  with \<open>filter ?P (dbTasks d) = []\<close> show "claim_update e now tid d = (0, d)"
    by (simp add: claim_update_def Let_def)
qed

lemma claim_update_missing: "find_row tid d = None \<Longrightarrow> claim_update e now tid d = (0, d)"
  using map_if_none [where P = "\<lambda>x. rwID x = tid \<and> due_row (fmtTime now) x"]
  by (simp add: claim_update_def Let_def find_row_def find_None_iff filter_empty_conv)

lemma sq_claim_alone:
  assumes "sq_ok d" and "env_ok e"
  shows "sq_ClaimDue e now d = (Inr None, d) \<and> claim_select now d = None \<or>
    (\<exists>tid r t d'. claim_select now d = Some tid \<and> find_row tid d = Some r \<and> due_row (fmtTime now) r \<and>
      scanTask r = Some t \<and>
      sq_ClaimDue e now d = (Inr (Some (cloneTask (t\<lparr>tState := StateExecuting, tUpdatedAt := eNow e\<rparr>))), d') \<and>
      sq_ok d' \<and> sq_keys d' = sq_keys d \<and>
      sq_view d' = (sq_view d)(tid \<mapsto> t\<lparr>tState := StateExecuting, tUpdatedAt := eNow e\<rparr>))"
proof (cases "claim_select now d")
  case None
  with assms show ?thesis by (simp add: sq_ClaimDue_def env_ok_def eval_nat_numeral)
next
  case (Some tid)
  from claim_select_Some [OF this] obtain r where r: "r \<in> set (dbTasks d)" "rwID r = tid"
    "due_row (fmtTime now) r" by blast
  then have f: "find_row tid d = Some r" using find_row_iff [OF assms(1)] by simp
  from claim_update_effect(1) [OF assms(1) f r(3) assms(2)] obtain d' t where
    u: "claim_update e now tid d = (1, d')" "sq_ok d'" "sq_keys d' = sq_keys d" "scanTask r = Some t"
      "sq_view d' = (sq_view d)(tid \<mapsto> t\<lparr>tState := StateExecuting, tUpdatedAt := eNow e\<rparr>)" by blast
  then have "scanOne tid d' = Some (t\<lparr>tState := StateExecuting, tUpdatedAt := eNow e\<rparr>)"
    by (simp add: sq_view_def [symmetric])
  with Some u(1) assms(2) have "sq_ClaimDue e now d =
      (Inr (Some (cloneTask (t\<lparr>tState := StateExecuting, tUpdatedAt := eNow e\<rparr>))), d')"
    by (simp add: sq_ClaimDue_def env_ok_def eval_nat_numeral)
  with Some f r(3) u show ?thesis by blast
qed

subsection \<open>Inserting\<close>

lemma insert_task_effect:
  assumes "sq_ok d" and "env_ok e" and "sq_view d (eID e) = None"
  shows "\<exists>d' t'. insert_task (new_task e i) d = Some d' \<and> sq_ok d' \<and>
    sq_view d' = (sq_view d)(eID e \<mapsto> t') \<and> sq_keys d' = sq_keys d \<and> core t' = core (new_task e i)"
proof -
  let ?t = "new_task e i"
  let ?d = "d\<lparr>dbTasks := dbTasks d @ [new_row ?t]\<rparr>"
  have id: "tID ?t = eID e" by (simp add: new_task_def)
  have none: "find_row (eID e) d = None" using assms(1,3) by (simp add: sq_view_None)
  then have "eID e \<notin> rwID ` set (dbTasks d)" by (auto simp: find_row_def find_None_iff)
  moreover have "row_ok (new_row ?t)" using assms(2) by (intro row_ok_new storable_new)
  ultimately have ok: "sq_ok ?d" using assms(1) id by (simp add: sq_ok_def)
  obtain t' where t': "scanTask (new_row ?t) = Some t'" "core t' = core ?t"
    using scan_new [OF assms(2)] by blast
  have "sq_view ?d k = ((sq_view d)(eID e \<mapsto> t')) k" for k
  proof (cases "k = eID e")
    case True
    with none t' id show ?thesis by (simp add: sq_view_def scanOne_def find_row_def find_append)
  next
    case False
    with id show ?thesis
      by (simp add: sq_view_def scanOne_def find_row_def find_append split: option.split)
  qed
  then have "sq_view ?d = (sq_view d)(eID e \<mapsto> t')" by (rule ext)
  moreover have "insert_task ?t d = Some ?d" using none id by (simp add: insert_task_def)
  ultimately show ?thesis using ok t'(2) by auto
qed

lemma sq_save_effect:
  assumes "sq_ok d" and "\<not> eFault e" and "sq_keys d (iKey rec) = None"
  shows "\<exists>d' r. sq_SaveIdempotency e rec d = (None, d') \<and> sq_ok d' \<and> sq_view d' = sq_view d \<and>
    sq_keys d' = (sq_keys d)(iKey rec \<mapsto> r) \<and> same_binding r rec"
proof -
  let ?rec = "if iCreatedAt rec = zero_time then rec\<lparr>iCreatedAt := eNow e\<rparr> else rec"
  let ?row = "\<lparr>irKey = iKey rec, irVerb = iVerb rec, irHash = iHash rec, irTask = iTaskID rec,
    irCreated = fmtTime (iCreatedAt ?rec)\<rparr>"
  let ?d = "d\<lparr>dbIdem := dbIdem d @ [?row]\<rparr>"
  have same: "iKey ?rec = iKey rec" "iVerb ?rec = iVerb rec" "iHash ?rec = iHash rec"
    "iTaskID ?rec = iTaskID rec" by simp_all
  have none: "find_idem (iKey rec) d = None" using assms(3) by (simp add: sq_keys_def)
  then have "iKey rec \<notin> irKey ` set (dbIdem d)" by (auto simp: find_idem_def find_None_iff)
  then have "sq_ok ?d" using assms(1) by (simp add: sq_ok_def)
  moreover have "sq_SaveIdempotency e rec d = (None, ?d)"
    using none assms(2) by (simp only: sq_SaveIdempotency_def Let_def same) simp
  moreover have "sq_keys ?d = (sq_keys d)(iKey rec \<mapsto> idem_of_row ?row)"
    using none by (auto simp: sq_keys_def find_idem_def find_append fun_eq_iff split: option.split)
  moreover have "same_binding (idem_of_row ?row) rec" by (simp add: same_binding_def idem_of_row_def)
  ultimately show ?thesis by (metis sq_view_other(3))
qed

subsection \<open>The SQLite store provides the Store contract\<close>

lemma sqlite_ops_simps [simp]:
  "sCreate sqlite_ops = sq_Create" "sGet sqlite_ops = sq_Get" "sList sqlite_ops = sq_List"
  "sUpdate sqlite_ops = sq_Update" "sDepth sqlite_ops = sq_Depth"
  "sClaimDue sqlite_ops = sq_ClaimDue" "sRecordAttempt sqlite_ops = sq_RecordAttempt"
  "sAppendAudit sqlite_ops = sq_AppendAudit" "sCreateAndAudit sqlite_ops = sq_CreateAndAudit"
  "sCreateAndAuditLimited sqlite_ops = sq_CreateAndAuditLimited"
  "sUpdateAndAudit sqlite_ops = sq_UpdateAndAudit"
  "sFindIdempotency sqlite_ops = sq_FindIdempotency"
  "sSaveIdempotency sqlite_ops = sq_SaveIdempotency" "sDrainOutbox sqlite_ops = sq_DrainOutbox"
  by (simp_all add: sqlite_ops_def)

lemma sq_update_effect:
  assumes "sq_ok d" and "env_ok e" and "sq_view d tid = Some t" and "fair_update fn t"
  shows "\<exists>d' t'. sq_Update e tid fn d = (None, d') \<and> sq_ok d' \<and> sq_view d' = (sq_view d)(tid \<mapsto> t') \<and>
      sq_keys d' = sq_keys d \<and> core t' = core ((fn t)\<lparr>tUpdatedAt := eNow e\<rparr>)"
    and "\<exists>d' t'. sq_UpdateAndAudit e tid fn ev d = (None, d') \<and> sq_ok d' \<and>
      sq_view d' = (sq_view d)(tid \<mapsto> t') \<and> sq_keys d' = sq_keys d \<and>
      core t' = core ((fn t)\<lparr>tUpdatedAt := eNow e\<rparr>)"
proof -
  from write_task [OF assms(1,3,4,2)] obtain d' t' where
    w: "writeTaskTx ((fn t)\<lparr>tUpdatedAt := eNow e\<rparr>) d = (1, d')" "sq_ok d'"
      "sq_view d' = (sq_view d)(tid \<mapsto> t')" "sq_keys d' = sq_keys d"
      "core t' = core ((fn t)\<lparr>tUpdatedAt := eNow e\<rparr>)" by blast
  have o: "scanOne tid d = Some t" "\<not> eFault e" using assms(2,3) by (simp_all add: sq_view_def env_ok_def)
  from o w(1) have "sq_Update e tid fn d = (None, d')" by (simp add: sq_Update_def)
  with w(2-5) show "\<exists>d' t'. sq_Update e tid fn d = (None, d') \<and> sq_ok d' \<and>
      sq_view d' = (sq_view d)(tid \<mapsto> t') \<and> sq_keys d' = sq_keys d \<and>
      core t' = core ((fn t)\<lparr>tUpdatedAt := eNow e\<rparr>)" by blast
  from o w(1) have "sq_UpdateAndAudit e tid fn ev d = (None, insertAuditTx e (with_task_id ev tid) d')"
    by (simp add: sq_UpdateAndAudit_def)
  moreover have "sq_ok (insertAuditTx e (with_task_id ev tid) d')" using w(2) by simp
  moreover have "sq_view (insertAuditTx e (with_task_id ev tid) d') = (sq_view d)(tid \<mapsto> t')"
    "sq_keys (insertAuditTx e (with_task_id ev tid) d') = sq_keys d" using w(3,4) by simp_all
  ultimately show "\<exists>d' t'. sq_UpdateAndAudit e tid fn ev d = (None, d') \<and> sq_ok d' \<and>
      sq_view d' = (sq_view d)(tid \<mapsto> t') \<and> sq_keys d' = sq_keys d \<and>
      core t' = core ((fn t)\<lparr>tUpdatedAt := eNow e\<rparr>)" using w(5) by blast
qed

lemma sq_create_effect:
  assumes "sq_ok d" and "env_ok e" and "int (sq_Depth d) < maxDepth" and "sq_view d (eID e) = None"
  shows "\<exists>d' t t'. sq_CreateAndAuditLimited e i ev maxDepth d = (Inr t, d') \<and> sq_ok d' \<and>
    sq_view d' = (sq_view d)(eID e \<mapsto> t') \<and> sq_keys d' = sq_keys d \<and>
    core t' = core (new_task e i) \<and> core t = core t'"
proof -
  from insert_task_effect [OF assms(1,2,4)] obtain d' t' where
    i: "insert_task (new_task e i) d = Some d'" "sq_ok d'" "sq_view d' = (sq_view d)(eID e \<mapsto> t')"
      "sq_keys d' = sq_keys d" "core t' = core (new_task e i)" by blast
  let ?d = "insertAuditTx e (with_task_id ev (tID (new_task e i))) d'"
  have "sq_CreateAndAuditLimited e i ev maxDepth d = (Inr (cloneTask (new_task e i)), ?d)"
    using i(1) assms(2,3) by (simp add: sq_CreateAndAuditLimited_def env_ok_def Let_def)
  moreover have "sq_ok ?d" "sq_view ?d = (sq_view d)(eID e \<mapsto> t')" "sq_keys ?d = sq_keys d"
    using i(2-4) by simp_all
  moreover have "core (cloneTask (new_task e i)) = core t'" using i(5) by simp
  ultimately show ?thesis using i(5) by blast
qed

lemma sq_claim_none:
  assumes "sq_ok d" and "env_ok e" and "sq_ClaimDue e now d = (Inr None, d')"
  shows "d' = d \<and> (\<forall>tid t. sq_view d tid = Some t \<longrightarrow> tState t \<noteq> StatePending)"
proof -
  have "d' = d" and none: "claim_select now d = None"
    using sq_claim_alone [OF assms(1,2), of now] assms(3) by auto
  have "tState t \<noteq> StatePending" if v: "sq_view d tid = Some t" for tid t
  proof -
    from sq_view_row [OF assms(1) v] obtain r where "r \<in> set (dbTasks d)" "scanTask r = Some t" by metis
    with none scan_state [of r t StatePending] show ?thesis
      by (auto simp: claim_select_None due_row_def simp del: state_name.simps)
  qed
  with \<open>d' = d\<close> show ?thesis by blast
qed

lemma sq_claim_some:
  assumes "sq_ok d" and "env_ok e" and "sq_ClaimDue e now d = (Inr (Some c), d')"
  shows "\<exists>r t. claim_select now d = Some (tID c) \<and> find_row (tID c) d = Some r \<and>
    due_row (fmtTime now) r \<and> scanTask r = Some t \<and> sq_ok d' \<and> sq_keys d' = sq_keys d \<and>
    c = cloneTask (t\<lparr>tState := StateExecuting, tUpdatedAt := eNow e\<rparr>) \<and>
    sq_view d' = (sq_view d)(tID c \<mapsto> t\<lparr>tState := StateExecuting, tUpdatedAt := eNow e\<rparr>)"
proof -
  obtain tid r t where c: "claim_select now d = Some tid" "find_row tid d = Some r"
      "due_row (fmtTime now) r" "scanTask r = Some t" "sq_ok d'" "sq_keys d' = sq_keys d"
      "c = cloneTask (t\<lparr>tState := StateExecuting, tUpdatedAt := eNow e\<rparr>)"
      "sq_view d' = (sq_view d)(tid \<mapsto> t\<lparr>tState := StateExecuting, tUpdatedAt := eNow e\<rparr>)"
    using sq_claim_alone [OF assms(1,2), of now] assms(3) by auto
  have "tID c = tid" using c(7) scan_fields(1) [OF c(4)] find_row_iff [OF assms(1)] c(2) by simp
  with c show ?thesis by blast
qed

interpretation sql: task_store sqlite_ops sq_view sq_keys sq_ok
proof
  fix s :: db and e tid t assume ok: "sq_ok s"
  show "tID t = tid \<and> storable t" if v: "sq_view s tid = Some t"
  proof -
    from sq_view_row [OF ok v] obtain r where "rwID r = tid" "scanTask r = Some t" "row_ok r" by metis
    with scan_fields(1) scan_storable show ?thesis by metis
  qed
  have "{tid. sq_view s tid \<noteq> None} \<subseteq> rwID ` set (dbTasks s)" using sq_view_iff [OF ok] by force
  then show "finite {tid. sq_view s tid \<noteq> None}" by (rule finite_subset) simp
  show "env_ok e \<Longrightarrow> map_option core (sGet sqlite_ops e tid s) = map_option core (sq_view s tid)"
    by (simp add: sq_Get_def sq_view_def env_ok_def)
next
  fix s :: db and e st assume "sq_ok s" "env_ok e"
  then have "distinct (map tID (sq_List e st s)) \<and> set (map tID (sq_List e st s)) =
      {tid. \<exists>t. sq_view s tid = Some t \<and> (st = [] \<or> state_name (tState t) = st)}"
    by (intro sq_list_ids) (simp_all add: env_ok_def)
  then show "distinct (map tID (sList sqlite_ops e st s)) \<and> set (map tID (sList sqlite_ops e st s)) =
      {tid. \<exists>t. sq_view s tid = Some t \<and> (st = [] \<or> state_name (tState t) = st)}"
    unfolding sqlite_ops_simps .
next
  fix s :: db assume "sq_ok s"
  then show "sDepth sqlite_ops s = card (active_ids (sq_view s))" by (simp add: sq_depth)
next
  fix s :: db and e tid t fn ev
  assume a: "sq_ok s" "env_ok e" "sq_view s tid = Some t" "fair_update fn t"
  show "\<exists>s' t'. sUpdate sqlite_ops e tid fn s = (None, s') \<and> sq_ok s' \<and> sq_view s' = (sq_view s)(tid \<mapsto> t') \<and>
      sq_keys s' = sq_keys s \<and> core t' = core ((fn t)\<lparr>tUpdatedAt := eNow e\<rparr>)"
    unfolding sqlite_ops_simps by (rule sq_update_effect(1) [OF a])
  show "\<exists>s' t'. sUpdateAndAudit sqlite_ops e tid fn ev s = (None, s') \<and> sq_ok s' \<and>
      sq_view s' = (sq_view s)(tid \<mapsto> t') \<and> sq_keys s' = sq_keys s \<and>
      core t' = core ((fn t)\<lparr>tUpdatedAt := eNow e\<rparr>)"
    unfolding sqlite_ops_simps by (rule sq_update_effect(2) [OF a])
next
  fix s :: db and e tid fn ev assume "sq_view s tid = None"
  then show "snd (sUpdateAndAudit sqlite_ops e tid fn ev s) = s \<and>
      fst (sUpdateAndAudit sqlite_ops e tid fn ev s) \<noteq> None"
    by (simp add: sq_UpdateAndAudit_def sq_view_def)
next
  fix s s' :: db and e now assume "sq_ok s" "env_ok e" "sClaimDue sqlite_ops e now s = (Inr None, s')"
  then show "s' = s \<and> (\<forall>tid t. sq_view s tid = Some t \<longrightarrow> tState t \<noteq> StatePending)"
    unfolding sqlite_ops_simps by (rule sq_claim_none)
next
  fix s s' :: db and e now c
  assume a: "sq_ok s" "env_ok e" "sClaimDue sqlite_ops e now s = (Inr (Some c), s')"
  from sq_claim_some [OF a [unfolded sqlite_ops_simps]] obtain r t where
    c: "find_row (tID c) s = Some r" "due_row (fmtTime now) r" "scanTask r = Some t" "sq_ok s'"
      "sq_keys s' = sq_keys s" "c = cloneTask (t\<lparr>tState := StateExecuting, tUpdatedAt := eNow e\<rparr>)"
      "sq_view s' = (sq_view s)(tID c \<mapsto> t\<lparr>tState := StateExecuting, tUpdatedAt := eNow e\<rparr>)" by blast
  have "sq_view s (tID c) = Some t" using c(1,3) by (simp add: sq_view_def scanOne_def)
  moreover have "core c = core (t\<lparr>tState := StateExecuting, tUpdatedAt := eNow e\<rparr>)"
    using c(6) core_clone by metis
  ultimately show "\<exists>t t'. sq_view s (tID c) = Some t \<and>
      (tState t = StatePending \<or> tState t = StateRetryScheduled) \<and> sq_ok s' \<and>
      sq_view s' = (sq_view s)(tID c \<mapsto> t') \<and> sq_keys s' = sq_keys s \<and>
      core t' = core (t\<lparr>tState := StateExecuting, tUpdatedAt := eNow e\<rparr>) \<and> core c = core t'"
    using due_row_states [OF c(2,3)] c(4,5,7) by blast
next
  fix s :: db and e now assume "sq_ok s" "env_ok e"
  from sq_claim_alone [OF this, of now] show "\<exists>r s'. sClaimDue sqlite_ops e now s = (Inr r, s')"
    unfolding sqlite_ops_simps by blast
next
  fix s :: db and e tid n t0 t1 ec oc msg log lim ev assume "sq_ok s"
  then show "sq_view (snd (sRecordAttempt sqlite_ops e tid n t0 t1 ec oc msg s)) = sq_view s \<and>
      sq_keys (snd (sRecordAttempt sqlite_ops e tid n t0 t1 ec oc msg s)) = sq_keys s \<and>
      sq_ok (snd (sRecordAttempt sqlite_ops e tid n t0 t1 ec oc msg s))"
    and "sq_view (fst (snd (sDrainOutbox sqlite_ops e log lim s))) = sq_view s \<and>
      sq_keys (fst (snd (sDrainOutbox sqlite_ops e log lim s))) = sq_keys s \<and>
      sq_ok (fst (snd (sDrainOutbox sqlite_ops e log lim s)))"
    and "sq_view (snd (sAppendAudit sqlite_ops e ev s)) = sq_view s \<and>
      sq_keys (snd (sAppendAudit sqlite_ops e ev s)) = sq_keys s \<and>
      sq_ok (snd (sAppendAudit sqlite_ops e ev s))"
    by (simp_all add: sq_RecordAttempt_def sq_DrainOutbox_def drain_batch_def drain_rows_other
        sq_AppendAudit_def)
next
  fix s :: db and e i ev maxDepth assume "env_ok e" "maxDepth \<le> int (sDepth sqlite_ops s)"
  then show "sCreateAndAuditLimited sqlite_ops e i ev maxDepth s = (Inl QueueFull, s)"
    by (simp add: sq_CreateAndAuditLimited_def env_ok_def)
next
  fix s :: db and e i ev maxDepth
  assume "sq_ok s" "env_ok e" "int (sDepth sqlite_ops s) < maxDepth" "sq_view s (eID e) = None"
  then show "\<exists>s' t t'. sCreateAndAuditLimited sqlite_ops e i ev maxDepth s = (Inr t, s') \<and> sq_ok s' \<and>
      sq_view s' = (sq_view s)(eID e \<mapsto> t') \<and> sq_keys s' = sq_keys s \<and>
      core t' = core (new_task e i) \<and> core t = core t'"
    unfolding sqlite_ops_simps by (rule sq_create_effect)
next
  fix s :: db and e k assume "sq_ok s" "env_ok e"
  moreover have "same_binding r r" for r by (simp add: same_binding_def)
  ultimately show "\<exists>r. sFindIdempotency sqlite_ops e k s = Inr r \<and> rel_option same_binding r (sq_keys s k)"
    by (simp add: sq_FindIdempotency_def sq_keys_def env_ok_def option.rel_refl)
next
  fix s :: db and e :: env and rec :: idem_record
  assume "sq_ok s" "env_ok e" "sq_keys s (iKey rec) = None"
  then show "\<exists>s' r. sSaveIdempotency sqlite_ops e rec s = (None, s') \<and> sq_ok s' \<and> sq_view s' = sq_view s \<and>
      sq_keys s' = (sq_keys s)(iKey rec \<mapsto> r) \<and> same_binding r rec"
    unfolding sqlite_ops_simps by (intro sq_save_effect) (simp_all add: env_ok_def)
next
  fix s :: db and e :: env and rec :: idem_record assume "sq_keys s (iKey rec) \<noteq> None"
  then have "find_idem (iKey rec) s \<noteq> None" by (simp add: sq_keys_def)
  then show "\<exists>err. sSaveIdempotency sqlite_ops e rec s = (Some err, s)"
    by (simp add: sq_SaveIdempotency_def Let_def)
qed

text \<open>
  A call that fails leaves the database as it was: every call is one statement or one transaction. The
  exception is a claim, which reads the row back after its UPDATE: when that read fails (\<open>eLate\<close>) the
  task is executing although the caller has an error.
  The file of the audit log plays no part in the calls that write tasks.
\<close>

definition calm :: "env \<Rightarrow> env" where
  "calm e = e\<lparr>eWrite := Written, eLate := False\<rparr>"

lemma calm_ok: "year_ok (eNow e) \<Longrightarrow> \<not> eFault e \<Longrightarrow> env_ok (calm e)"
  by (simp add: calm_def env_ok_def)

lemma calm_simps [simp]:
  "eNow (calm e) = eNow e" "eID (calm e) = eID e" "eRowID (calm e) = eRowID e" "eFault (calm e) = eFault e"
  by (simp_all add: calm_def)

lemma calm_calls:
  "sq_Update (calm e) = sq_Update e" "sq_UpdateAndAudit (calm e) = sq_UpdateAndAudit e"
  "sq_ClaimDue e now d = (if eLate e then apfst (\<lambda>r. case r of Inr (Some t) \<Rightarrow> Inl DBError | _ \<Rightarrow> r)
     (sq_ClaimDue (calm e) now d) else sq_ClaimDue (calm e) now d)"
  "sq_CreateAndAuditLimited (calm e) = sq_CreateAndAuditLimited e"
proof -
  have ev: "insertAuditTx (calm e) = insertAuditTx e" "new_task (calm e) = new_task e"
    "claim_update (calm e) = claim_update e"
    by (intro ext, simp add: insertAuditTx_def auditRow_def new_task_def claim_update_def claimed_row_def)+
  show "sq_Update (calm e) = sq_Update e" "sq_UpdateAndAudit (calm e) = sq_UpdateAndAudit e"
    "sq_CreateAndAuditLimited (calm e) = sq_CreateAndAuditLimited e"
    unfolding sq_Update_def sq_UpdateAndAudit_def sq_CreateAndAuditLimited_def ev calm_simps by (rule refl)+
  have "claim_loop k others (calm e) now d = claim_loop k others e now d" for k others now d
    by (induction k arbitrary: d) (simp_all add: ev split: option.split prod.split)
  then show "sq_ClaimDue e now d = (if eLate e then apfst (\<lambda>r. case r of Inr (Some t) \<Rightarrow> Inl DBError | _ \<Rightarrow> r)
     (sq_ClaimDue (calm e) now d) else sq_ClaimDue (calm e) now d)"
    by (simp add: sq_ClaimDue_def calm_def split: prod.split sum.split option.split)
qed

interpretation sql: faulty_store sqlite_ops sq_view sq_keys sq_ok
proof
  fix s :: db and e st assume ok: "sq_ok s"
  show "distinct (map tID (sList sqlite_ops e st s)) \<and> (\<forall>c \<in> set (sList sqlite_ops e st s).
      \<exists>t. sq_view s (tID c) = Some t \<and> (st = [] \<or> state_name (tState t) = st))"
  proof (cases "eFault e")
    case True
    then show ?thesis by (simp add: sq_List_def)
  next
    case False
    from sq_list_ids [OF ok False, of st] show ?thesis unfolding sqlite_ops_simps by auto
  qed
next
  fix s s' :: db and e tid fn r
  assume a: "sq_ok s" "year_ok (eNow e)" "\<forall>t. sq_view s tid = Some t \<longrightarrow> fair_update fn t"
    "sUpdate sqlite_ops e tid fn s = (r, s')"
  show "sq_ok s' \<and> sq_keys s' = sq_keys s \<and> all_or_nothing (sq_view s) (sq_view s') tid fn (eNow e)"
  proof (cases "eFault e \<or> sq_view s tid = None")
    case True
    with a show ?thesis by (cases "eFault e") (simp_all add: sq_Update_def sq_view_def)
  next
    case False
    then obtain t where t: "sq_view s tid = Some t" by blast
    from False a(2) have e: "env_ok (calm e)" by (simp add: calm_ok)
    from sq_update_effect(1) [OF a(1) e t, of fn] a(3,4) t show ?thesis
      by (auto simp: calm_calls all_or_nothing_def)
  qed
next
  fix s s' :: db and e tid fn ev r
  assume a: "sq_ok s" "year_ok (eNow e)" "\<forall>t. sq_view s tid = Some t \<longrightarrow> fair_update fn t"
    "sUpdateAndAudit sqlite_ops e tid fn ev s = (r, s')"
  show "sq_ok s' \<and> sq_keys s' = sq_keys s \<and> all_or_nothing (sq_view s) (sq_view s') tid fn (eNow e)"
  proof (cases "eFault e \<or> sq_view s tid = None")
    case True
    with a show ?thesis by (cases "eFault e") (simp_all add: sq_UpdateAndAudit_def sq_view_def)
  next
    case False
    then obtain t where t: "sq_view s tid = Some t" by blast
    from False a(2) have e: "env_ok (calm e)" by (simp add: calm_ok)
    from sq_update_effect(2) [OF a(1) e t, of fn ev] a(3,4) t show ?thesis
      by (auto simp: calm_calls all_or_nothing_def)
  qed
next
  fix s s' :: db and e now r assume a: "sq_ok s" "year_ok (eNow e)" "sClaimDue sqlite_ops e now s = (r, s')"
  show "sq_ok s' \<and> sq_keys s' = sq_keys s \<and>
    (sq_view s' = sq_view s \<and> (\<forall>c. r \<noteq> Inr (Some c)) \<or>
     (\<exists>tid t t'. sq_view s tid = Some t \<and> (tState t = StatePending \<or> tState t = StateRetryScheduled) \<and>
        tState t' = StateExecuting \<and> sq_view s' = (sq_view s)(tid \<mapsto> t') \<and>
        (\<forall>c. r = Inr (Some c) \<longrightarrow> tID c = tid)))"
  proof (cases "eFault e")
    case True
    with a show ?thesis by (auto simp: sq_ClaimDue_def)
  next
    case False
    with a(2) have e: "env_ok (calm e)" by (simp add: calm_ok)
    obtain q where c: "sClaimDue sqlite_ops (calm e) now s = (Inr q, s')"
      and q: "r = Inr q \<or> r = Inl DBError"
      using sql.claim_total [OF a(1) e, of now] a(3) calm_calls(3) [of e now s] by (auto split: if_splits option.splits)
    show ?thesis
    proof (cases q)
      case None
      with sql.claim_none [OF a(1) e] c q a(1) show ?thesis by auto
    next
      case (Some k)
      from sql.claim_some [OF a(1) e c [unfolded Some]] q Some show ?thesis by (fastforce dest: core_eqD(3))
    qed
  qed
next
  fix s s' :: db and e i ev maxDepth r
  assume a: "sq_ok s" "year_ok (eNow e)" "sq_view s (eID e) = None"
    "sCreateAndAuditLimited sqlite_ops e i ev maxDepth s = (r, s')"
  show "sq_ok s' \<and> sq_keys s' = sq_keys s \<and>
    (sq_view s' = sq_view s \<and> (\<forall>t. r \<noteq> Inr t) \<or>
     int (sDepth sqlite_ops s) < maxDepth \<and> (\<exists>t'. sq_view s' = (sq_view s)(eID e \<mapsto> t') \<and> tState t' = StateAccepted) \<and>
       (\<forall>t. r = Inr t \<longrightarrow> tID t = eID e))"
  proof (cases "eFault e \<or> maxDepth \<le> int (sq_Depth s)")
    case True
    with a show ?thesis by (auto simp: sq_CreateAndAuditLimited_def Let_def split: if_splits)
  next
    case False
    with a(2) have e: "env_ok (calm e)" by (simp add: calm_ok)
    from False have d: "int (sq_Depth s) < maxDepth" by simp
    have n: "sq_view s (eID (calm e)) = None" using a(3) by simp
    obtain d' t t' where c: "sq_CreateAndAuditLimited e i ev maxDepth s = (Inr t, d')" "sq_ok d'"
        "sq_view d' = (sq_view s)(eID e \<mapsto> t')" "sq_keys d' = sq_keys s" "core t = core t'"
        "core t' = core (new_task (calm e) i)"
      using sq_create_effect [OF a(1) e d n, of i ev] by (auto simp: calm_calls)
    from core_eqD(1) [OF c(5)] core_eqD(1) [OF c(6)] have "tID t = eID e" by (simp add: new_task_def)
    moreover have "tState t' = StateAccepted" using core_eqD(3) [OF c(6)] by (simp add: new_task_def)
    ultimately show ?thesis using c a(4) d by auto
  qed
next
  fix s s' :: db and e :: env and rec :: idem_record and r
  assume a: "sq_ok s" "sSaveIdempotency sqlite_ops e rec s = (r, s')"
  show "sq_ok s' \<and> sq_view s' = sq_view s \<and> (sq_keys s' = sq_keys s \<or>
    sq_keys s (iKey rec) = None \<and> (\<exists>b. sq_keys s' = (sq_keys s)(iKey rec \<mapsto> b) \<and> same_binding b rec))"
  proof (cases "eFault e \<or> sq_keys s (iKey rec) \<noteq> None")
    case True
    with a show ?thesis by (auto simp: sq_SaveIdempotency_def sq_keys_def Let_def split: if_splits)
  next
    case False
    with sq_save_effect [OF a(1), of e rec] a(2) show ?thesis by auto
  qed
qed

end
