(* ===== verification/Outbox.thy ===== *)
theory Outbox
  imports Sqlite_Facts Resume
begin

text \<open>
  The audit outbox of the SQLite store (\<open>internal/queue/sqlite.go\<close>): an event is written as JSON in
  the transaction of the state change it records, and \<open>DrainOutbox\<close> moves it to the audit log. The
  first part shows that the JSON of an event decodes to the event, the second that the outbox is a
  queue ordered by time stamp that a drain empties from its head.
\<close>

subsection \<open>Members of an object\<close>

definition stops :: "string \<Rightarrow> bool" where
  "stops t \<longleftrightarrow> (\<exists>t'. t = CHR '','' # t' \<or> t = CHR ''}'' # t')"

text \<open>The text \<open>x\<close> is read as the value \<open>v\<close>, with two steps of fuel per byte.\<close>

definition encodes :: "string \<Rightarrow> goval \<Rightarrow> bool" where
  "encodes x v \<longleftrightarrow>
     (\<forall>n d t. 2 * length x \<le> n \<longrightarrow> d < max_depth \<longrightarrow> stops t \<longrightarrow> pval (Suc n) d (x @ t) = Some (v, t))"

definition put_field :: "string \<times> string \<times> goval \<Rightarrow> goval gomap \<Rightarrow> goval gomap" where
  "put_field f m = AList.update (fst f) (snd (snd f)) m"

definition field_text :: "string \<times> string \<times> goval \<Rightarrow> string" where
  "field_text f = json_field (fst f) (fst (snd f))"

definition field_ok :: "string \<times> string \<times> goval \<Rightarrow> bool" where
  "field_ok f \<longleftrightarrow> utf8_valid (fst f) \<and> encodes (fst (snd f)) (snd (snd f))"

lemma pstr_key:
  assumes "utf8_valid k"
  shows "pstr (Suc (length (json_body k @ quote # t))) (json_body k @ quote # t) = Some (k, t)"
  using json_body_length [OF assms] by (intro pstr_json_body [OF assms]) simp

lemma skip_ws_head: "\<not> json_space c \<Longrightarrow> skip_ws (c # s) = c # s"
  by (simp add: skip_ws_def)

lemma not_space [simp]:
  "\<not> json_space quote" "\<not> json_space (CHR '':'')" "\<not> json_space (CHR '','')" "\<not> json_space (CHR ''}'')"
  "\<not> json_space (CHR ''{'')" "\<not> json_space (CHR ''['')"
  by (simp_all add: json_space_def quote_def)

lemma pmembers_one:
  assumes "field_ok f" and "d < max_depth" and "2 * length (fst (snd f)) \<le> n" and "stops t"
  shows "pmembers (Suc (Suc n)) d m (field_text f @ t) =
    (case t of [] \<Rightarrow> None
     | c # cs \<Rightarrow> if c = CHR '','' then pmembers (Suc n) d (put_field f m) cs
               else if c = CHR ''}'' then Some (put_field f m, cs) else None)"
proof -
  obtain k x v where f: "f = (k, x, v)" by (metis prod_cases3)
  have enc: "pval (Suc n) d (x @ t) = Some (v, t)" "utf8_valid k"
    using assms f by (simp_all add: field_ok_def encodes_def)
  have layout: "field_text f @ t = quote # json_body k @ quote # CHR '':'' # x @ t"
    by (simp add: field_text_def json_field_def json_string_def f)
  have colon: "take 1 (skip_ws (CHR '':'' # x @ t)) = '':''" "drop 1 (skip_ws (CHR '':'' # x @ t)) = x @ t"
    by (simp_all add: skip_ws_head)
  have sk: "skip_ws t = t" using assms(4) by (auto simp: stops_def skip_ws_head)
  show ?thesis
    unfolding layout pmembers.simps(2) [of "Suc n"] skip_ws_head [OF not_space(1)]
    by (simp only: list.case pstr_key [OF enc(2)] option.case prod.case colon enc(1) sk simp_thms
        if_False not_not put_field_def f fst_conv snd_conv)
qed

lemma pmembers_fields:
  assumes "fs \<noteq> []" and "\<forall>f \<in> set fs. field_ok f" and "d < max_depth"
    and "2 * length (str_join (map field_text fs) '','') < n"
  shows "pmembers n d m (str_join (map field_text fs) '','' @ CHR ''}'' # t) = Some (fold put_field fs m, t)"
  using assms
proof (induction fs arbitrary: n m)
  case (Cons f fs)
  have len: "2 * length (fst (snd f)) + 4 \<le> 2 * length (field_text f)"
    by (simp add: field_text_def json_field_def json_string_def)
  show ?case
  proof (cases fs)
    case Nil
    with Cons.prems len obtain k where "n = Suc (Suc k)" "2 * length (fst (snd f)) \<le> k"
      by (cases n; cases "n - 1") auto
    with Cons.prems Nil pmembers_one [of f d k "CHR ''}'' # t" m] show ?thesis by (simp add: stops_def)
  next
    case (Cons g gs)
    have "2 * length (field_text f) + 2 + 2 * length (str_join (map field_text fs) '','') < n"
      using Cons.prems(4) Cons by simp
    with len obtain k where k: "n = Suc (Suc k)" "2 * length (fst (snd f)) \<le> k"
        "2 * length (str_join (map field_text fs) '','') < Suc k"
      by (cases n; cases "n - 1") auto
    let ?t = "CHR '','' # str_join (map field_text fs) '','' @ CHR ''}'' # t"
    have "pmembers n d m (field_text f @ ?t) = pmembers (Suc k) d (put_field f m) (tl ?t)"
      using Cons.prems k pmembers_one [of f d k ?t m] by (simp add: stops_def)
    also have "\<dots> = Some (fold put_field fs (put_field f m), t)"
      using Cons.IH [of "Suc k"] Cons.prems k(3) Cons by simp
    finally show ?thesis using Cons by simp
  qed
qed simp

subsection \<open>Values of an event\<close>

lemma encodes_string: "utf8_valid s \<Longrightarrow> encodes (json_string s) (VStr s)"
  by (simp add: encodes_def pval_string del: pval.simps)

lemma encodes_strings:
  assumes "\<forall>x \<in> set xs. utf8_valid x"
  shows "encodes (marshal_strings xs) (VList (map VStr xs))"
  unfolding encodes_def
proof (intro allI impI)
  fix n d t assume n: "2 * length (marshal_strings xs) \<le> n" "d < max_depth"
  show "pval (Suc n) d (marshal_strings xs @ t) = Some (VList (map VStr xs), t)"
  proof (cases xs)
    case Nil
    then show ?thesis using n(2)
      by (simp add: marshal_strings_def skip_ws_head json_space_def skip_ws_def)
  next
    case (Cons x ys)
    have "length xs < n" using n(1) length_str_join [of xs] by (simp add: marshal_strings_def)
    then have el: "pelems n (Suc d) (str_join (map json_string xs) '','' @ '']'' @ t) = Some (map VStr xs, t)"
      using assms Cons by (intro pelems_strings) simp_all
    have "take 1 (skip_ws (str_join (map json_string xs) '','' @ '']'' @ t)) \<noteq> '']''"
      by (cases ys) (simp_all add: Cons json_string_def skip_ws_def json_space_def quote_def)
    with el n(2) show ?thesis by (simp add: marshal_strings_def skip_ws_head)
  qed
qed

lemma is_digit_char: "n < 10 \<Longrightarrow> is_digit (char_of (48 + n :: nat))"
  by (simp add: is_digit_def)

lemma nat_digits_digits: "\<forall>c \<in> set (nat_digits n). is_digit c"
proof (induction n rule: nat_digits.induct)
  case (1 n)
  then show ?case
    by (subst nat_digits.simps) (auto simp: is_digit_char)
qed

lemma nat_digits_nonempty [simp]: "nat_digits n \<noteq> []"
  by (subst nat_digits.simps) simp

lemma nat_digits_hd: "0 < n \<Longrightarrow> hd (nat_digits n) \<noteq> CHR ''0''"
proof (induction n rule: nat_digits.induct)
  case (1 n)
  show ?case
  proof (cases "n < 10")
    case True
    have "byte (char_of (48 + n)) = 48 + n" using True by simp
    moreover have "byte (CHR ''0'') = 48" by (simp add: byte_def)
    ultimately have "char_of (48 + n) \<noteq> CHR ''0''" using "1.prems" by auto
    then show ?thesis using True by (subst nat_digits.simps) simp
  next
    case False
    with 1 have "hd (nat_digits (n div 10)) \<noteq> CHR ''0''" by simp
    with False show ?thesis by (subst nat_digits.simps) simp
  qed
qed

lemma nat_digits_0: "nat_digits 0 = ''0''"
  by code_simp

lemma digit_val_char: "n < 10 \<Longrightarrow> digit_val (char_of (48 + n :: nat)) = Some (int n)"
  by (simp add: digit_val_def Let_def)

lemma digits_val_nat: "digits_val 0 (nat_digits n) = Some (int n)"
proof (induction n rule: nat_digits.induct)
  case (1 n)
  show ?case
  proof (cases "n < 10")
    case True
    then show ?thesis by (subst nat_digits.simps) (simp add: digit_val_char)
  next
    case False
    with 1 have "digits_val 0 (nat_digits (n div 10)) = Some (int (n div 10))" by blast
    with False show ?thesis
      by (subst nat_digits.simps) (simp add: digits_val_append digit_val_char zdiv_int zmod_int)
  qed
qed

lemma nat_digits_sign:
  "hd (nat_digits n) \<noteq> CHR ''-''" "hd (nat_digits n) \<noteq> CHR ''+''"
proof -
  have "is_digit (hd (nat_digits n))" using nat_digits_digits [of n] by simp
  then show "hd (nat_digits n) \<noteq> CHR ''-''" "hd (nat_digits n) \<noteq> CHR ''+''"
    by (auto simp: is_digit_def byte_def)
qed

lemma atoi_itoa:
  assumes "is64 i"
  shows "atoi (itoa i) = Some i"
proof -
  have cons: "nat_digits n = hd (nat_digits n) # tl (nat_digits n)" for n by simp
  show ?thesis
  proof (cases "i < 0")
    case True
    with assms digits_val_nat [of "nat (- i)"] show ?thesis
      by (simp add: atoi_def itoa_def int64_defs)
  next
    case False
    obtain c cs where c: "nat_digits (nat i) = c # cs" using cons by blast
    with nat_digits_sign [of "nat i"] have "c \<noteq> CHR ''-''" "c \<noteq> CHR ''+''" by simp_all
    with False assms digits_val_nat [of "nat i"] c show ?thesis
      by (simp add: atoi_def itoa_def int64_defs)
  qed
qed

lemma stops_end:
  assumes "stops t"
  shows "num_frac t = Some ([], t)" "num_exp t = Some ([], t)"
    "takeWhile is_digit (ds @ t) = takeWhile is_digit ds" "dropWhile is_digit (ds @ t) = dropWhile is_digit ds @ t"
proof -
  have "\<not> is_digit (hd t)" "t \<noteq> []" using assms by (auto simp: stops_def is_digit_def byte_def)
  then show "takeWhile is_digit (ds @ t) = takeWhile is_digit ds"
    "dropWhile is_digit (ds @ t) = dropWhile is_digit ds @ t"
    by (induction ds) (auto simp: neq_Nil_conv)
qed (use assms in \<open>auto simp: stops_def num_frac_def num_exp_def\<close>)

lemma num_int_digits:
  assumes "stops t"
  shows "num_int (nat_digits n @ t) = Some (nat_digits n, t)"
proof (cases "n = 0")
  case True
  then show ?thesis by (simp add: num_int_def nat_digits_0)
next
  case False
  obtain c cs where c: "nat_digits n = c # cs" by (cases "nat_digits n") simp_all
  with False nat_digits_hd [of n] have "c \<noteq> CHR ''0''" by simp
  moreover have all: "takeWhile is_digit (nat_digits n) = nat_digits n" "dropWhile is_digit (nat_digits n) = []"
    using nat_digits_digits [of n] by (simp_all add: takeWhile_eq_all_conv dropWhile_eq_Nil_conv)
  ultimately show ?thesis
    using stops_end(3,4) [OF assms, of "nat_digits n"] c nat_digits_digits [of n]
    by (simp add: num_int_def)
qed

lemma pnumber_itoa:
  assumes "stops t"
  shows "pnumber (itoa i @ t) = Some (itoa i, t)"
proof (cases "i < 0")
  case True
  with num_int_digits [OF assms] stops_end(1,2) [OF assms] show ?thesis
    by (simp add: pnumber_def itoa_def)
next
  case False
  obtain c cs where c: "nat_digits (nat i) = c # cs" by (cases "nat_digits (nat i)") simp_all
  with nat_digits_sign(1) [of "nat i"] have "c \<noteq> CHR ''-''" by simp
  with False c num_int_digits [OF assms, of "nat i"] stops_end(1,2) [OF assms] show ?thesis
    by (simp add: pnumber_def itoa_def)
qed

lemma encodes_int: "encodes (itoa i) (VNumber (itoa i))"
  unfolding encodes_def
proof (intro allI impI)
  fix n d t assume t: "stops t"
  obtain c cs where c: "itoa i = c # cs" by (cases "itoa i") (simp_all add: itoa_def split: if_splits)
  have "c = CHR ''-'' \<or> is_digit c"
    using c nat_digits_digits [of "nat i"] by (cases "i < 0") (auto simp: itoa_def)
  then have "\<not> json_space c" "c \<noteq> CHR ''{''" "c \<noteq> CHR ''[''" "c \<noteq> quote" "c \<noteq> CHR ''t''"
    "c \<noteq> CHR ''f''" "c \<noteq> CHR ''n''"
    by (auto simp: json_space_def is_digit_def byte_def quote_def)
  moreover have "pnumber (c # cs @ t) = Some (itoa i, t)" using pnumber_itoa [OF t, of i] c by simp
  ultimately show "pval (Suc n) d (itoa i @ t) = Some (VNumber (itoa i), t)"
    by (simp add: c skip_ws_head has_prefix_def)
qed

subsection \<open>The JSON of an event decodes to the event\<close>

definition int_value :: "int \<Rightarrow> goval" where
  "int_value i = VNumber (itoa i)"

definition event_fields :: "audit_event \<Rightarrow> (string \<times> string \<times> goval) list" where
  "event_fields ev =
     [(''ts'', json_string (evTS ev), VStr (evTS ev)),
      (''task_id'', json_string (evTaskID ev), VStr (evTaskID ev)),
      (''verb'', json_string (evVerb ev), VStr (evVerb ev))] @
     (if evTier ev = [] then [] else [(''tier'', json_string (evTier ev), VStr (evTier ev))]) @
     [(''state'', json_string (evState ev), VStr (evState ev))] @
     (if evArgv ev = [] then []
      else [(''argv_redacted'', marshal_strings (evArgv ev), VList (map VStr (evArgv ev)))]) @
     (case evExitCode ev of None \<Rightarrow> [] | Some c \<Rightarrow> [(''exit_code'', itoa c, int_value c)]) @
     (if evLatencyMS ev = 0 then []
      else [(''latency_ms'', itoa (evLatencyMS ev), int_value (evLatencyMS ev))]) @
     (if evAttempt ev = 0 then [] else [(''attempt'', itoa (evAttempt ev), int_value (evAttempt ev))]) @
     (if evError ev = [] then [] else [(''error'', json_string (evError ev), VStr (evError ev))])"

text \<open>An event whose texts are UTF-8 and whose numbers are 64-bit integers.\<close>

definition event_ok :: "audit_event \<Rightarrow> bool" where
  "event_ok ev \<longleftrightarrow>
     utf8_valid (evTS ev) \<and> utf8_valid (evTaskID ev) \<and> utf8_valid (evVerb ev) \<and> utf8_valid (evTier ev) \<and>
     utf8_valid (evState ev) \<and> (\<forall>x \<in> set (evArgv ev). utf8_valid x) \<and> utf8_valid (evError ev) \<and>
     (\<forall>c. evExitCode ev = Some c \<longrightarrow> is64 c) \<and> is64 (evLatencyMS ev) \<and> is64 (evAttempt ev)"

lemma marshal_event_fields:
  "marshal_event ev = ''{'' @ str_join (map field_text (event_fields ev)) '','' @ ''}''"
proof -
  have opt: "map field_text (if c then [] else [f]) = (if c then [] else [field_text f])" for c f by simp
  have opt': "map field_text (case o' of None \<Rightarrow> [] | Some c \<Rightarrow> [(k, itoa c, int_value c)]) =
      (case o' of None \<Rightarrow> [] | Some c \<Rightarrow> [json_field k (itoa c)])" for o' k
    by (cases o') (simp_all add: field_text_def)
  show ?thesis
    unfolding marshal_event_def event_fields_def map_append opt opt'
    by (simp only: list.map field_text_def fst_conv snd_conv)
qed

lemma utf8_ascii: "\<forall>c \<in> set s. byte c < 0x80 \<Longrightarrow> utf8_valid s"
  by (induction s) (simp_all add: lead_def)

lemma event_fields_ok:
  assumes "event_ok ev"
  shows "\<forall>f \<in> set (event_fields ev). field_ok f"
proof -
  have keys: "utf8_valid ''ts''" "utf8_valid ''task_id''" "utf8_valid ''verb''" "utf8_valid ''tier''"
    "utf8_valid ''state''" "utf8_valid ''argv_redacted''" "utf8_valid ''exit_code''"
    "utf8_valid ''latency_ms''" "utf8_valid ''attempt''" "utf8_valid ''error''"
    by (simp_all add: byte_def lead_def)
  show ?thesis
    using assms keys
    by (auto simp: event_fields_def event_ok_def field_ok_def encodes_string encodes_strings encodes_int
        int_value_def simp del: utf8_valid.simps split: option.splits if_splits)
qed

lemma decode_event:
  assumes "event_ok ev"
  shows "json_decode (marshal_event ev) = Some (VMap (fold put_field (event_fields ev) []), [])"
proof -
  let ?body = "str_join (map field_text (event_fields ev)) '',''"
  let ?n = "2 * length (marshal_event ev) + 1"
  have fs: "event_fields ev \<noteq> []" by (simp add: event_fields_def)
  have "2 * length ?body < ?n" by (simp add: marshal_event_fields)
  then have mem: "pmembers ?n 1 [] (?body @ CHR ''}'' # []) = Some (fold put_field (event_fields ev) [], [])"
    using fs event_fields_ok [OF assms] by (intro pmembers_fields) (simp_all add: max_depth_def)
  obtain r where r: "?body = quote # r"
    by (simp add: event_fields_def field_text_def json_field_def json_string_def)
  have open_brace: "take 1 (skip_ws (?body @ ''}'')) \<noteq> ''}''"
    unfolding r append_Cons skip_ws_head [OF not_space(1)] by (simp add: quote_def)
  have "json_decode (marshal_event ev) = pval (Suc ?n) 0 (CHR ''{'' # ?body @ ''}'')"
    by (simp only: json_decode_def marshal_event_fields append.simps) simp
  also have "\<dots> = map_option (apfst VMap) (pmembers ?n (Suc 0) [] (?body @ ''}''))"
    using open_brace by (simp add: skip_ws_head max_depth_def)
  also have "\<dots> = Some (VMap (fold put_field (event_fields ev) []), [])" using mem by simp
  finally show ?thesis .
qed

text \<open>Looking up a member among optional members.\<close>

lemma lookup_put [simp]:
  "map_of (fold put_field [] m) k = map_of m k"
  "map_of (fold put_field (f # fs) m) k = map_of (fold put_field fs (put_field f m)) k"
  "map_of (put_field f m) k = (if k = fst f then Some (snd (snd f)) else map_of m k)"
  by (simp_all add: put_field_def)

lemma fold_opt: "fold put_field (if c then [] else fs) m = (if c then m else fold put_field fs m)"
  by simp

lemma lookup_opt: "map_of (if c then m else m') k = (if c then map_of m k else map_of m' k)"
  by simp

lemma fold_opt_case:
  "fold put_field (case x of None \<Rightarrow> [] | Some c \<Rightarrow> [(k', itoa c, int_value c)]) m =
   (if x = None then m else put_field (k', itoa (the x), int_value (the x)) m)"
  by (cases x) simp_all

lemma event_lookup:
  fixes ev :: audit_event
  defines "m \<equiv> fold put_field (event_fields ev) []"
  shows "map_of m ''ts'' = Some (VStr (evTS ev))" "map_of m ''task_id'' = Some (VStr (evTaskID ev))"
    "map_of m ''verb'' = Some (VStr (evVerb ev))" "map_of m ''state'' = Some (VStr (evState ev))"
    "map_of m ''tier'' = (if evTier ev = [] then None else Some (VStr (evTier ev)))"
    "map_of m ''argv_redacted'' = (if evArgv ev = [] then None else Some (VList (map VStr (evArgv ev))))"
    "map_of m ''exit_code'' = map_option int_value (evExitCode ev)"
    "map_of m ''latency_ms'' = (if evLatencyMS ev = 0 then None else Some (int_value (evLatencyMS ev)))"
    "map_of m ''attempt'' = (if evAttempt ev = 0 then None else Some (int_value (evAttempt ev)))"
    "map_of m ''error'' = (if evError ev = [] then None else Some (VStr (evError ev)))"
  unfolding m_def event_fields_def fold_append o_def fold_opt fold_opt_case
  by (simp_all only: lookup_put lookup_opt fst_conv snd_conv list.inject char.inject simp_thms if_True
      if_False map_of.simps option.map fold_simps) (cases "evExitCode ev"; simp)+

lemma all_some_Some: "all_some (map Some xs) = Some xs"
  by (auto simp: all_some_def o_def)

lemma unmarshal_marshal_event:
  assumes "event_ok ev"
  shows "unmarshal_event (marshal_event ev) = Some ev"
proof -
  let ?m = "fold put_field (event_fields ev) []"
  note look = event_lookup [of ev]
  have texts: "ev_text ?m ''ts'' = Some (evTS ev)" "ev_text ?m ''task_id'' = Some (evTaskID ev)"
    "ev_text ?m ''verb'' = Some (evVerb ev)" "ev_text ?m ''tier'' = Some (evTier ev)"
    "ev_text ?m ''state'' = Some (evState ev)" "ev_text ?m ''error'' = Some (evError ev)"
    unfolding ev_text_def look by simp_all
  have argv: "ev_argv ?m = Some (evArgv ev)"
    unfolding ev_argv_def look by (simp add: o_def all_some_Some)
  have int: "map_option Some (atoi (itoa i)) = Some (Some i)" if "is64 i" for i
    using that by (simp add: atoi_itoa)
  have ints: "is64 (evLatencyMS ev)" "is64 (evAttempt ev)" "\<And>c. evExitCode ev = Some c \<Longrightarrow> is64 c"
    using assms by (simp_all add: event_ok_def)
  have ec: "ev_int ?m ''exit_code'' = Some (evExitCode ev)"
    unfolding ev_int_def look using int ints(3) by (cases "evExitCode ev") (simp_all add: int_value_def)
  have lat: "map_option int_or_zero (ev_int ?m ''latency_ms'') = Some (evLatencyMS ev)"
    "map_option int_or_zero (ev_int ?m ''attempt'') = Some (evAttempt ev)"
    unfolding ev_int_def look using int ints(1,2) by (simp_all add: int_value_def int_or_zero_def)
  then obtain a b where ab: "ev_int ?m ''latency_ms'' = Some a" "int_or_zero a = evLatencyMS ev"
    "ev_int ?m ''attempt'' = Some b" "int_or_zero b = evAttempt ev" by blast
  have "event_of_map ?m = Some ev"
    by (simp add: event_of_map_def texts argv ec ab)
  then show ?thesis
    by (simp add: unmarshal_event_def decode_event [OF assms] skip_ws_def)
qed

subsection \<open>The outbox as a queue\<close>

text \<open>The rows still to be logged, by time stamp.\<close>

definition outbox_queue :: "db \<Rightarrow> outbox_row list" where
  "outbox_queue d = sort_key obTS (filter (\<lambda>r. obWritten r = None) (dbOutbox d))"

text \<open>Ids are distinct and every waiting payload is an event the store wrote.\<close>

definition waiting_ok :: "outbox_row \<Rightarrow> bool" where
  "waiting_ok r \<longleftrightarrow> (\<exists>ev. event_ok ev \<and> stamped ev \<and> obPayload r = marshal_event ev)"

definition outbox_ok :: "db \<Rightarrow> bool" where
  "outbox_ok d \<longleftrightarrow> distinct (map obID (dbOutbox d)) \<and> (\<forall>r \<in> set (outbox_queue d). waiting_ok r)"

text \<open>The event a waiting row holds.\<close>

definition row_event :: "outbox_row \<Rightarrow> audit_event" where
  "row_event r = the (unmarshal_event (obPayload r))"

lemma waiting_event:
  assumes "waiting_ok r"
  shows "unmarshal_event (obPayload r) = Some (row_event r)" "stamped (row_event r)"
    "marshal_event (row_event r) = obPayload r"
  using assms by (auto simp: waiting_ok_def row_event_def unmarshal_marshal_event)

lemma outbox_batch_queue:
  "outbox_batch limit d = take (nat (if limit \<le> 0 then 100 else limit)) (outbox_queue d)"
  by (simp add: outbox_batch_def outbox_queue_def)

lemma mark_ids [simp]: "map obID (dbOutbox (mark_written ts k d)) = map obID (dbOutbox d)"
  by (simp add: mark_written_def)

lemma unwritten_mark:
  "filter (\<lambda>r. obWritten r = None) (dbOutbox (mark_written ts k d)) =
   filter (\<lambda>r. obID r \<noteq> k) (filter (\<lambda>r. obWritten r = None) (dbOutbox d))"
proof -
  have "filter (\<lambda>r. obWritten r = None) (map (\<lambda>r. if obID r = k then r\<lparr>obWritten := Some ts\<rparr> else r) xs) =
      filter (\<lambda>r. obID r \<noteq> k) (filter (\<lambda>r. obWritten r = None) xs)" for xs :: "outbox_row list"
    by (induction xs) simp_all
  then show ?thesis by (simp add: mark_written_def)
qed

lemma queue_ids: "distinct (map obID (dbOutbox d)) \<Longrightarrow> distinct (map obID (outbox_queue d))"
  unfolding outbox_queue_def distinct_map [of obID "sort_key _ _"] distinct_sort set_sort
    distinct_map [of obID, symmetric]
  by (rule distinct_map_filter)

text \<open>Marking the head of the queue removes it.\<close>

lemma queue_mark:
  assumes "distinct (map obID (dbOutbox d))" and "outbox_queue d = r # q"
  shows "outbox_queue (mark_written ts (obID r) d) = q"
proof -
  have "outbox_queue (mark_written ts (obID r) d) = filter (\<lambda>x. obID x \<noteq> obID r) (outbox_queue d)"
    unfolding outbox_queue_def unwritten_mark by (rule filter_sort [symmetric])
  also have "\<dots> = q"
  proof -
    have "obID r \<notin> obID ` set q" using queue_ids [OF assms(1)] assms(2) by simp
    then have "\<forall>x \<in> set q. obID x \<noteq> obID r" by (metis image_eqI)
    then show ?thesis by (simp add: assms(2))
  qed
  finally show ?thesis .
qed

text \<open>How a drain ends: at the end of the batch, at a failing log write, or at a failing UPDATE.\<close>

definition drained ::
  "(nat \<Rightarrow> env) \<Rightarrow> nat \<Rightarrow> outbox_row list \<Rightarrow> nat \<Rightarrow> logger \<Rightarrow> store_error option \<Rightarrow> logger option \<Rightarrow> bool" where
  "drained es k rs j l err lg \<longleftrightarrow>
     j = length rs \<and> err = None \<and> lg = Some (log_all (map row_event rs) l) \<or>
     j < length rs \<and> err = Some LogFailed \<and> eWrite (es (k + j)) \<noteq> Written \<and>
       lg = snd (Log (eWrite (es (k + j))) [] (row_event (rs ! j)) (Some (log_all (map row_event (take j rs)) l))) \<or>
     j < length rs \<and> err = Some DBError \<and> eFault (es (k + j)) \<and>
       lg = Some (log_all (map row_event (take (Suc j) rs)) l)"

lemma log_all_Cons: "log_all (ev # evs) l = log_all evs (the (snd (Log Written [] ev (Some l))))"
  by (simp add: log_all_def)

lemma drained_shift:
  assumes "drained es (Suc k) rs j (the (snd (Log Written [] (row_event r) (Some l)))) err lg"
  shows "drained es k (r # rs) (Suc j) l err lg"
  using assms by (simp add: drained_def log_all_Cons)

lemma Log_stamped:
  assumes "stamped ev" and "logFile l = Some f" and "\<not> MemOnly l"
  shows "Log w ts ev (Some l) = Log w [] ev (Some l)"
    and "fst (Log w ts ev (Some l)) \<longleftrightarrow> w \<noteq> Written"
    and "\<exists>l'. snd (Log Written ts ev (Some l)) = Some l' \<and> logFile l' \<noteq> None \<and> \<not> MemOnly l'"
  using assms by (cases w; simp add: Log_def stamped_def Let_def)+

text \<open>
  The loop on a queue that starts with the batch: \<open>j\<close> rows are delivered, exactly those leave the
  queue.
\<close>

lemma drain_rows_queue:
  assumes "distinct (map obID (dbOutbox d))" and "outbox_queue d = rs @ q"
    and "\<forall>r \<in> set rs. waiting_ok r" and "logFile l \<noteq> None" and "\<not> MemOnly l"
  shows "\<exists>j err lg d'. drain_rows es k rs n (Some l) d = ((n + j, err), d', lg) \<and>
    outbox_queue d' = drop j rs @ q \<and> distinct (map obID (dbOutbox d')) \<and> dbTasks d' = dbTasks d \<and>
    drained es k rs j l err lg"
  using assms
proof (induction rs arbitrary: k n l d)
  case Nil
  then show ?case by (simp add: drained_def log_all_def)
next
  case (Cons r rs)
  let ?e = "es k" and ?ev = "row_event r"
  obtain f where f: "logFile l = Some f" using Cons.prems(4) by blast
  have w: "unmarshal_event (obPayload r) = Some ?ev" "stamped ?ev"
    using waiting_event Cons.prems(3) by simp_all
  note log = Log_stamped [OF w(2) f Cons.prems(5)]
  show ?case
  proof (cases "eWrite ?e = Written")
    case False
    then have "Log (eWrite ?e) (fmtTime (eNow ?e)) ?ev (Some l) =
        (True, snd (Log (eWrite ?e) [] ?ev (Some l)))"
      using log(1,2) by (metis prod.collapse)
    then have "drain_rows es k (r # rs) n (Some l) d =
        ((n, Some LogFailed), d, snd (Log (eWrite ?e) [] ?ev (Some l)))"
      by (simp add: w(1))
    with Cons.prems False show ?thesis
      by (intro exI [of _ 0]) (simp add: drained_def log_all_def)
  next
    case True
    obtain l' where l': "Log Written [] ?ev (Some l) = (False, Some l')" "logFile l' \<noteq> None" "\<not> MemOnly l'"
      using log(2) [of Written "[]"] log(3) [of "[]"] by (metis prod.collapse)
    then have L: "Log (eWrite ?e) (fmtTime (eNow ?e)) ?ev (Some l) = (False, Some l')"
      using log(1) [of Written "fmtTime (eNow ?e)"] True by simp
    show ?thesis
    proof (cases "eFault ?e")
      case fault: True
      with L have "drain_rows es k (r # rs) n (Some l) d = ((n, Some DBError), d, Some l')"
        by (simp add: w(1))
      with Cons.prems fault l'(1) show ?thesis
        by (intro exI [of _ 0]) (simp add: drained_def log_all_def)
    next
      case False
      let ?d = "mark_written (fmtTime (eNow ?e)) (obID r) d"
      have step: "drain_rows es k (r # rs) n (Some l) d = drain_rows es (Suc k) rs (n + 1) (Some l') ?d"
        using L False by (simp add: w(1))
      have "outbox_queue ?d = rs @ q" using queue_mark [OF Cons.prems(1)] Cons.prems(2) by simp
      with Cons.IH [of ?d l' "Suc k" "n + 1"] Cons.prems l' obtain j err lg d' where
        j: "drain_rows es (Suc k) rs (n + 1) (Some l') ?d = ((n + 1 + j, err), d', lg)"
          "outbox_queue d' = drop j rs @ q" "distinct (map obID (dbOutbox d'))" "dbTasks d' = dbTasks ?d"
          "drained es (Suc k) rs j l' err lg" by auto
      from j(5) have "drained es k (r # rs) (Suc j) l err lg" by (intro drained_shift) (simp add: l'(1))
      with step j show ?thesis by (intro exI [of _ "Suc j"] exI [of _ err] exI [of _ lg] exI [of _ d']) simp
    qed
  qed
qed

lemma digit_ascii: "byte (digit i) < 0x80"
proof -
  have "0 \<le> i mod 10" "i mod 10 < 10" by simp_all
  then have "nat (48 + i mod 10) < 0x80" by simp
  then show ?thesis by (simp add: digit_def)
qed

lemma fmtTime_ascii:
  assumes "year_ok t"
  shows "\<forall>c \<in> set (fmtTime t). byte c < 0x80"
proof -
  have pads: "\<forall>c \<in> set (pad2 i). byte c < 0x80" "\<forall>c \<in> set (pad4 i). byte c < 0x80"
    "\<forall>c \<in> set (pad9 i). byte c < 0x80" for i
    by (simp_all add: pad2_def pad4_def pad9_def digit_ascii)
  have frac: "\<forall>c \<in> set (frac_text i). byte c < 0x80" for i
    using pads(3) [of i] by (auto simp: frac_text_def trim_zeros_def byte_def dest!: set_dropWhileD)
  have seps: "\<forall>c \<in> set ''-''. byte c < 0x80" "\<forall>c \<in> set ''T''. byte c < 0x80"
    "\<forall>c \<in> set '':''. byte c < 0x80" "\<forall>c \<in> set ''Z''. byte c < 0x80"
    by (simp_all add: byte_def)
  obtain y m d where ymd: "civil (t div 1000000000 div 86400) = (y, m, d)" by (metis prod_cases3)
  then have "year_text y = pad4 y" using assms by (simp add: year_ok_def year_text_def Let_def)
  then have "fmtTime t = pad4 y @ ''-'' @ pad2 m @ ''-'' @ pad2 d @ ''T'' @
      pad2 (t div 1000000000 mod 86400 div 3600) @ '':'' @ pad2 (t div 1000000000 mod 86400 div 60 mod 60) @
      '':'' @ pad2 (t div 1000000000 mod 86400 mod 60) @ frac_text (t mod 1000000000) @ ''Z''"
    by (simp only: fmtTime_def Let_def ymd prod.case)
  with pads(1,2) frac seps show ?thesis by (simp only: set_append ball_Un) blast
qed

text \<open>A recorded event waits in the queue as itself.\<close>

lemma outbox_ok_insert:
  assumes "outbox_ok d" and "event_ok ev" and "year_ok (eNow e)" and "eRowID e \<notin> obID ` set (dbOutbox d)"
  shows "outbox_ok (insertAuditTx e ev d)"
    and "set (map row_event (outbox_queue (insertAuditTx e ev d))) =
      insert (if evTS ev = [] then ev\<lparr>evTS := fmtTime (eNow e)\<rparr> else ev) (set (map row_event (outbox_queue d)))"
proof -
  let ?ev = "if evTS ev = [] then ev\<lparr>evTS := fmtTime (eNow e)\<rparr> else ev"
  have "\<forall>c \<in> set (fmtTime (eNow e)). byte c < 0x80" by (rule fmtTime_ascii [OF assms(3)])
  then have "utf8_valid (fmtTime (eNow e))" by (rule utf8_ascii)
  then have ok: "event_ok ?ev" using assms(2) by (simp add: event_ok_def)
  have row: "obID (auditRow e ev) = eRowID e" "obPayload (auditRow e ev) = marshal_event ?ev"
    "obWritten (auditRow e ev) = None" by (simp_all add: auditRow_def Let_def)
  have set: "set (outbox_queue (insertAuditTx e ev d)) = insert (auditRow e ev) (set (outbox_queue d))"
    using row(3) by (auto simp: outbox_queue_def insertAuditTx_def)
  have "waiting_ok (auditRow e ev)"
    unfolding waiting_ok_def row(2) using ok by (intro exI [of _ ?ev]) (simp add: stamped_def)
  with assms(1,4) row(1) set show "outbox_ok (insertAuditTx e ev d)"
    by (auto simp: outbox_ok_def insertAuditTx_def)
  have "row_event (auditRow e ev) = ?ev" unfolding row_event_def row(2) by (simp add: unmarshal_marshal_event [OF ok] del: if_split)
  with set show "set (map row_event (outbox_queue (insertAuditTx e ev d))) =
      insert ?ev (set (map row_event (outbox_queue d)))" by simp
qed

text \<open>The lines of waiting rows.\<close>

definition row_lines :: "outbox_row list \<Rightarrow> string" where
  "row_lines rs = concat (map (\<lambda>r. obPayload r @ [CHR 0x0A]) rs)"

lemma log_all_rows:
  assumes "\<forall>r \<in> set rs. waiting_ok r" and "logFile l = Some f" and "\<not> MemOnly l"
  shows "logFile (log_all (map row_event rs) l) = Some (f @ row_lines rs) \<and>
    \<not> MemOnly (log_all (map row_event rs) l)"
proof -
  have st: "\<forall>ev \<in> set (map row_event rs). stamped ev" using assms(1) waiting_event(2) by auto
  have same: "map (\<lambda>ev. marshal_event ev @ [CHR 0x0A]) (map row_event rs) = map (\<lambda>r. obPayload r @ [CHR 0x0A]) rs"
    using assms(1) waiting_event(3) by simp
  have "\<not> MemOnly (log_all evs l)" if "\<forall>ev \<in> set evs. stamped ev" for evs
    using that assms(2,3)
  proof (induction evs arbitrary: l f)
    case (Cons ev evs)
    then show ?case by (simp add: log_all_Cons Log_written)
  qed (simp add: log_all_def)
  with log_all_file [OF st assms(2,3)] st show ?thesis unfolding same row_lines_def by blast
qed

lemma Log_partial:
  assumes "stamped ev" and "logFile l = Some f" and "\<not> MemOnly l" and "w \<noteq> Written"
  shows "\<exists>l' n. snd (Log w [] ev (Some l)) = Some l' \<and>
    logFile l' = Some (f @ take n (marshal_event ev @ [CHR 0x0A]))"
proof (cases w)
  case (WriteFailed n)
  with assms show ?thesis by (auto simp: Log_def stamped_def Let_def)
next
  case SyncFailed
  with assms show ?thesis
    by (simp add: Log_def stamped_def Let_def) (rule exI [of _ "Suc (length (marshal_event ev))"], simp)
qed (use assms in simp)

subsection \<open>Properties\<close>

text \<open>
  C11: Audit events are delivered in order and at least once. Whatever calls fail while the outbox is
  drained, a number \<open>j\<close> of rows leave the queue, exactly the first ones by time stamp, and the log
  file has grown by the lines of those rows, in order, followed by at most a part of the next line:
  no event is lost or reordered, and only the event at the failing position can be logged again by
  the next drain. Without an error the whole batch is delivered.
\<close>

theorem outbox_at_least_once:
  assumes "outbox_ok d" and "logFile l = Some f" and "\<not> MemOnly l" and "\<not> eFault e"
  shows "\<exists>j err lg d' n. drain_batch e es (Some l) limit d = ((j, err), d', lg) \<and> outbox_ok d' \<and>
    j \<le> length (outbox_batch limit d) \<and> outbox_queue d' = drop j (outbox_queue d) \<and>
    dbTasks d' = dbTasks d \<and>
    map_option logFile lg = Some (Some (f @ row_lines (take j (outbox_batch limit d)) @
      take n (row_lines (take 1 (drop j (outbox_batch limit d)))))) \<and>
    (err = None \<longrightarrow> j = length (outbox_batch limit d) \<and> n = 0) \<and>
    (err \<noteq> None \<longrightarrow> j < length (outbox_batch limit d) \<and> (eWrite (es j) \<noteq> Written \<or> eFault (es j)))"
proof -
  let ?k = "nat (if limit \<le> 0 then 100 else limit)" and ?b = "outbox_batch limit d"
  have split: "outbox_queue d = ?b @ drop ?k (outbox_queue d)" by (simp add: outbox_batch_queue)
  have waiting: "\<forall>r \<in> set ?b. waiting_ok r"
    using assms(1) set_take_subset by (force simp: outbox_ok_def outbox_batch_queue)
  have "distinct (map obID (dbOutbox d))" using assms(1) by (simp add: outbox_ok_def)
  from drain_rows_queue [OF this split waiting _ assms(3)] assms(2) obtain j err lg d' where
    r: "drain_rows es 0 ?b 0 (Some l) d = ((0 + j, err), d', lg)"
      "outbox_queue d' = drop j ?b @ drop ?k (outbox_queue d)" "distinct (map obID (dbOutbox d'))"
      "dbTasks d' = dbTasks d" "drained es 0 ?b j l err lg" by blast
  have j: "j \<le> length ?b" using r(5) by (auto simp: drained_def)
  have q: "outbox_queue d' = drop j (outbox_queue d)" using r(2) j by (subst split) simp
  then have ok: "outbox_ok d'"
    using assms(1) r(3) set_drop_subset by (force simp: outbox_ok_def)
  have run: "drain_batch e es (Some l) limit d = ((j, err), d', lg)"
    using r(1) assms(4) by (simp add: drain_batch_def)
  have lines: "logFile (log_all (map row_event (take i ?b)) l) = Some (f @ row_lines (take i ?b))"
    "\<not> MemOnly (log_all (map row_event (take i ?b)) l)" for i
    using log_all_rows [of "take i ?b" l f] waiting assms(2,3) in_set_takeD by metis+
  have one: "row_lines (take 1 (drop j ?b)) = obPayload (?b ! j) @ [CHR 0x0A]" if "j < length ?b"
    using that by (simp add: row_lines_def take_Suc_conv_app_nth hd_drop_conv_nth take_Suc)
  have suc: "row_lines (take (Suc j) ?b) = row_lines (take j ?b) @ row_lines (take 1 (drop j ?b))"
    unfolding row_lines_def by (simp add: take_add [of j 1, simplified])
  from r(5) have "\<exists>n. map_option logFile lg = Some (Some (f @ row_lines (take j ?b) @
      take n (row_lines (take 1 (drop j ?b))))) \<and> (err = None \<longrightarrow> j = length ?b \<and> n = 0) \<and>
    (err \<noteq> None \<longrightarrow> j < length ?b \<and> (eWrite (es j) \<noteq> Written \<or> eFault (es j)))"
    unfolding drained_def
  proof (elim disjE conjE)
    assume a: "j < length ?b" "err = Some LogFailed" "eWrite (es (0 + j)) \<noteq> Written"
      "lg = snd (Log (eWrite (es (0 + j))) [] (row_event (?b ! j)) (Some (log_all (map row_event (take j ?b)) l)))"
    have w: "waiting_ok (?b ! j)" using waiting a(1) by simp
    from Log_partial [OF waiting_event(2) [OF w] lines a(3)] obtain l' n where
      "lg = Some l'" "logFile l' = Some ((f @ row_lines (take j ?b)) @
        take n (marshal_event (row_event (?b ! j)) @ [CHR 0x0A]))" unfolding a(4) by blast
    with waiting_event(3) [OF w] one [OF a(1)] a(1,2) a(3) [unfolded add_0] show ?thesis
      by (intro exI [of _ n]) (simp only: append_assoc option.map option.distinct simp_thms)
  next
    assume "j = length ?b" "err = None" "lg = Some (log_all (map row_event ?b) l)"
    with lines(1) [of j] show ?thesis by (intro exI [of _ 0]) simp
  next
    assume "j < length ?b" "err = Some DBError" "eFault (es (0 + j))" "lg = Some (log_all (map row_event (take (Suc j) ?b)) l)"
    with lines(1) [of "Suc j"] suc show ?thesis
      by (intro exI [of _ "length (row_lines (take 1 (drop j ?b)))"]) simp
  qed
  with run ok j q r(4) show ?thesis by blast
qed

definition sample_outbox :: db where
  "sample_outbox =
     insertAuditTx (clock_env 1 ''x'') (sample_event\<lparr>evTS := []\<rparr>)
       (insertAuditTx (clock_env 0 ''y'') sample_event empty_db)"

definition sample_logger :: logger where
  "sample_logger = \<lparr>logPath = ''audit.log'', logFile = Some [], Mem = [], MemOnly = False\<rparr>"

lemma sample_event_ok: "event_ok sample_event"
  by (simp add: event_ok_def sample_event_def is64_def min64_def max64_def byte_def lead_def)

lemma sample_outbox_ok: "outbox_ok sample_outbox"
proof -
  let ?e = "\<lambda>t x. clock_env t x"
  have e: "eRowID (?e t x) = ''r'' @ x" "eNow (?e t x) = t" for t x by (simp_all add: clock_env_def)
  have "outbox_ok empty_db" by (simp add: outbox_ok_def empty_db_def outbox_queue_def)
  then have one: "outbox_ok (insertAuditTx (?e 0 ''y'') sample_event empty_db)"
    by (rule outbox_ok_insert(1)) (simp_all add: sample_event_ok e year_ok_0 empty_db_def)
  have "event_ok (sample_event\<lparr>evTS := []\<rparr>)" using sample_event_ok by (simp add: event_ok_def)
  moreover have "year_ok (eNow (?e 1 ''x''))" unfolding e by (rule year_ok_range) simp_all
  moreover have "eRowID (?e 1 ''x'') \<notin> obID ` set (dbOutbox (insertAuditTx (?e 0 ''y'') sample_event empty_db))"
    by (simp add: insertAuditTx_def empty_db_def auditRow_def Let_def clock_env_def)
  ultimately show ?thesis unfolding sample_outbox_def by (rule outbox_ok_insert(1) [OF one])
qed

theorem outbox_at_least_once_witness:
  "\<exists>d' lg. drain_batch (clock_env 0 ''e'') (\<lambda>k. clock_env 0 ''e'') (Some sample_logger) 0 sample_outbox =
     ((2, None), d', lg) \<and> outbox_queue d' = []"
proof -
  have l: "logFile sample_logger = Some []" "\<not> MemOnly sample_logger" "\<not> eFault (clock_env 0 ''e'')"
    by (simp_all add: sample_logger_def clock_env_def)
  have two: "length (outbox_queue sample_outbox) = 2" "length (outbox_batch 0 sample_outbox) = 2"
    by (simp_all add: outbox_batch_queue outbox_queue_def sample_outbox_def insertAuditTx_def empty_db_def
        auditRow_def Let_def)
  obtain j err lg d' where r: "drain_batch (clock_env 0 ''e'') (\<lambda>k. clock_env 0 ''e'') (Some sample_logger) 0 sample_outbox =
      ((j, err), d', lg)" "outbox_queue d' = drop j (outbox_queue sample_outbox)"
    "err = None \<longrightarrow> j = length (outbox_batch 0 sample_outbox)"
    "err \<noteq> None \<longrightarrow> eWrite (clock_env 0 ''e'') \<noteq> Written \<or> eFault (clock_env 0 ''e'')"
    using outbox_at_least_once [OF sample_outbox_ok l, of "\<lambda>k. clock_env 0 ''e''" 0] by blast
  then have "err = None" by (auto simp: clock_env_def)
  with r two show ?thesis by simp
qed

end
