(* ===== verification/Time_Order.thy ===== *)
theory Time_Order
  imports Go_Clock
begin

text \<open>
  The order of the time texts: the store compares its RFC 3339 columns as texts. Instants of different
  seconds compare as their texts do; within a second the texts may compare the other way, because
  the formatter drops trailing zeros and \<open>.\<close> sorts before \<open>Z\<close>.
\<close>

definition secs_of :: "time \<Rightarrow> int" where
  "secs_of t = t div 1000000000"

subsection \<open>Texts of equal length\<close>

lemma lex_append:
  fixes xs ys :: string
  assumes "length xs = length ys"
  shows "xs @ u < ys @ v \<longleftrightarrow> xs < ys \<or> xs = ys \<and> u < v"
  using assms by (induction xs ys rule: list_induct2) auto

lemma digit_less: "digit a < digit b \<longleftrightarrow> a mod 10 < b mod 10"
proof -
  have "of_char (digit n) = nat (48 + n mod 10)" for n
  proof -
    have "0 \<le> n mod 10" "n mod 10 < 10" by simp_all
    then have "nat (48 + n mod 10) < 256" by simp
    then show ?thesis by (simp add: digit_def)
  qed
  moreover have "0 < 48 + b mod 10" by (simp add: add_pos_nonneg)
  ultimately show ?thesis by (simp add: less_char_def)
qed

lemma div_less_cases:
  fixes a b k :: int
  assumes "0 < k"
  shows "a < b \<longleftrightarrow> a div k < b div k \<or> a div k = b div k \<and> a mod k < b mod k"
proof (cases "a div k" "b div k" rule: linorder_cases)
  case less
  then show ?thesis using assms zdiv_mono1 [of b a k] by fastforce
next
  case equal
  then have "a = k * (b div k) + a mod k" "b = k * (b div k) + b mod k" by (metis mult_div_mod_eq)+
  then have "a < b \<longleftrightarrow> a mod k < b mod k" by linarith
  with equal show ?thesis by simp
next
  case greater
  then show ?thesis using assms zdiv_mono1 [of a b k] by fastforce
qed

lemma pad2_less:
  assumes "0 \<le> a" "a < b" "b < 100"
  shows "pad2 a < pad2 b"
proof -
  have "[digit (a div 10)] < [digit (b div 10)] \<or> digit (a div 10) = digit (b div 10) \<and> digit a < digit b"
    using assms div_less_cases [of 10 a b] div_less_cases [of 10 "a div 10" "b div 10"]
    by (auto simp: digit_less zdiv_eq_0_iff)
  then show ?thesis by (simp add: pad2_def)
qed

lemma pad4_less:
  assumes "0 \<le> a" "a < b" "b < 10000"
  shows "pad4 a < pad4 b"
proof -
  have split: "pad4 n = pad2 (n div 100) @ pad2 (n mod 100)" if "0 \<le> n" for n
  proof -
    have d3: "n div 1000 = n div 100 div 10" using zdiv_zmult2_eq [of 10 n 100] by simp
    have tens: "x div 10 = q" if "x = 10 * q + r" "0 \<le> r" "r < 10" for x q r :: int
      using that by linarith
    have "n mod 100 = 10 * (n div 10 mod 10) + n mod 10" using zmod_zmult2_eq [of 10 n 10] by simp
    from tens [OF this] have "(n mod 100) div 10 = n div 10 mod 10" by simp
    then have d1: "digit ((n mod 100) div 10) = digit (n div 10)" by (simp only: digit_def mod_mod_trivial)
    have d0: "digit (n mod 100) = digit n" by (simp add: digit_def mod_mod_cancel)
    show ?thesis unfolding pad4_def pad2_def d3 d1 d0 by simp
  qed
  have "0 \<le> a div 100" "b div 100 < 100" using assms by simp_all
  have "a div 100 < b div 100 \<or> a div 100 = b div 100 \<and> a mod 100 < b mod 100"
    using assms(2) div_less_cases [of 100 a b] by simp
  then show ?thesis
  proof
    assume "a div 100 < b div 100"
    with pad2_less [OF \<open>0 \<le> a div 100\<close> _ \<open>b div 100 < 100\<close>] assms show ?thesis
      by (simp add: split lex_append)
  next
    assume "a div 100 = b div 100 \<and> a mod 100 < b mod 100"
    with pad2_less [of "a mod 100" "b mod 100"] assms show ?thesis by (simp add: split lex_append)
  qed
qed

subsection \<open>The calendar is in order\<close>

definition year_start :: "int \<Rightarrow> int" where
  "year_start y = 365 * y + y div 4 - y div 100 + y div 400"

lemma sub_div_mono:
  fixes a b :: int
  assumes "a \<le> b"
  shows "a - a div 4 \<le> b - b div 4" "a - a div 100 \<le> b - b div 100" "a - a div 1460 \<le> b - b div 1460"
  using assms by linarith+

lemma year_start_mono: "a \<le> b \<Longrightarrow> year_start a \<le> year_start b"
  using sub_div_mono(2) [of a b] zdiv_mono1 [of a b 4] zdiv_mono1 [of a b 400]
  by (simp add: year_start_def)

lemma year_of_era_mono:
  assumes "m \<le> n"
  shows "year_of_era m \<le> year_of_era n"
proof -
  have four: "k div 146096 = k div 36524 div 4" for k :: int using zdiv_zmult2_eq [of 4 k 36524] by simp
  have "m div 36524 \<le> n div 36524" using assms by (rule zdiv_mono1) simp
  from sub_div_mono(1) [OF this] sub_div_mono(3) [OF assms]
  have "m - m div 1460 + m div 36524 - m div 146096 \<le> n - n div 1460 + n div 36524 - n div 146096"
    unfolding four by linarith
  then show ?thesis unfolding year_of_era_def by (rule zdiv_mono1) simp
qed

lemma year_of_era_start_list: "list_all (\<lambda>y. y \<le> year_of_era (year_start y)) [0..399]"
  by code_simp

lemma year_of_era_start: "0 \<le> y \<Longrightarrow> y < 400 \<Longrightarrow> y \<le> year_of_era (year_start y)"
  using year_of_era_start_list by (simp add: list_all_iff)

lemma year_of_era_next:
  assumes "0 \<le> doe" and "doe < 146097"
  shows "doe < year_start (year_of_era doe + 1)"
proof (cases "year_of_era doe = 399")
  case True
  have "year_start (399 + 1) = 146097" by (simp add: year_start_def)
  with True assms(2) show ?thesis by simp
next
  case False
  let ?y = "year_of_era doe + 1"
  from False year_of_era_bounds(1,2) [OF assms] have y: "0 \<le> ?y" "?y < 400" by linarith+
  show ?thesis
  proof (rule ccontr)
    assume "\<not> doe < year_start ?y"
    then have "year_of_era (year_start ?y) \<le> year_of_era doe" by (simp add: year_of_era_mono)
    with year_of_era_start [OF y] show False by simp
  qed
qed

text \<open>A day number in years that start in March.\<close>

lemma civil_march:
  assumes "civil days = (y, m, d)"
  obtains Y doy where "days + 719468 = year_start Y + doy" "0 \<le> doy" "doy < year_start (Y + 1) - year_start Y"
    "m = (if (5 * doy + 2) div 153 < 10 then (5 * doy + 2) div 153 + 3 else (5 * doy + 2) div 153 - 9)"
    "d = doy - (153 * ((5 * doy + 2) div 153) + 2) div 5 + 1" "y = Y + (if m \<le> 2 then 1 else 0)"
    "doy \<le> 365"
proof -
  define era where "era = (days + 719468) div 146097"
  define doe where "doe = (days + 719468) mod 146097"
  define yoe where "yoe = year_of_era doe"
  define doy where "doy = doe - (365 * yoe + yoe div 4 - yoe div 100)"
  have doe: "0 \<le> doe" "doe < 146097" by (simp_all add: doe_def)
  note b = year_of_era_bounds [OF doe, folded yoe_def, folded doy_def]
  have eq: "civil days = (yoe + era * 400 +
      (if (if (5 * doy + 2) div 153 < 10 then (5 * doy + 2) div 153 + 3 else (5 * doy + 2) div 153 - 9) \<le> 2
       then 1 else 0),
      if (5 * doy + 2) div 153 < 10 then (5 * doy + 2) div 153 + 3 else (5 * doy + 2) div 153 - 9,
      doy - (153 * ((5 * doy + 2) div 153) + 2) div 5 + 1)"
    unfolding civil_def Let_def era_def doe_def yoe_def doy_def by (rule refl)
  have shift: "year_start (x + era * 400) = year_start x + 146097 * era" for x
  proof -
    have "x + era * 400 = x + 4 * (era * 100)" "x + era * 400 = x + 100 * (era * 4)"
      "x + era * 400 = x + 400 * era" by simp_all
    then have "(x + era * 400) div 4 = x div 4 + era * 100" "(x + era * 400) div 100 = x div 100 + era * 4"
      "(x + era * 400) div 400 = x div 400 + era" by (metis div_mult_self2 zero_neq_numeral add.commute)+
    then show ?thesis by (simp add: year_start_def)
  qed
  have y0: "year_start yoe = 365 * yoe + yoe div 4 - yoe div 100"
    using b(1,2) by (simp add: year_start_def)
  then have doe_eq: "doe = year_start yoe + doy" by (simp add: doy_def)
  have "days + 719468 = 146097 * era + doe" by (simp add: era_def doe_def)
  then have days: "days + 719468 = year_start (yoe + era * 400) + doy" by (simp add: shift doe_eq)
  have "doy < year_start (yoe + 1) - year_start yoe"
    using year_of_era_next [OF doe, folded yoe_def] doe_eq by linarith
  moreover have "year_start (yoe + era * 400 + 1) = year_start (yoe + 1) + 146097 * era"
    using shift [of "yoe + 1"] by (simp add: algebra_simps)
  ultimately have lim: "doy < year_start (yoe + era * 400 + 1) - year_start (yoe + era * 400)"
    by (simp add: shift)
  show thesis
  proof (rule that [OF days _ lim])
    show "0 \<le> doy" "doy \<le> 365" using b(3,4) by (simp_all add: doy_def yoe_def)
    show m: "m = (if (5 * doy + 2) div 153 < 10 then (5 * doy + 2) div 153 + 3 else (5 * doy + 2) div 153 - 9)"
      and "d = doy - (153 * ((5 * doy + 2) div 153) + 2) div 5 + 1"
      using eq unfolding assms prod.inject by blast+
    show "y = yoe + era * 400 + (if m \<le> 2 then 1 else 0)" using eq unfolding assms prod.inject m by blast
  qed
qed

definition date_less :: "int \<times> int \<times> int \<Rightarrow> int \<times> int \<times> int \<Rightarrow> bool" where
  "date_less a b \<longleftrightarrow> fst a < fst b \<or> fst a = fst b \<and>
     (fst (snd a) < fst (snd b) \<or> fst (snd a) = fst (snd b) \<and> snd (snd a) < snd (snd b))"

lemma civil_mono:
  assumes "a < b"
  shows "date_less (civil a) (civil b)"
proof -
  obtain y m d y' m' d' where c: "civil a = (y, m, d)" "civil b = (y', m', d')" by (metis prod_cases3)
  from civil_march [OF c(1)] obtain Y n where A: "a + 719468 = year_start Y + n" "0 \<le> n"
    "n < year_start (Y + 1) - year_start Y"
    "m = (if (5 * n + 2) div 153 < 10 then (5 * n + 2) div 153 + 3 else (5 * n + 2) div 153 - 9)"
    "d = n - (153 * ((5 * n + 2) div 153) + 2) div 5 + 1" "y = Y + (if m \<le> 2 then 1 else 0)" "n \<le> 365" by metis
  from civil_march [OF c(2)] obtain Z k where B: "b + 719468 = year_start Z + k" "0 \<le> k"
    "k < year_start (Z + 1) - year_start Z"
    "m' = (if (5 * k + 2) div 153 < 10 then (5 * k + 2) div 153 + 3 else (5 * k + 2) div 153 - 9)"
    "d' = k - (153 * ((5 * k + 2) div 153) + 2) div 5 + 1" "y' = Z + (if m' \<le> 2 then 1 else 0)" "k \<le> 365" by metis
  define p where "p = (5 * n + 2) div 153"
  define q where "q = (5 * k + 2) div 153"
  have pq: "0 \<le> p" "p \<le> 11" "0 \<le> q" "q \<le> 11" using A(2,7) B(2,7) unfolding p_def q_def by linarith+
  have mm: "m = (if p < 10 then p + 3 else p - 9)" "m' = (if q < 10 then q + 3 else q - 9)"
    using A(4) B(4) by (simp_all add: p_def q_def)
  have "Y \<le> Z"
  proof (rule ccontr)
    assume "\<not> Y \<le> Z"
    then have "year_start (Z + 1) \<le> year_start Y" by (intro year_start_mono) simp
    with A(1,2) B(1,3) assms show False by linarith
  qed
  show ?thesis
  proof (cases "Y = Z")
    case False
    with \<open>Y \<le> Z\<close> A(6) B(6) mm pq show ?thesis unfolding date_less_def c by (auto split: if_splits)
  next
    case True
    then have "year_start Y = year_start Z" by simp
    with A(1) B(1) assms have "n < k" by linarith
    then have "p \<le> q" unfolding p_def q_def by (intro zdiv_mono1) simp_all
    show ?thesis
    proof (cases "p = q")
      case True
      with \<open>Y = Z\<close> A(5,6) B(5,6) mm \<open>n < k\<close> have "y = y'" "m = m'" "d < d'"
        by (simp_all add: p_def [symmetric] q_def [symmetric])
      then show ?thesis unfolding date_less_def c by simp
    next
      case False
      with \<open>p \<le> q\<close> \<open>Y = Z\<close> A(6) B(6) mm pq show ?thesis
        unfolding date_less_def c by (auto split: if_splits)
    qed
  qed
qed

subsection \<open>The texts are in order from second to second\<close>

definition clock_text :: "int \<Rightarrow> string" where
  "clock_text secs =
     (let (y, m, d) = civil (secs div 86400); tod = secs mod 86400
      in pad4 y @ ''-'' @ pad2 m @ ''-'' @ pad2 d @ ''T'' @
         pad2 (tod div 3600) @ '':'' @ pad2 (tod div 60 mod 60) @ '':'' @ pad2 (tod mod 60))"

lemma fmtTime_clock: "year_ok t \<Longrightarrow> fmtTime t = clock_text (secs_of t) @ frac_text (t mod 1000000000) @ ''Z''"
proof -
  assume ok: "year_ok t"
  obtain y m d where ymd: "civil (t div 1000000000 div 86400) = (y, m, d)" by (metis prod_cases3)
  with ok have "year_text y = pad4 y" by (simp add: year_ok_def year_text_def Let_def)
  with ymd show ?thesis by (simp add: fmtTime_def clock_text_def Let_def secs_of_def)
qed

lemma length_clock: "length (clock_text s) = 19"
  by (simp add: clock_text_def Let_def split: prod.split)

lemma lex_sep: "length xs = length ys \<Longrightarrow> xs @ c @ u < ys @ c @ v \<longleftrightarrow> xs < ys \<or> xs = ys \<and> u < v"
  for xs ys c u v :: string
  by (simp add: lex_append)

lemma clock_text_mono:
  assumes "s < s'" and "0 \<le> fst (civil (s div 86400))" and "fst (civil (s' div 86400)) < 10000"
  shows "clock_text s < clock_text s'"
proof -
  obtain y m d y' m' d' where c: "civil (s div 86400) = (y, m, d)" "civil (s' div 86400) = (y', m', d')"
    by (metis prod_cases3)
  define t where "t = s mod 86400"
  define t' where "t' = s' mod 86400"
  have t: "0 \<le> t" "t < 86400" "0 \<le> t'" "t' < 86400" by (simp_all add: t_def t'_def)
  note b = civil_bounds [OF c(1)] civil_bounds [OF c(2)]
  note less = pad4_less [of y y'] pad2_less [of m m'] pad2_less [of d d']
  let ?tod = "\<lambda>t. pad2 (t div 3600) @ '':'' @ pad2 (t div 60 mod 60) @ '':'' @ pad2 (t mod 60)"
  have layout: "clock_text s = pad4 y @ ''-'' @ pad2 m @ ''-'' @ pad2 d @ ''T'' @ ?tod t"
    "clock_text s' = pad4 y' @ ''-'' @ pad2 m' @ ''-'' @ pad2 d' @ ''T'' @ ?tod t'"
    by (simp_all add: clock_text_def c t_def t'_def Let_def)
  consider "date_less (y, m, d) (y', m', d')" | "(y, m, d) = (y', m', d')" "t < t'"
    using assms(1) div_less_cases [of 86400 s s'] civil_mono [of "s div 86400" "s' div 86400"] c
    by (auto simp: t_def t'_def)
  then show ?thesis
  proof cases
    case 1
    then show ?thesis
      unfolding layout using less assms(2,3) b
      by (auto simp: date_less_def lex_sep c simp del: append_Cons append_Nil)
  next
    case 2
    have hour: "t div 3600 = t div 60 div 60" for t :: int using zdiv_zmult2_eq [of 60 t 60] by simp
    have step: "a < b \<longleftrightarrow> a div 60 < b div 60 \<or> a div 60 = b div 60 \<and> a mod 60 < b mod 60" for a b :: int
      by (rule div_less_cases) simp
    have "t div 3600 < t' div 3600 \<or> t div 3600 = t' div 3600 \<and>
        (t div 60 mod 60 < t' div 60 mod 60 \<or> t div 60 mod 60 = t' div 60 mod 60 \<and> t mod 60 < t' mod 60)"
      unfolding hour using 2(2) step [of t t'] step [of "t div 60" "t' div 60"] by metis
    moreover have "0 \<le> t div 3600" "t' div 3600 < 100" using t by auto
    moreover have "0 \<le> t div 60 mod 60" "t' div 60 mod 60 < 100" "0 \<le> t mod 60" "t' mod 60 < 100"
      by (simp_all add: order_less_trans [OF pos_mod_bound])
    ultimately have "pad2 (t div 3600) < pad2 (t' div 3600) \<or> t div 3600 = t' div 3600 \<and>
        (pad2 (t div 60 mod 60) < pad2 (t' div 60 mod 60) \<or>
         t div 60 mod 60 = t' div 60 mod 60 \<and> pad2 (t mod 60) < pad2 (t' mod 60))"
      using pad2_less by metis
    then have "?tod t < ?tod t'"
      by (elim disjE conjE) (simp_all only: lex_sep length_pads simp_thms)
    moreover have "y = y'" "m = m'" "d = d'" using 2(1) by simp_all
    ultimately show ?thesis unfolding layout by (simp only: lex_sep simp_thms)
  qed
qed

text \<open>Different seconds compare as their texts.\<close>

lemma fmtTime_less:
  assumes "year_ok a" and "year_ok b" and "secs_of a < secs_of b"
  shows "fmtTime a < fmtTime b"
proof -
  have "clock_text (secs_of a) < clock_text (secs_of b)"
    using assms by (intro clock_text_mono) (simp_all add: year_ok_def secs_of_def Let_def)
  then show ?thesis by (simp add: fmtTime_clock assms(1,2) lex_append length_clock)
qed

lemma fmtTime_le:
  "year_ok a \<Longrightarrow> year_ok b \<Longrightarrow> fmtTime a \<le> fmtTime b \<Longrightarrow> secs_of a \<le> secs_of b"
  using fmtTime_less [of b a] by (meson not_le)

end
