(* ===== verification/Claim_Order.thy ===== *)
theory Claim_Order
  imports Sqlite_Facts Time_Order Resume
begin

text \<open>
  Which task \<open>SQLite.ClaimDue\<close> takes. The SQL compares \<open>next_run_at\<close> with the clock and orders by
  \<open>created_at\<close> as texts; the schedule is therefore exact to the second only.
\<close>

lemma row_created: "row_ok r \<Longrightarrow> scanTask r = Some t \<Longrightarrow> rwCreatedAt r = fmtTime (tCreatedAt t) \<and> year_ok (tCreatedAt t)"
  using scan_fields(3) [of r t] by (auto simp: row_ok_def time_text_def)

lemma row_next:
  assumes "row_ok r" and "scanTask r = Some t"
  shows "rwNextRunAt r = map_option fmtTime (tNextRunAt t) \<and> (\<forall>n. tNextRunAt t = Some n \<longrightarrow> year_ok n)"
  using assms scan_fields(4) [OF assms(2)]
  by (cases "rwNextRunAt r") (auto simp: row_ok_def time_text_def parseTime_fmtTime)

text \<open>A task due by more than a second is seen as due, a task not due for a second is not.\<close>

definition due_by_second :: "time \<Rightarrow> task \<Rightarrow> bool" where
  "due_by_second now t \<longleftrightarrow>
     tState t = StatePending \<or>
     tState t = StateRetryScheduled \<and> (\<forall>n. tNextRunAt t = Some n \<longrightarrow> secs_of n \<le> secs_of now)"

definition due_for_second :: "time \<Rightarrow> task \<Rightarrow> bool" where
  "due_for_second now t \<longleftrightarrow>
     tState t = StatePending \<or>
     tState t = StateRetryScheduled \<and> (\<forall>n. tNextRunAt t = Some n \<longrightarrow> secs_of n < secs_of now)"

lemma due_row_second:
  assumes "row_ok r" and "scanTask r = Some t" and "year_ok now"
  shows "due_row (fmtTime now) r \<Longrightarrow> due_by_second now t"
    and "due_for_second now t \<Longrightarrow> due_row (fmtTime now) r"
proof -
  note st = scan_state [OF assms(2)] and waits = row_next [OF assms(1,2)]
  show "due_row (fmtTime now) r \<Longrightarrow> due_by_second now t"
    using waits fmtTime_le [OF _ assms(3)] unfolding due_row_def due_by_second_def st
    by (auto simp del: state_name.simps split: option.splits)
  have "fmtTime n \<le> fmtTime now" if "tNextRunAt t = Some n" "secs_of n < secs_of now" for n
    using that waits fmtTime_less [OF _ assms(3)] by (simp add: order_less_imp_le)
  then show "due_for_second now t \<Longrightarrow> due_row (fmtTime now) r"
    using waits unfolding due_row_def due_for_second_def st
    by (auto simp del: state_name.simps split: option.splits)
qed

lemma sq_claim_schedule:
  assumes "sq_ok d" and "env_ok e" and "year_ok now"
  shows "\<exists>r d'. sq_ClaimDue e now d = (Inr r, d') \<and>
    (case r of
       None \<Rightarrow> d' = d \<and> (\<forall>tid t. sq_view d tid = Some t \<longrightarrow> \<not> due_for_second now t)
     | Some c \<Rightarrow>
         (\<exists>t. sq_view d (tID c) = Some t \<and> due_by_second now t \<and>
            sq_view d' = (sq_view d)(tID c \<mapsto> t\<lparr>tState := StateExecuting, tUpdatedAt := eNow e\<rparr>) \<and>
            (\<forall>tid u. sq_view d tid = Some u \<and> due_for_second now u \<longrightarrow>
               secs_of (tCreatedAt t) \<le> secs_of (tCreatedAt u))))"
proof -
  have rows: "\<exists>x \<in> set (dbTasks d). scanTask x = Some u \<and> row_ok x" if "sq_view d tid = Some u" for tid u
    using sq_view_row [OF assms(1) that] by metis
  obtain r d' where c: "sq_ClaimDue e now d = (Inr r, d')"
    using sq_claim_alone [OF assms(1,2), of now] by blast
  show ?thesis
  proof (cases r)
    case None
    with sq_claim_alone [OF assms(1,2), of now] c have "d' = d" "claim_select now d = None" by auto
    then have "\<not> due_for_second now t" if "sq_view d tid = Some t" for tid t
      using rows [OF that] due_row_second(2) [OF _ _ assms(3)] by (auto simp: claim_select_None)
    with c None \<open>d' = d\<close> show ?thesis by (intro exI [of _ r] exI [of _ d']) simp
  next
    case (Some k)
    from sq_claim_some [OF assms(1,2) c [unfolded Some]] obtain x t where
      x: "claim_select now d = Some (tID k)" "find_row (tID k) d = Some x" "due_row (fmtTime now) x"
        "scanTask x = Some t"
        "sq_view d' = (sq_view d)(tID k \<mapsto> t\<lparr>tState := StateExecuting, tUpdatedAt := eNow e\<rparr>)" by blast
    have "x \<in> set (dbTasks d)" using x(2) assms(1) by (simp add: find_row_iff)
    then have ok: "row_ok x" using assms(1) by (simp add: sq_ok_def)
    have view: "sq_view d (tID k) = Some t" using x(2,4) by (simp add: sq_view_def scanOne_def)
    have first: "secs_of (tCreatedAt t) \<le> secs_of (tCreatedAt u)"
      if u: "sq_view d tid = Some u" "due_for_second now u" for tid u
    proof -
      from rows [OF u(1)] obtain y where y: "y \<in> set (dbTasks d)" "scanTask y = Some u" "row_ok y" by blast
      from claim_select_Some [OF x(1)] obtain x' where "x' \<in> set (dbTasks d)" "rwID x' = tID k"
        "\<forall>z \<in> set (dbTasks d). due_row (fmtTime now) z \<longrightarrow> rwCreatedAt x' \<le> rwCreatedAt z" by blast
      moreover have "x' = x" using calculation(1,2) x(2) find_row_iff [OF assms(1)] by (metis option.inject)
      ultimately have "rwCreatedAt x \<le> rwCreatedAt y"
        using y due_row_second(2) [OF y(3,2) assms(3) u(2)] by blast
      then show ?thesis
        using row_created [OF ok x(4)] row_created [OF y(3,2)] fmtTime_le by simp
    qed
    have "due_by_second now t" by (rule due_row_second(1) [OF ok x(4) assms(3) x(3)])
    with c Some view x(5) first show ?thesis by (intro exI [of _ r] exI [of _ d']) auto
  qed
qed

subsection \<open>Properties\<close>

text \<open>
  C18: The SQLite schedule is right to the second, and no better. A claimed task was pending, or a
  scheduled retry whose time lies at most in the current second, and no task that has been due for
  a second was created in an earlier second; when nothing is claimed, nothing is pending and no
  retry has been due for a second. Within a second the text comparison can be wrong: a retry may run
  before its time.
\<close>

theorem sqlite_schedule_to_the_second:
  assumes "sq_ok d" and "env_ok e" and "year_ok now"
  shows "\<exists>r d'. sq_ClaimDue e now d = (Inr r, d') \<and>
    (case r of
       None \<Rightarrow> d' = d \<and> (\<forall>tid t. sq_view d tid = Some t \<longrightarrow> \<not> due_for_second now t)
     | Some c \<Rightarrow>
         (\<exists>t. sq_view d (tID c) = Some t \<and> due_by_second now t \<and>
            sq_view d' = (sq_view d)(tID c \<mapsto> t\<lparr>tState := StateExecuting, tUpdatedAt := eNow e\<rparr>) \<and>
            (\<forall>tid u. sq_view d tid = Some u \<and> due_for_second now u \<longrightarrow>
               secs_of (tCreatedAt t) \<le> secs_of (tCreatedAt u))))"
  using sq_claim_schedule [OF assms] .

definition retry_db :: db where
  "retry_db = empty_db\<lparr>dbTasks :=
     [update_row ((sample_task ''a'' StateRetryScheduled)\<lparr>tNextRunAt := Some 500000000\<rparr>)
        (new_row (sample_task ''a'' StateRetryScheduled))]\<rparr>"

lemma half_second_early: "fmtTime 500000000 < fmtTime 0"
  by code_simp

theorem sqlite_schedule_to_the_second_witness:
  "\<exists>c d' t. sq_ClaimDue (clock_env 0 ''x'') 0 retry_db = (Inr (Some c), d') \<and>
     sq_view retry_db (tID c) = Some t \<and> due_by_second 0 t \<and> \<not> run_due 0 t"
proof -
  let ?t = "(sample_task ''a'' StateRetryScheduled)\<lparr>tNextRunAt := Some 500000000\<rparr>"
  let ?r = "update_row ?t (new_row (sample_task ''a'' StateRetryScheduled))"
  have e: "env_ok (clock_env 0 ''x'')" by (simp add: env_ok_clock year_ok_0)
  have st: "storable ?t" using storable_sample by (simp add: storable_def year_ok_range)
  have ok: "row_ok ?r" by (intro row_ok_update row_ok_new storable_sample st)
  then have db: "sq_ok retry_db" by (simp add: sq_ok_def retry_db_def empty_db_def)
  have due: "due_row (fmtTime 0) ?r"
    using half_second_early
    by (simp add: due_row_def sample_task_def del: state_name.simps)
  then have "claim_select 0 retry_db \<noteq> None" unfolding claim_select_None by (simp add: retry_db_def)
  with sq_claim_alone [OF db e, of 0] obtain c d' where
    c: "sq_ClaimDue (clock_env 0 ''x'') 0 retry_db = (Inr (Some c), d')" by auto
  from sqlite_schedule_to_the_second [OF db e year_ok_0] c obtain t where
    t: "sq_view retry_db (tID c) = Some t" "due_by_second 0 t" by auto
  from sq_view_row [OF db t(1)] obtain x where "x \<in> set (dbTasks retry_db)" "scanTask x = Some t" by metis
  then have "scanTask ?r = Some t" by (simp add: retry_db_def)
  from row_next [OF ok this] have n: "map_option fmtTime (tNextRunAt t) = Some (fmtTime 500000000)"
    "\<forall>n. tNextRunAt t = Some n \<longrightarrow> year_ok n" by simp_all
  then obtain n where "tNextRunAt t = Some n" "fmtTime n = fmtTime 500000000" "year_ok n" by auto
  moreover from this parseTime_fmtTime [of n] parseTime_fmtTime [of 500000000] have "n = 500000000"
    by (simp add: year_ok_range)
  ultimately have "\<not> run_due 0 t" by (simp add: run_due_def)
  with c t show ?thesis by blast
qed

end
