(* ===== verification/Claim_Race.thy ===== *)
theory Claim_Race
  imports Sqlite_Facts Resume
begin

text \<open>
  Several users of one database claiming work (\<open>SQLite.ClaimDue\<close>): each runs the SELECT and the
  conditional UPDATE as two separate statements, and anything may happen in between. The states of
  the claimers and the database form a transition system; a claimer that holds a task may write it
  and let it go, and new tasks arrive.
\<close>

datatype claimer = Idle | Chose string | Holds string

type_synonym race = "db \<times> claimer list"

inductive race_step :: "race \<Rightarrow> race \<Rightarrow> bool" where
  select: "i < length ws \<Longrightarrow> ws ! i = Idle \<Longrightarrow> claim_select now d = Some tid \<Longrightarrow>
     race_step (d, ws) (d, ws[i := Chose tid])"
| win: "i < length ws \<Longrightarrow> ws ! i = Chose tid \<Longrightarrow> env_ok e \<Longrightarrow> claim_update e now tid d = (n, d') \<Longrightarrow>
     n = 1 \<Longrightarrow> race_step (d, ws) (d', ws[i := Holds tid])"
| lose: "i < length ws \<Longrightarrow> ws ! i = Chose tid \<Longrightarrow> env_ok e \<Longrightarrow> claim_update e now tid d = (n, d') \<Longrightarrow>
     n \<noteq> 1 \<Longrightarrow> race_step (d, ws) (d', ws[i := Idle])"
| finish: "i < length ws \<Longrightarrow> ws ! i = Holds tid \<Longrightarrow> env_ok e \<Longrightarrow> sq_view d tid = Some t \<Longrightarrow>
     fair_update fn t \<Longrightarrow> sq_UpdateAndAudit e tid fn ev d = (None, d') \<Longrightarrow>
     race_step (d, ws) (d', ws[i := Idle])"
| arrive: "env_ok e \<Longrightarrow> sq_CreateAndAuditLimited e inp ev maxDepth d = (Inr t, d') \<Longrightarrow>
     race_step (d, ws) (d', ws)"

inductive_cases race_stepE: "race_step (d, ws) s"

abbreviation race_run :: "race \<Rightarrow> race \<Rightarrow> bool" where
  "race_run \<equiv> race_step\<^sup>*\<^sup>*"

text \<open>Held tasks are executing and held by one claimer.\<close>

definition race_ok :: "race \<Rightarrow> bool" where
  "race_ok s \<longleftrightarrow>
     (case s of (d, ws) \<Rightarrow>
        sq_ok d \<and>
        (\<forall>i < length ws. \<forall>tid. ws ! i = Holds tid \<longrightarrow>
           (\<exists>t. sq_view d tid = Some t \<and> tState t = StateExecuting)) \<and>
        (\<forall>i < length ws. \<forall>j < length ws. \<forall>tid. ws ! i = Holds tid \<and> ws ! j = Holds tid \<longrightarrow> i = j))"

lemma race_okI:
  assumes "sq_ok d"
    and "\<forall>i < length ws. \<forall>tid. ws ! i = Holds tid \<longrightarrow>
      (\<exists>t. sq_view d tid = Some t \<and> tState t = StateExecuting)"
    and "\<forall>i < length ws. \<forall>j < length ws. \<forall>tid. ws ! i = Holds tid \<and> ws ! j = Holds tid \<longrightarrow> i = j"
  shows "race_ok (d, ws)"
  unfolding race_ok_def prod.case using assms by blast

lemma executing_not_due:
  "scanTask r = Some t \<Longrightarrow> tState t = StateExecuting \<Longrightarrow> \<not> due_row now r"
  using due_row_states by fastforce

text \<open>The conditional UPDATE never touches an executing task.\<close>

lemma claim_update_race:
  assumes "sq_ok d" and "env_ok e" and "claim_update e now tid d = (n, d')"
  shows "n = 0 \<and> d' = d \<or>
    n = 1 \<and> sq_ok d' \<and> (\<exists>t. sq_view d tid = Some t \<and> tState t \<noteq> StateExecuting \<and>
      sq_view d' = (sq_view d)(tid \<mapsto> t\<lparr>tState := StateExecuting, tUpdatedAt := eNow e\<rparr>))"
proof (cases "find_row tid d")
  case None
  with claim_update_missing assms(3) show ?thesis by simp
next
  case (Some r)
  show ?thesis
  proof (cases "due_row (fmtTime now) r")
    case False
    with claim_update_effect(2) [OF assms(1) Some] assms(3) show ?thesis by simp
  next
    case True
    from claim_update_effect(1) [OF assms(1) Some True assms(2)] obtain d'' t where
      u: "claim_update e now tid d = (1, d'')" "sq_ok d''" "scanTask r = Some t"
        "sq_view d'' = (sq_view d)(tid \<mapsto> t\<lparr>tState := StateExecuting, tUpdatedAt := eNow e\<rparr>)" by blast
    have "sq_view d tid = Some t" using Some u(3) by (simp add: sq_view_def scanOne_def)
    moreover have "tState t \<noteq> StateExecuting" using executing_not_due [OF u(3)] True by blast
    ultimately show ?thesis using u assms(3) by simp
  qed
qed

lemma nth_update_Holds:
  "i < length ws \<Longrightarrow> j < length ws \<Longrightarrow> ws[i := w] ! j = (if j = i then w else ws ! j)"
  by simp

text \<open>Replacing a claimer's state by one that holds nothing keeps the holders apart.\<close>

lemma holders_shrink:
  assumes "i < length ws" and "\<And>tid. w \<noteq> Holds tid"
    and "\<forall>i < length ws. \<forall>tid. ws ! i = Holds tid \<longrightarrow> P tid"
    and "\<forall>i < length ws. \<forall>j < length ws. \<forall>tid. ws ! i = Holds tid \<and> ws ! j = Holds tid \<longrightarrow> i = j"
  shows "\<forall>j < length (ws[i := w]). \<forall>tid. ws[i := w] ! j = Holds tid \<longrightarrow> P tid"
    and "\<forall>j < length (ws[i := w]). \<forall>k < length (ws[i := w]). \<forall>tid.
      ws[i := w] ! j = Holds tid \<and> ws[i := w] ! k = Holds tid \<longrightarrow> j = k"
  using assms by (simp_all add: nth_list_update)

lemma race_ok_step:
  assumes "race_ok (d, ws)" and "race_step (d, ws) s'"
  shows "race_ok s'"
proof -
  have ok: "sq_ok d"
    and ex: "\<forall>i < length ws. \<forall>tid. ws ! i = Holds tid \<longrightarrow>
      (\<exists>t. sq_view d tid = Some t \<and> tState t = StateExecuting)"
    and one: "\<forall>i < length ws. \<forall>j < length ws. \<forall>tid. ws ! i = Holds tid \<and> ws ! j = Holds tid \<longrightarrow> i = j"
    using assms(1) by (simp_all add: race_ok_def)
  show ?thesis
  proof (cases rule: race_stepE [OF assms(2), case_names select win lose finish arrive])
    case (select i now tid)
    have none: "Chose tid \<noteq> Holds k" for k by simp
    show ?thesis unfolding select(1) by (rule race_okI [OF ok holders_shrink [OF select(2) none ex one]])
  next
    case (win i tid e now d')
    from claim_update_race [OF ok win(4,5)] obtain t where
      u: "sq_ok d'" "sq_view d tid = Some t" "tState t \<noteq> StateExecuting"
        "sq_view d' = (sq_view d)(tid \<mapsto> t\<lparr>tState := StateExecuting, tUpdatedAt := eNow e\<rparr>)" by auto
    have free: "ws ! j \<noteq> Holds tid" if "j < length ws" for j
      using ex that u(2,3) by fastforce
    have "\<exists>t. sq_view d' k = Some t \<and> tState t = StateExecuting"
      if "j < length ws" "ws[i := Holds tid] ! j = Holds k" for j k
      using that ex u(4) win(2) by (cases "k = tid") (auto simp: nth_list_update split: if_splits)
    moreover have "j = l" if "j < length ws" "l < length ws" "ws[i := Holds tid] ! j = Holds k"
      "ws[i := Holds tid] ! l = Holds k" for j l k
      using that one free win(2) by (auto simp: nth_list_update split: if_splits)
    ultimately show ?thesis unfolding win(1) by (intro race_okI [OF u(1)]) (simp, metis length_list_update)
  next
    case (lose i tid e now n d')
    from claim_update_race [OF ok lose(4,5)] lose(6) have "d' = d" by auto
    have none: "Idle \<noteq> Holds k" for k by simp
    show ?thesis unfolding lose(1) \<open>d' = d\<close>
      by (rule race_okI [OF ok holders_shrink [OF lose(2) none ex one]])
  next
    case (finish i tid e t fn ev d')
    from sq_update_effect(2) [OF ok finish(4-6), where ev = ev] finish(7) obtain t' where
      u: "sq_ok d'" "sq_view d' = (sq_view d)(tid \<mapsto> t')" by auto
    have "k \<noteq> tid" if "j < length ws" "ws[i := Idle] ! j = Holds k" for j k
      using that one finish(2,3) by (auto simp: nth_list_update split: if_splits)
    with u(2) have "\<exists>t. sq_view d' k = Some t \<and> tState t = StateExecuting"
      if "j < length ws" "ws[i := Idle] ! j = Holds k" for j k
      using that ex finish(2) by (auto simp: nth_list_update split: if_splits)
    moreover have none: "Idle \<noteq> Holds k" for k by simp
    ultimately show ?thesis unfolding finish(1)
      by (intro race_okI [OF u(1)] holders_shrink(2) [OF finish(2) none ex one]) simp
  next
    case (arrive e inp ev maxDepth t d')
    have "int (sq_Depth d) < maxDepth" and ins: "\<exists>d1. insert_task (new_task e inp) d = Some d1"
      using arrive(3) by (auto simp: sq_CreateAndAuditLimited_def Let_def split: if_splits option.splits)
    have "sq_view d (eID e) = None"
      using ins ok by (auto simp: insert_task_def new_task_def sq_view_None split: if_splits)
    with sq_create_effect [OF ok arrive(2) \<open>int (sq_Depth d) < maxDepth\<close>, where i = inp and ev = ev] arrive(3) obtain t' where
      u: "sq_ok d'" "sq_view d' = (sq_view d)(eID e \<mapsto> t')" by auto
    have "\<exists>t. sq_view d' tid = Some t \<and> tState t = StateExecuting"
      if "j < length ws" "ws ! j = Holds tid" for j tid
      using that ex u(2) \<open>sq_view d (eID e) = None\<close> by fastforce
    then show ?thesis unfolding arrive(1) by (intro race_okI [OF u(1) _ one]) blast
  qed
qed

lemma race_ok_run:
  assumes "race_run s s'" and "race_ok s"
  shows "race_ok s'"
  using assms
proof (induction rule: rtranclp_induct)
  case (step y z)
  then show ?case using race_ok_step by (cases y) blast
qed simp

subsection \<open>Properties\<close>

text \<open>
  C5: No task is claimed twice. Under every interleaving of the statements of any number of claimers,
  of finishing claimers and of new tasks, two claimers never hold the same task, and a held task is
  marked executing in the database, so that no other claimer can take it until its holder lets go.
\<close>

theorem no_double_claim:
  assumes "sq_ok d" and "\<forall>w \<in> set ws. w = Idle" and "race_run (d, ws) (d', ws')"
    and "i < length ws'" and "ws' ! i = Holds tid"
  shows "(\<forall>j < length ws'. ws' ! j = Holds tid \<longrightarrow> j = i) \<and>
    (\<exists>t. sq_view d' tid = Some t \<and> tState t = StateExecuting) \<and>
    (\<forall>e now. env_ok e \<longrightarrow> claim_update e now tid d' = (0, d'))"
proof -
  have "race_ok (d, ws)" using assms(1,2) by (auto simp: race_ok_def dest!: nth_mem)
  with race_ok_run [OF assms(3)] have ok: "sq_ok d'"
    and ex: "\<exists>t. sq_view d' tid = Some t \<and> tState t = StateExecuting"
    and one: "\<forall>j < length ws'. ws' ! j = Holds tid \<longrightarrow> j = i"
    using assms(4,5) by (auto simp: race_ok_def)
  have "claim_update e now tid d' = (0, d')" if "env_ok e" for e now
  proof -
    obtain n d'' where u: "claim_update e now tid d' = (n, d'')" by (cases "claim_update e now tid d'")
    from claim_update_race [OF ok that u] ex u show ?thesis by auto
  qed
  with one ex show ?thesis by blast
qed

definition pending_db :: db where
  "pending_db = empty_db\<lparr>dbTasks := [new_row (sample_task ''a'' StatePending)]\<rparr>"

lemma pending_db_ok: "sq_ok pending_db"
  by (simp add: pending_db_def sq_ok_def empty_db_def row_ok_new storable_sample)

lemma pending_db_due:
  "claim_select now pending_db = Some ''a''"
  "find_row ''a'' pending_db = Some (new_row (sample_task ''a'' StatePending))"
  "due_row (fmtTime now) (new_row (sample_task ''a'' StatePending))"
proof -
  have r: "rwID (new_row (sample_task ''a'' StatePending)) = ''a''"
    "rwState (new_row (sample_task ''a'' StatePending)) = state_name StatePending"
    by (simp_all add: sample_task_def new_task_def clock_env_def del: state_name.simps)
  then show due: "due_row (fmtTime now) (new_row (sample_task ''a'' StatePending))" for now
    by (simp add: due_row_def)
  with r show "claim_select now pending_db = Some ''a''"
    "find_row ''a'' pending_db = Some (new_row (sample_task ''a'' StatePending))"
    by (simp_all add: claim_select_def pending_db_def empty_db_def find_row_def)
qed

theorem no_double_claim_witness:
  "\<exists>d'. race_run (pending_db, [Idle, Idle]) (d', [Holds ''a'', Chose ''a'']) \<and>
     claim_update (clock_env 0 ''x'') 0 ''a'' d' = (0, d')"
proof -
  let ?e = "clock_env 0 ''x''"
  have e: "env_ok ?e" by (simp add: env_ok_clock year_ok_0)
  from claim_update_effect(1) [OF pending_db_ok pending_db_due(2,3) e] obtain d' where
    u: "claim_update ?e 0 ''a'' pending_db = (1, d')" by blast
  have "race_step (pending_db, [Idle, Idle]) (pending_db, [Idle, Idle][1 := Chose ''a''])"
    by (rule race_step.select [OF _ _ pending_db_due(1)]) simp_all
  moreover have "race_step (pending_db, [Idle, Chose ''a'']) (pending_db, [Idle, Chose ''a''][0 := Chose ''a''])"
    by (rule race_step.select [OF _ _ pending_db_due(1)]) simp_all
  moreover have "race_step (pending_db, [Chose ''a'', Chose ''a'']) (d', [Chose ''a'', Chose ''a''][0 := Holds ''a''])"
    by (rule race_step.win [OF _ _ e u]) simp_all
  ultimately have run: "race_run (pending_db, [Idle, Idle]) (d', [Holds ''a'', Chose ''a''])"
    by (simp add: converse_rtranclp_into_rtranclp)
  have "\<forall>e now. env_ok e \<longrightarrow> claim_update e now ''a'' d' = (0, d')"
    using no_double_claim [OF pending_db_ok _ run, of 0 "''a''"] by simp
  with run e show ?thesis by blast
qed

end
