(* ===== verification/Store_Spec.thy ===== *)
theory Store_Spec
  imports Claim_Order Worker
begin

text \<open>
  An abstract specification of the task store: a map of tasks (up to \<open>core\<close>) and a map of key
  bindings, no tables, texts, locks or log. A schedule says when a scheduled retry may be claimed, when
  it may no longer be passed over, and which task is the oldest. The memory store keeps the exact
  schedule, the SQLite store the schedule rounded to seconds; with its schedule, each refines the
  specification on every sequence of client calls. What the specification leaves open is which of
  several equally old tasks a claim returns.
\<close>

type_synonym binding = "string \<times> string \<times> string"

record astore =
  asTasks :: "string \<Rightarrow> task option"
  asKeys :: "string \<Rightarrow> binding option"

datatype store_call =
    DoCreate env create_input audit_event int
  | DoUpdate env string "task \<Rightarrow> task" audit_event
  | DoGet env string
  | DoList env string
  | DoDepth
  | DoClaim env time
  | DoFind env string
  | DoSave env idem_record
  | DoRecord env string int time time "int option" string string
  | DoAudit env audit_event
  | DoDrain env "logger option" int

datatype store_reply =
    ATask task
  | AFull
  | AFail
  | ADone
  | AFound "task option"
  | AIds "string set"
  | ACount nat
  | ANothing
  | AKey "binding option"

definition binding_of :: "idem_record \<Rightarrow> binding" where
  "binding_of r = (iVerb r, iHash r, iTaskID r)"

text \<open>The time of the retry against the clock, and the age of a task.\<close>

record schedule =
  scMay :: "time \<Rightarrow> time \<Rightarrow> bool"
  scMust :: "time \<Rightarrow> time \<Rightarrow> bool"
  scAge :: "time \<Rightarrow> int"

definition due_at :: "(time \<Rightarrow> time \<Rightarrow> bool) \<Rightarrow> time \<Rightarrow> task \<Rightarrow> bool" where
  "due_at P now t \<longleftrightarrow>
     tState t = StatePending \<or>
     tState t = StateRetryScheduled \<and> (case tNextRunAt t of None \<Rightarrow> True | Some n \<Rightarrow> P n now)"

definition exact :: schedule where
  "exact = \<lparr>scMay = (\<le>), scMust = (\<le>), scAge = (\<lambda>t. t)\<rparr>"

definition to_the_second :: schedule where
  "to_the_second = \<lparr>scMay = (\<lambda>n now. secs_of n \<le> secs_of now), scMust = (\<lambda>n now. secs_of n < secs_of now),
     scAge = secs_of\<rparr>"

text \<open>A call on a concrete store and what the client observes.\<close>

definition error_reply :: "store_error option \<Rightarrow> store_reply" where
  "error_reply e = (if e = None then ADone else AFail)"

fun run_call :: "'s store_ops \<Rightarrow> store_call \<Rightarrow> 's \<Rightarrow> store_reply \<times> 's" where
  "run_call ops (DoCreate e i ev m) s =
     (case sCreateAndAuditLimited ops e i ev m s of
        (Inr t, s') \<Rightarrow> (ATask (core t), s')
      | (Inl QueueFull, s') \<Rightarrow> (AFull, s')
      | (Inl _, s') \<Rightarrow> (AFail, s'))"
| "run_call ops (DoUpdate e tid fn ev) s = apfst error_reply (sUpdateAndAudit ops e tid fn ev s)"
| "run_call ops (DoGet e tid) s = (AFound (map_option core (sGet ops e tid s)), s)"
| "run_call ops (DoList e st) s = (AIds (set (map tID (sList ops e st s))), s)"
| "run_call ops DoDepth s = (ACount (sDepth ops s), s)"
| "run_call ops (DoClaim e now) s =
     (case sClaimDue ops e now s of
        (Inr (Some t), s') \<Rightarrow> (ATask (core t), s')
      | (Inr None, s') \<Rightarrow> (ANothing, s')
      | (Inl _, s') \<Rightarrow> (AFail, s'))"
| "run_call ops (DoFind e k) s =
     (case sFindIdempotency ops e k s of Inr r \<Rightarrow> AKey (map_option binding_of r) | Inl _ \<Rightarrow> AFail, s)"
| "run_call ops (DoSave e rec) s = apfst error_reply (sSaveIdempotency ops e rec s)"
| "run_call ops (DoRecord e tid n t0 t1 ec oc msg) s =
     (ADone, snd (sRecordAttempt ops e tid n t0 t1 ec oc msg s))"
| "run_call ops (DoAudit e ev) s = (ADone, snd (sAppendAudit ops e ev s))"
| "run_call ops (DoDrain e log lim) s = (ADone, fst (snd (sDrainOutbox ops e log lim s)))"

text \<open>The specification: which reply and which next state a call may have.\<close>

inductive spec_call :: "schedule \<Rightarrow> astore \<Rightarrow> store_call \<Rightarrow> store_reply \<Rightarrow> astore \<Rightarrow> bool" for sc where
  create: "int (card (active_ids (asTasks a))) < m \<Longrightarrow> c = core (new_task e i) \<Longrightarrow>
     spec_call sc a (DoCreate e i ev m) (ATask c) (a\<lparr>asTasks := (asTasks a)(eID e \<mapsto> c)\<rparr>)"
| full: "m \<le> int (card (active_ids (asTasks a))) \<Longrightarrow> spec_call sc a (DoCreate e i ev m) AFull a"
| update: "asTasks a tid = Some t \<Longrightarrow>
     spec_call sc a (DoUpdate e tid fn ev) ADone
       (a\<lparr>asTasks := (asTasks a)(tid \<mapsto> core ((fn t)\<lparr>tUpdatedAt := eNow e\<rparr>))\<rparr>)"
| missing: "asTasks a tid = None \<Longrightarrow> spec_call sc a (DoUpdate e tid fn ev) AFail a"
| get: "spec_call sc a (DoGet e tid) (AFound (asTasks a tid)) a"
| list: "ids = {tid. \<exists>t. asTasks a tid = Some t \<and> (st = [] \<or> state_name (tState t) = st)} \<Longrightarrow>
     spec_call sc a (DoList e st) (AIds ids) a"
| depth: "spec_call sc a DoDepth (ACount (card (active_ids (asTasks a)))) a"
| claim: "asTasks a tid = Some t \<Longrightarrow> due_at (scMay sc) now t \<Longrightarrow>
     \<forall>k u. asTasks a k = Some u \<and> due_at (scMust sc) now u \<longrightarrow> scAge sc (tCreatedAt t) \<le> scAge sc (tCreatedAt u) \<Longrightarrow>
     c = t\<lparr>tState := StateExecuting, tUpdatedAt := eNow e\<rparr> \<Longrightarrow>
     spec_call sc a (DoClaim e now) (ATask c) (a\<lparr>asTasks := (asTasks a)(tid \<mapsto> c)\<rparr>)"
| idle: "\<forall>k u. asTasks a k = Some u \<longrightarrow> \<not> due_at (scMust sc) now u \<Longrightarrow>
     spec_call sc a (DoClaim e now) ANothing a"
| find: "spec_call sc a (DoFind e k) (AKey (asKeys a k)) a"
| save: "asKeys a (iKey rec) = None \<Longrightarrow>
     spec_call sc a (DoSave e rec) ADone (a\<lparr>asKeys := (asKeys a)(iKey rec \<mapsto> binding_of rec)\<rparr>)"
| taken: "asKeys a (iKey rec) \<noteq> None \<Longrightarrow> spec_call sc a (DoSave e rec) AFail a"
| record_attempt: "spec_call sc a (DoRecord e tid n t0 t1 ec oc msg) ADone a"
| audit: "spec_call sc a (DoAudit e ev) ADone a"
| drain: "spec_call sc a (DoDrain e log lim) ADone a"

inductive_simps spec_update_iff: "spec_call sc a (DoUpdate e tid fn ev) r a'"
inductive_simps spec_save_iff: "spec_call sc a (DoSave e rec) r a'"

fun call_env :: "store_call \<Rightarrow> env option" where
  "call_env (DoCreate e i ev m) = Some e"
| "call_env (DoUpdate e tid fn ev) = Some e"
| "call_env (DoGet e tid) = Some e"
| "call_env (DoList e st) = Some e"
| "call_env DoDepth = None"
| "call_env (DoClaim e now) = Some e"
| "call_env (DoFind e k) = Some e"
| "call_env (DoSave e rec) = Some e"
| "call_env (DoRecord e tid n t0 t1 ec oc msg) = Some e"
| "call_env (DoAudit e ev) = Some e"
| "call_env (DoDrain e log lim) = Some e"

text \<open>
  Calls a client may make: the database works, a fresh id is fresh, and a change keeps the identity of
  the task and does not look at the re-encoded fields.
\<close>

fun call_ok :: "astore \<Rightarrow> store_call \<Rightarrow> bool" where
  "call_ok a (DoCreate e i ev m) \<longleftrightarrow> env_ok e \<and> asTasks a (eID e) = None"
| "call_ok a (DoUpdate e tid fn ev) \<longleftrightarrow>
     env_ok e \<and> (\<forall>c t. asTasks a tid = Some c \<longrightarrow> core t = c \<longrightarrow> fair_update fn t \<and> core (fn t) = core (fn c))"
| "call_ok a (DoClaim e now) \<longleftrightarrow> env_ok e \<and> year_ok now"
| "call_ok a c \<longleftrightarrow> (\<forall>e. call_env c = Some e \<longrightarrow> env_ok e)"

definition abs_store :: "('s \<Rightarrow> string \<Rightarrow> task option) \<Rightarrow> ('s \<Rightarrow> string \<Rightarrow> idem_record option) \<Rightarrow> 's \<Rightarrow> astore" where
  "abs_store v k s = \<lparr>asTasks = map_option core \<circ> v s, asKeys = map_option binding_of \<circ> k s\<rparr>"

text \<open>Runs of calls, concrete and specified.\<close>

fun run_calls :: "'s store_ops \<Rightarrow> store_call list \<Rightarrow> 's \<Rightarrow> store_reply list \<times> 's" where
  "run_calls ops [] s = ([], s)"
| "run_calls ops (c # cs) s =
     (case run_call ops c s of (r, s') \<Rightarrow> apfst ((#) r) (run_calls ops cs s'))"

fun calls_ok :: "('s \<Rightarrow> astore) \<Rightarrow> 's store_ops \<Rightarrow> store_call list \<Rightarrow> 's \<Rightarrow> bool" where
  "calls_ok ab ops [] s = True"
| "calls_ok ab ops (c # cs) s = (call_ok (ab s) c \<and> calls_ok ab ops cs (snd (run_call ops c s)))"

inductive spec_run :: "schedule \<Rightarrow> astore \<Rightarrow> store_call list \<Rightarrow> store_reply list \<Rightarrow> astore \<Rightarrow> bool" for sc where
  Nil: "spec_run sc a [] [] a"
| Cons: "spec_call sc a c r a' \<Longrightarrow> spec_run sc a' cs rs a'' \<Longrightarrow> spec_run sc a (c # cs) (r # rs) a''"

subsection \<open>Every store with the contract refines the specification\<close>

lemma due_at_core [simp]: "due_at P now (core t) \<longleftrightarrow> due_at P now t"
  by (simp add: due_at_def)

lemma active_ids_core: "active_ids (map_option core \<circ> v) = active_ids v"
  by (auto simp: active_ids_def)

lemma abs_upd:
  "abs_store v k s' = (abs_store v k s)\<lparr>asTasks := (asTasks (abs_store v k s))(tid \<mapsto> core t)\<rparr>"
  if "v s' = (v s)(tid \<mapsto> t)" and "k s' = k s"
  using that by (auto simp: abs_store_def fun_eq_iff)

lemma abs_same: "v s' = v s \<Longrightarrow> k s' = k s \<Longrightarrow> abs_store v k s' = abs_store v k s"
  by (simp add: abs_store_def)

text \<open>A store with the contract that keeps a schedule.\<close>

locale scheduled_store = task_store ops view keys inv
  for ops :: "'s store_ops" and view :: "'s \<Rightarrow> string \<Rightarrow> task option"
    and keys :: "'s \<Rightarrow> string \<Rightarrow> idem_record option" and inv :: "'s \<Rightarrow> bool" +
  fixes sc :: schedule
  assumes claim_due: "inv s \<Longrightarrow> env_ok e \<Longrightarrow> year_ok now \<Longrightarrow> sClaimDue ops e now s = (Inr (Some c), s') \<Longrightarrow>
      view s (tID c) = Some t \<Longrightarrow> due_at (scMay sc) now t"
    and claim_oldest: "inv s \<Longrightarrow> env_ok e \<Longrightarrow> year_ok now \<Longrightarrow> sClaimDue ops e now s = (Inr (Some c), s') \<Longrightarrow>
      view s (tID c) = Some t \<Longrightarrow> view s k = Some u \<Longrightarrow> due_at (scMust sc) now u \<Longrightarrow>
      scAge sc (tCreatedAt t) \<le> scAge sc (tCreatedAt u)"
    and claim_idle: "inv s \<Longrightarrow> env_ok e \<Longrightarrow> year_ok now \<Longrightarrow> sClaimDue ops e now s = (Inr None, s') \<Longrightarrow>
      view s k = Some u \<Longrightarrow> \<not> due_at (scMust sc) now u"
begin

lemma refine_call:
  assumes "inv s" and "call_ok (abs_store view keys s) c"
  shows "inv (snd (run_call ops c s)) \<and>
    spec_call sc (abs_store view keys s) c (fst (run_call ops c s)) (abs_store view keys (snd (run_call ops c s)))"
proof (cases c)
  case (DoCreate e i ev m)
  have e: "env_ok e" and new: "view s (eID e) = None" using assms(2) by (simp_all add: DoCreate abs_store_def)
  have n: "sDepth ops s = card (active_ids (asTasks (abs_store view keys s)))"
    using depth [OF assms(1)] by (simp add: abs_store_def active_ids_core)
  show ?thesis
  proof (cases "int (sDepth ops s) < m")
    case True
    from create_room [OF assms(1) e True new, of i ev] obtain s' t t' where
      r: "sCreateAndAuditLimited ops e i ev m s = (Inr t, s')" "inv s'" "view s' = (view s)(eID e \<mapsto> t')"
        "keys s' = keys s" "core t' = core (new_task e i)" "core t = core t'" by blast
    have "spec_call sc (abs_store view keys s) c (ATask (core t'))
        ((abs_store view keys s)\<lparr>asTasks := (asTasks (abs_store view keys s))(eID e \<mapsto> core t')\<rparr>)"
      unfolding DoCreate using True n r(5) by (intro spec_call.create) simp_all
    with r show ?thesis by (simp add: DoCreate abs_upd [where v = view, OF r(3,4)])
  next
    case False
    with create_full [OF assms(1) e, of m i ev] n show ?thesis
      using assms(1) spec_call.full [where sc = sc and a = "abs_store view keys s" and m = m] by (simp add: DoCreate)
  qed
next
  case (DoUpdate e tid fn ev)
  show ?thesis
  proof (cases "view s tid")
    case None
    then have "asTasks (abs_store view keys s) tid = None" by (simp add: abs_store_def)
    then have "spec_call sc (abs_store view keys s) (DoUpdate e tid fn ev) AFail (abs_store view keys s)"
      by (rule spec_call.missing)
    moreover obtain err where "sUpdateAndAudit ops e tid fn ev s = (Some err, s)"
      using update_missing [OF assms(1) None, of e fn ev] by (metis option.exhaust prod.collapse)
    ultimately show ?thesis using assms(1) by (simp add: DoUpdate error_reply_def)
  next
    case (Some t)
    have a: "asTasks (abs_store view keys s) tid = Some (core t)" using Some by (simp add: abs_store_def)
    from assms(2) [unfolded DoUpdate call_ok.simps] a
    have e: "env_ok e" and f: "fair_update fn t" "core (fn t) = core (fn (core t))" by blast+
    from update_audit [OF assms(1) e Some f(1), of ev] obtain s' t' where
      r: "sUpdateAndAudit ops e tid fn ev s = (None, s')" "inv s'" "view s' = (view s)(tid \<mapsto> t')"
        "keys s' = keys s" "core t' = core ((fn t)\<lparr>tUpdatedAt := eNow e\<rparr>)" by blast
    have "core t' = core ((fn (core t))\<lparr>tUpdatedAt := eNow e\<rparr>)" using r(5) core_touch [OF f(2)] by simp
    moreover have "asTasks (abs_store view keys s) tid = Some (core t)" using Some by (simp add: abs_store_def)
    ultimately show ?thesis
      using r spec_call.update [where sc = sc and a = "abs_store view keys s" and t = "core t" and tid = tid and e = e and fn = fn and ev = ev]
      by (simp add: DoUpdate error_reply_def abs_upd [where v = view, OF r(3,4)])
  qed
next
  case (DoGet e tid)
  with assms(2) get [OF assms(1), of e tid] spec_call.get [where sc = sc and a = "abs_store view keys s" and e = e and tid = tid] show ?thesis
    using assms(1) by (simp add: abs_store_def)
next
  case (DoList e st)
  with assms(2) list_ids [OF assms(1), of e st] show ?thesis
    using assms(1) by (auto simp: abs_store_def intro!: spec_call.list)
next
  case DoDepth
  with depth [OF assms(1)] spec_call.depth [where sc = sc and a = "abs_store view keys s"] show ?thesis
    using assms(1) by (simp add: abs_store_def active_ids_core)
next
  case (DoClaim e now)
  then have e: "env_ok e" "year_ok now" using assms(2) by simp_all
  from claim_total [OF assms(1) e(1), of now] obtain r s' where c: "sClaimDue ops e now s = (Inr r, s')" by blast
  show ?thesis
  proof (cases r)
    case None
    with claim_none [OF assms(1) e(1)] c have "s' = s" by simp
    with None c assms(1) claim_idle [OF assms(1) e] show ?thesis
      by (auto simp: DoClaim abs_store_def intro!: spec_call.idle)
  next
    case (Some k)
    note c = c [unfolded Some]
    from claim_some [OF assms(1) e(1) c] obtain t t' where
      r: "view s (tID k) = Some t" "tState t = StatePending \<or> tState t = StateRetryScheduled" "inv s'"
        "view s' = (view s)(tID k \<mapsto> t')" "keys s' = keys s"
        "core t' = core (t\<lparr>tState := StateExecuting, tUpdatedAt := eNow e\<rparr>)" "core k = core t'" by blast
    have "core t' = (core t)\<lparr>tState := StateExecuting, tUpdatedAt := eNow e\<rparr>"
      using r(6) by (simp add: core_def)
    moreover have "asTasks (abs_store view keys s) (tID k) = Some (core t)" using r(1) by (simp add: abs_store_def)
    moreover have "due_at (scMay sc) now (core t)" using claim_due [OF assms(1) e c r(1)] by simp
    moreover have "\<forall>k u. asTasks (abs_store view keys s) k = Some u \<and> due_at (scMust sc) now u \<longrightarrow>
        scAge sc (tCreatedAt (core t)) \<le> scAge sc (tCreatedAt u)"
      using claim_oldest [OF assms(1) e c r(1)] by (auto simp: abs_store_def)
    ultimately show ?thesis
      using r(3,7) c Some spec_call.claim [where a = "abs_store view keys s" and tid = "tID k" and t = "core t" and sc = sc and now = now and c = "core t'" and e = e]
      by (simp add: DoClaim abs_upd [where v = view, OF r(4,5)])
  qed
next
  case (DoFind e k)
  with assms(2) have "env_ok e" by simp
  from find_key [OF assms(1) this, of k] obtain r where
    "sFindIdempotency ops e k s = Inr r" "rel_option same_binding r (keys s k)" by blast
  moreover from this(2) have "map_option binding_of r = map_option binding_of (keys s k)"
    by (cases r; cases "keys s k") (simp_all add: same_binding_def binding_of_def)
  ultimately show ?thesis
    using assms(1) spec_call.find [where sc = sc and a = "abs_store view keys s" and e = e and k = k] by (simp add: DoFind abs_store_def)
next
  case (DoSave e rec)
  then have e: "env_ok e" using assms(2) by simp
  show ?thesis
  proof (cases "keys s (iKey rec)")
    case None
    from save_key [OF assms(1) e None] obtain s' r where
      r: "sSaveIdempotency ops e rec s = (None, s')" "inv s'" "view s' = view s"
        "keys s' = (keys s)(iKey rec \<mapsto> r)" "same_binding r rec" by blast
    have "binding_of r = binding_of rec" using r(5) by (simp add: same_binding_def binding_of_def)
    then have "abs_store view keys s' = (abs_store view keys s)
        \<lparr>asKeys := (asKeys (abs_store view keys s))(iKey rec \<mapsto> binding_of rec)\<rparr>"
      using r(3,4) by (auto simp: abs_store_def fun_eq_iff)
    with r(1,2) None show ?thesis
      by (simp add: DoSave error_reply_def spec_save_iff) (simp add: abs_store_def)
  next
    case (Some b)
    then have "asKeys (abs_store view keys s) (iKey rec) \<noteq> None" by (simp add: abs_store_def)
    then have "spec_call sc (abs_store view keys s) (DoSave e rec) AFail (abs_store view keys s)"
      by (rule spec_call.taken)
    moreover from Some save_taken [OF assms(1) e] obtain err where "sSaveIdempotency ops e rec s = (Some err, s)" by blast
    ultimately show ?thesis using assms(1) by (simp add: DoSave error_reply_def)
  qed
next
  case (DoRecord e tid n t0 t1 ec oc msg)
  note r = record_attempt [OF assms(1), of e tid n t0 t1 ec oc msg]
  have "abs_store view keys (snd (run_call ops c s)) = abs_store view keys s"
    using r by (intro abs_same) (simp_all add: DoRecord)
  with r show ?thesis by (simp add: DoRecord spec_call.record_attempt)
next
  case (DoAudit e ev)
  note r = append [OF assms(1), of e ev]
  have "abs_store view keys (snd (run_call ops c s)) = abs_store view keys s"
    using r by (intro abs_same) (simp_all add: DoAudit)
  with r show ?thesis by (simp add: DoAudit spec_call.audit)
next
  case (DoDrain e log lim)
  note r = drain [OF assms(1), of e log lim]
  have "abs_store view keys (snd (run_call ops c s)) = abs_store view keys s"
    using r by (intro abs_same) (simp_all add: DoDrain)
  with r show ?thesis by (simp add: DoDrain spec_call.drain)
qed

lemma refine_run:
  assumes "inv s" and "calls_ok (abs_store view keys) ops cs s" and "run_calls ops cs s = (rs, s')"
  shows "inv s' \<and> spec_run sc (abs_store view keys s) cs rs (abs_store view keys s')"
  using assms
proof (induction cs arbitrary: s rs)
  case Nil
  then show ?case by (simp add: spec_run.Nil)
next
  case (Cons c cs)
  obtain r s1 where r: "run_call ops c s = (r, s1)" by (cases "run_call ops c s")
  from Cons.prems(2) have c: "call_ok (abs_store view keys s) c" "calls_ok (abs_store view keys) ops cs s1"
    by (simp_all add: r)
  obtain rs' where rs: "run_calls ops cs s1 = (rs', s')" "rs = r # rs'"
    using Cons.prems(3) by (cases "run_calls ops cs s1") (auto simp: r)
  from refine_call [OF Cons.prems(1) c(1)] have "inv s1"
    "spec_call sc (abs_store view keys s) c r (abs_store view keys s1)" by (simp_all add: r)
  with Cons.IH [OF _ c(2) rs(1)] rs(2) show ?case by (blast intro: spec_run.Cons)
qed

end

subsection \<open>The schedules of the two stores\<close>

interpretation mem: scheduled_store memory_ops mem_view mem_keys mem_ok exact
proof
  fix s s' :: memory and e now c t assume a: "mem_ok s" "sClaimDue memory_ops e now s = (Inr (Some c), s')"
    "mem_view s (tID c) = Some t"
  then have c: "mem_ClaimDue e now s = (Inr (Some c), s')" by simp
  from mem_claim_some [OF a(1) this] a(3) have t: "due now t" "\<forall>k u. mem_view s k = Some u \<and> due now u \<longrightarrow> \<not> older u t"
    by auto
  from t(1) show "due_at (scMay exact) now t" by (simp add: exact_def due_at_def due_def run_due_def)
  fix k u assume "mem_view s k = Some u" "due_at (scMust exact) now u"
  with t(2) show "scAge exact (tCreatedAt t) \<le> scAge exact (tCreatedAt u)"
    by (fastforce simp: exact_def due_at_def due_def run_due_def older_def)
next
  fix s s' :: memory and e now k u assume "mem_ok s" "sClaimDue memory_ops e now s = (Inr None, s')" "mem_view s k = Some u"
  with mem_claim_none [of s e now s'] show "\<not> due_at (scMust exact) now u"
    by (auto simp: exact_def due_at_def due_def run_due_def)
qed

lemma to_the_second_due:
  "due_at (scMay to_the_second) now t \<longleftrightarrow> due_by_second now t"
  "due_at (scMust to_the_second) now t \<longleftrightarrow> due_for_second now t"
  by (simp_all add: due_at_def to_the_second_def due_by_second_def due_for_second_def split: option.split)

interpretation sql: scheduled_store sqlite_ops sq_view sq_keys sq_ok to_the_second
proof
  fix s s' :: db and e now c t assume a: "sq_ok s" "env_ok e" "year_ok now"
    "sClaimDue sqlite_ops e now s = (Inr (Some c), s')" "sq_view s (tID c) = Some t"
  with sq_claim_schedule [OF a(1-3)] have t: "due_by_second now t"
    "\<forall>k u. sq_view s k = Some u \<and> due_for_second now u \<longrightarrow> secs_of (tCreatedAt t) \<le> secs_of (tCreatedAt u)" by auto
  from t(1) show "due_at (scMay to_the_second) now t" by (simp add: to_the_second_due)
  fix k u assume "sq_view s k = Some u" "due_at (scMust to_the_second) now u"
  with t(2) show "scAge to_the_second (tCreatedAt t) \<le> scAge to_the_second (tCreatedAt u)"
    by (simp add: to_the_second_due to_the_second_def [THEN arg_cong [where f = scAge]])
next
  fix s s' :: db and e now k u assume "sq_ok s" "env_ok e" "year_ok now"
    "sClaimDue sqlite_ops e now s = (Inr None, s')" "sq_view s k = Some u"
  with sq_claim_schedule [of s e now] show "\<not> due_at (scMust to_the_second) now u"
    by (auto simp: to_the_second_due)
qed

subsection \<open>Properties\<close>

text \<open>
  C4: The two stores keep the same promise. On every sequence of calls of a client, both the
  memory store and the SQLite store refine the abstract store: every reply is one the specification
  allows in the state it is in, and the states correspond throughout, tasks up to the fields that are
  stored re-encoded. A claim returns the oldest task that is pending or whose retry time has come, and
  nothing only if there is none: exactly for the memory store, to the second for the SQLite store.
\<close>

theorem stores_refine_spec:
  assumes "mem_ok m" and "calls_ok (abs_store mem_view mem_keys) memory_ops cs m"
    and "sq_ok d" and "calls_ok (abs_store sq_view sq_keys) sqlite_ops cs' d"
  shows "(case run_calls memory_ops cs m of (rs, m') \<Rightarrow>
      mem_ok m' \<and> spec_run exact (abs_store mem_view mem_keys m) cs rs (abs_store mem_view mem_keys m')) \<and>
    (case run_calls sqlite_ops cs' d of (rs, d') \<Rightarrow>
      sq_ok d' \<and> spec_run to_the_second (abs_store sq_view sq_keys d) cs' rs (abs_store sq_view sq_keys d'))"
  using mem.refine_run [OF assms(1,2)] sql.refine_run [OF assms(3,4)] by (simp split: prod.split)

text \<open>
  A run that creates a task, binds a key to it, schedules a retry in twenty seconds, claims too early
  and claims again when the time has come.
\<close>

definition retry_later :: "task \<Rightarrow> task" where
  "retry_later t = t\<lparr>tState := StateRetryScheduled, tNextRunAt := Some (20 * second)\<rparr>"

definition sample_record :: idem_record where
  "sample_record = \<lparr>iKey = ''k'', iVerb = ''torch.set'', iHash = ''h'', iTaskID = ''a'', iCreatedAt = zero_time\<rparr>"

definition sample_calls :: "store_call list" where
  "sample_calls =
     [DoCreate (clock_env 0 ''a'') sample_input sample_event 1,
      DoCreate (clock_env 0 ''b'') sample_input sample_event 1,
      DoSave (clock_env 0 ''x'') sample_record, DoFind (clock_env 0 ''x'') ''k'',
      DoSave (clock_env 0 ''x'') sample_record,
      DoUpdate (clock_env 0 ''x'') ''a'' retry_later sample_event,
      DoClaim (clock_env 0 ''x'') 0, DoClaim (clock_env 0 ''x'') (30 * second), DoGet (clock_env 0 ''x'') ''a'']"

lemma retry_later_ok: "storable t \<Longrightarrow> fair_update retry_later t \<and> core (retry_later t) = core (retry_later (core t))"
  by (simp add: retry_later_def fair_update_def storable_def core_def year_ok_range second_def)

text \<open>Calls that are fine in every state of a store.\<close>

fun steady :: "store_call \<Rightarrow> bool" where
  "steady (DoCreate e i ev m) = False"
| "steady (DoUpdate e tid fn ev) \<longleftrightarrow>
     env_ok e \<and> (\<forall>t. storable t \<longrightarrow> fair_update fn t \<and> core (fn t) = core (fn (core t)))"
| "steady (DoClaim e now) \<longleftrightarrow> env_ok e \<and> year_ok now"
| "steady c \<longleftrightarrow> (\<forall>e. call_env c = Some e \<longrightarrow> env_ok e)"

lemma storable_core: "storable (core t) = storable t"
  by (simp add: storable_def)

context scheduled_store begin

lemma steady_ok:
  assumes "inv s" and "steady c"
  shows "call_ok (abs_store view keys s) c"
proof (cases c)
  case (DoUpdate e tid fn ev)
  have "fair_update fn t \<and> core (fn t) = core (fn (core t))"
    if "asTasks (abs_store view keys s) tid = Some (core t)" for t
  proof -
    from that obtain t0 where t0: "view s tid = Some t0" "core t0 = core t" by (auto simp: abs_store_def)
    from view_id [OF assms(1) t0(1)] t0(2) have "storable t" by (metis storable_core)
    with assms(2) show ?thesis by (simp add: DoUpdate)
  qed
  with assms(2) show ?thesis by (auto simp: DoUpdate)
qed (use assms(2) in auto)

lemma steady_calls: "inv s \<Longrightarrow> list_all steady cs \<Longrightarrow> calls_ok (abs_store view keys) ops cs s"
  by (induction cs arbitrary: s) (use steady_ok refine_call in auto)

lemma create_other:
  assumes "spec_call sc a (DoCreate e i ev m) r a'" and "k \<noteq> eID e"
  shows "asTasks a' k = asTasks a k"
  using assms by (cases rule: spec_call.cases) simp_all

lemma sample_calls_fine:
  assumes "inv s" and "\<forall>k. view s k = None"
  shows "calls_ok (abs_store view keys) ops sample_calls s"
proof -
  have e: "env_ok (clock_env 0 x)" "eID (clock_env 0 x) = x" for x
    by (simp_all add: env_ok_clock year_ok_0) (simp add: clock_env_def)
  let ?ab = "abs_store view keys" and ?c = "\<lambda>x. DoCreate (clock_env 0 x) sample_input sample_event 1"
  let ?s = "snd (run_call ops (?c ''a'') s)"
  have a: "call_ok (?ab s) (?c ''a'')" using assms(2) by (simp add: e abs_store_def)
  note s = refine_call [OF assms(1) a]
  have b: "call_ok (?ab ?s) (?c ''b'')"
    using create_other [OF s [THEN conjunct2], of "''b''"] assms(2) by (simp add: e abs_store_def)
  have "calls_ok ?ab ops (drop 2 sample_calls) (snd (run_call ops (?c ''b'') ?s))"
    by (rule steady_calls) (use refine_call [OF s [THEN conjunct1] b] retry_later_ok in
      \<open>simp_all add: sample_calls_def e year_ok_range second_def\<close>)
  with a b show ?thesis by (simp add: sample_calls_def e del: run_call.simps call_ok.simps)
qed

end

text \<open>The replies that every schedule with these two verdicts allows.\<close>

inductive_simps spec_run_Cons: "spec_run sc a (c # cs) rs a'"
inductive_simps spec_run_Nil: "spec_run sc a [] rs a'"
inductive_simps spec_create_iff: "spec_call sc a (DoCreate e i ev m) r a'"
inductive_simps spec_claim_iff: "spec_call sc a (DoClaim e now) r a'"
inductive_simps spec_find_iff: "spec_call sc a (DoFind e k) r a'"
inductive_simps spec_get_iff: "spec_call sc a (DoGet e k) r a'"

lemmas spec_iffs = spec_run_Cons spec_run_Nil spec_create_iff spec_claim_iff spec_find_iff spec_get_iff
  spec_update_iff spec_save_iff

lemma sample_replies:
  assumes "spec_run sc \<lparr>asTasks = (\<lambda>x. None), asKeys = (\<lambda>x. None)\<rparr> sample_calls rs a'"
    and "\<not> scMay sc (20 * second) 0" and "scMust sc (20 * second) (30 * second)"
  shows "\<exists>t c. tState t = StateAccepted \<and> tState c = StateExecuting \<and> tID c = ''a'' \<and>
    rs = [ATask t, AFull, ADone, AKey (Some (''torch.set'', ''h'', ''a'')), AFail, ADone, ANothing, ATask c, AFound (Some c)]"
proof -
  let ?t = "core (new_task (clock_env 0 ''a'') sample_input)"
  have act: "active_ids (\<lambda>x. None) = {}" "active_state (tState t) \<Longrightarrow> active_ids [''a'' \<mapsto> t] = {''a''}" for t
    by (auto simp: active_ids_def)
  have t: "tState ?t = StateAccepted" "tID ?t = ''a''" by (simp_all add: new_task_def clock_env_def)
  have id: "eID (clock_env 0 x) = x" for x by (simp add: clock_env_def)
  let ?u = "core ((retry_later ?t)\<lparr>tUpdatedAt := 0\<rparr>)"
  have u: "tState ?u = StateRetryScheduled" "tNextRunAt ?u = Some (20 * second)" "tID ?u = ''a''"
    using t(2) by (simp_all add: retry_later_def)
  have due: "\<not> due_at (scMay sc) 0 ?u" "due_at (scMust sc) (30 * second) ?u"
    using u assms(2,3) by (simp_all add: due_at_def)
  have now: "eNow (clock_env 0 x) = 0" for x by (simp add: clock_env_def)
  from assms(1) t act show ?thesis
    unfolding sample_calls_def spec_iffs id now
    by (simp add: spec_iffs id now sample_record_def binding_of_def del: core_fields)
      (use due t u in \<open>auto split: if_splits\<close>)
qed

theorem stores_refine_spec_witness:
  "\<exists>t c. fst (run_calls sqlite_ops sample_calls empty_db) =
      [ATask t, AFull, ADone, AKey (Some (''torch.set'', ''h'', ''a'')), AFail, ADone, ANothing, ATask c, AFound (Some c)] \<and>
    tState t = StateAccepted \<and> tState c = StateExecuting \<and>
    (\<exists>t c. fst (run_calls memory_ops sample_calls NewMemory) =
      [ATask t, AFull, ADone, AKey (Some (''torch.set'', ''h'', ''a'')), AFail, ADone, ANothing, ATask c, AFound (Some c)] \<and>
      tState t = StateAccepted \<and> tState c = StateExecuting)"
proof -
  have "abs_store sq_view sq_keys empty_db = \<lparr>asTasks = (\<lambda>x. None), asKeys = (\<lambda>x. None)\<rparr>"
    "abs_store mem_view mem_keys NewMemory = \<lparr>asTasks = (\<lambda>x. None), asKeys = (\<lambda>x. None)\<rparr>"
    and none: "\<forall>k. sq_view empty_db k = None" "\<forall>k. mem_view NewMemory k = None"
    by (simp_all add: abs_store_def sq_view_def sq_keys_def scanOne_def find_row_def find_idem_def empty_db_def
        mem_view_def mem_keys_def NewMemory_def fun_eq_iff)
  with stores_refine_spec [OF mem_ok_New mem.sample_calls_fine [OF mem_ok_New none(2)]
      sq_ok_empty sql.sample_calls_fine [OF sq_ok_empty none(1)]]
  have "spec_run exact \<lparr>asTasks = (\<lambda>x. None), asKeys = (\<lambda>x. None)\<rparr> sample_calls
      (fst (run_calls memory_ops sample_calls NewMemory)) (abs_store mem_view mem_keys (snd (run_calls memory_ops sample_calls NewMemory)))"
    "spec_run to_the_second \<lparr>asTasks = (\<lambda>x. None), asKeys = (\<lambda>x. None)\<rparr> sample_calls
      (fst (run_calls sqlite_ops sample_calls empty_db)) (abs_store sq_view sq_keys (snd (run_calls sqlite_ops sample_calls empty_db)))"
    by (simp_all split: prod.splits)
  note runs = this
  have "\<not> scMay exact (20 * second) 0" "scMust exact (20 * second) (30 * second)"
    "\<not> scMay to_the_second (20 * second) 0" "scMust to_the_second (20 * second) (30 * second)"
    by (simp_all add: exact_def to_the_second_def secs_of_def second_def)
  with sample_replies [OF runs(1)] sample_replies [OF runs(2)] show ?thesis by blast
qed

end
