(* ===== verification/Daemon.thy ===== *)
theory Daemon
  imports Api_Facts Sqlite_Facts
begin

text \<open>
  \<open>cmd/dispatcher/main.go\<close>: the start of the daemon. Flags are parsed, the catalog, the token, the
  audit log and the database are opened in this order, interrupted work is resumed, and the server
  and the worker are built around one store, one audit log and one set of breakers. The answers of the
  operating system are the record \<open>machine\<close>; what is printed is not modelled. The last part is the
  check of the listen address in \<open>ListenAndServe\<close> (\<open>internal/api/server.go\<close>).
\<close>

definition Version :: string where
  "Version = ''0.9.0''"

record cli_flags =
  flVersion :: bool
  flCatalog :: string
  flValidate :: bool
  flToken :: string
  flDataDir :: string
  flAudit :: string
  flDb :: string
  flSync :: bool

record machine =
  mcBesideExe :: "string option"
  mcIsFile :: "string \<Rightarrow> bool"
  mcReadFile :: "string \<Rightarrow> string option"
  mcDecode :: "catalog_file \<Rightarrow> string \<Rightarrow> string + catalog_file"
  mcNodes :: "string \<Rightarrow> ynode option"
  mcRemarshal :: "watch_any \<Rightarrow> string + watch"
  mcFaults :: os_faults
  mcRandom :: string
  mcDisk :: "filedata gomap"
  mcAuditMkdirFault :: bool
  mcAuditDir :: string
  mcAuditOpenFault :: bool
  mcAuditFile :: "string \<Rightarrow> string"
  mcDbDirFault :: bool
  mcDbFault :: bool
  mcJournalMode :: string
  mcSynchronous :: int
  mcDb :: "string \<Rightarrow> db"
  mcStore :: "nat \<Rightarrow> nat \<Rightarrow> env"
  mcNow :: time

subsection \<open>Paths\<close>

text \<open>\<open>filepath.IsAbs\<close> and \<open>filepath.Join\<close> of two elements, which cleans the result.\<close>

definition IsAbs :: "string \<Rightarrow> bool" where
  "IsAbs p = has_prefix p ''/''"

definition clean_step :: "bool \<Rightarrow> string list \<Rightarrow> string \<Rightarrow> string list" where
  "clean_step rooted acc p =
     (if p = [] \<or> p = ''.'' then acc
      else if p = ''..'' then
        (if acc \<noteq> [] \<and> last acc \<noteq> ''..'' then butlast acc else if rooted then acc else acc @ [p])
      else acc @ [p])"

definition path_clean :: "string \<Rightarrow> string" where
  "path_clean s =
     (let rooted = IsAbs s;
          out = str_join (foldl (clean_step rooted) [] (split_byte (CHR ''/'') s)) ''/''
      in if rooted then ''/'' @ out else if out = [] then ''.'' else out)"

definition path_join :: "string \<Rightarrow> string \<Rightarrow> string" where
  "path_join a b =
     (let xs = filter (\<lambda>x. x \<noteq> []) [a, b] in if xs = [] then [] else path_clean (str_join xs ''/''))"

subsection \<open>The start\<close>

record 's running =
  rnServer :: "'s server"
  rnWorker :: worker
  rnNotifier :: notifier

datatype 's start = Exit int | Serve "'s running"

text \<open>The objects built around an opened store.\<close>

definition build :: "bool \<Rightarrow> time \<Rightarrow> catalog \<Rightarrow> token \<Rightarrow> logger option \<Rightarrow> resume_stats \<Rightarrow> 's \<Rightarrow> 's running" where
  "build syncExec now cat tok alog st s =
     \<lparr>rnServer = (New_server now cat (Some tok) s)
        \<lparr>svVersion := Version, svAudit := alog, svSyncExec := syncExec,
         svCircuits := Some (NewRegistry (CBTripThreshold (cDaemon cat)) (seconds (CBOpenS (cDaemon cat)))),
         svResume := st,
         svStreams := Some (NewStreamRegistry (StreamBufferDefault (cDaemon cat)))\<rparr>,
      rnWorker = \<lparr>wCatalog = cat, wBackoffBase = f64_seconds (BackoffBaseS (cDaemon cat)),
                  wMaxJitter = 250 * millisecond\<rparr>,
      rnNotifier = Termux\<rparr>"

text \<open>From the opened catalog on; the second and third result are the files and the database left.\<close>

definition start_daemon ::
  "cli_flags \<Rightarrow> machine \<Rightarrow> catalog \<Rightarrow> db start \<times> filedata gomap \<times> db option" where
  "start_daemon fl mc cat =
     (let tokFile = (if IsAbs (flToken fl) then flToken fl else path_join (flDataDir fl) (flToken fl));
          aPath = (if flAudit fl = [] then path_join (path_join (flDataDir fl) ''logs'') ''audit.log'' else flAudit fl);
          dPath = (if flDb fl = [] then path_join (path_join (flDataDir fl) ''data'') ''tasks.db'' else flDb fl)
      in case LoadOrCreate (mcFaults mc) (mcRandom mc) tokFile (mcDisk mc) of
           (Inl err, disk) \<Rightarrow> (Exit 1, disk, None)
         | (Inr tok, disk) \<Rightarrow>
             (case Open_log (mcAuditMkdirFault mc) (mcAuditDir mc) (mcAuditOpenFault mc) aPath
                     (mcAuditFile mc aPath) of
                None \<Rightarrow> (Exit 1, disk, None)
              | Some alog \<Rightarrow>
                  if mcDbDirFault mc then (Exit 1, disk, None)
                  else (case OpenSQLite (mcDbFault mc) (mcJournalMode mc) (mcSynchronous mc) (mcDb mc dPath) of
                          None \<Rightarrow> (Exit 1, disk, None)
                        | Some d \<Rightarrow>
                            (case Resume sqlite_ops (mcStore mc) (mcNow mc) d of
                               ((st, Some err), d) \<Rightarrow> (Exit 1, disk, Some d)
                             | ((st, None), d) \<Rightarrow>
                                 (Serve (build (flSync fl) (mcNow mc) cat tok (Some alog) st d), disk, Some d)))))"

text \<open>\<open>run\<close>; \<open>None\<close> for the flags: they do not parse.\<close>

definition run_daemon ::
  "cli_flags option \<Rightarrow> machine \<Rightarrow> db start \<times> filedata gomap \<times> db option" where
  "run_daemon fl mc =
     (case fl of
        None \<Rightarrow> (Exit 2, mcDisk mc, None)
      | Some fl \<Rightarrow>
          if flVersion fl then (Exit 0, mcDisk mc, None)
          else (case ResolvePath (mcBesideExe mc) (mcIsFile mc) (flCatalog fl) of
                  None \<Rightarrow> (Exit 1, mcDisk mc, None)
                | Some path \<Rightarrow>
                    (case Load (mcReadFile mc) (mcDecode mc) (mcNodes mc) (mcRemarshal mc) path of
                       Inl err \<Rightarrow> (Exit 1, mcDisk mc, None)
                     | Inr cat \<Rightarrow>
                         if flValidate fl then (Exit 0, mcDisk mc, None) else start_daemon fl mc cat)))"

subsection \<open>The listen address\<close>

text \<open>\<open>net.SplitHostPort\<close>\<close>

definition last_index :: "string \<Rightarrow> char \<Rightarrow> nat option" where
  "last_index s c = map_option (\<lambda>i. length s - 1 - i) (index_byte (rev s) c)"

definition SplitHostPort :: "string \<Rightarrow> (string \<times> string) option" where
  "SplitHostPort hp =
     (case last_index hp (CHR '':'') of
        None \<Rightarrow> None
      | Some i \<Rightarrow>
          if has_prefix hp ''['' then
            (case index_byte hp (CHR '']'') of
               None \<Rightarrow> None
             | Some k \<Rightarrow>
                 if k + 1 \<noteq> i \<or> CHR ''['' \<in> set (drop 1 hp) \<or> CHR '']'' \<in> set (drop (k + 1) hp) then None
                 else Some (take (k - 1) (drop 1 hp), drop (i + 1) hp))
          else if CHR '':'' \<in> set (take i hp) \<or> CHR ''['' \<in> set hp \<or> CHR '']'' \<in> set hp then None
          else Some (take i hp, drop (i + 1) hp))"

text \<open>
  The checks of \<open>ListenAndServe\<close> before the socket is opened: the host and port to bind.
  \<open>lookup\<close> says for each address a name resolves to whether it is a loopback address.
\<close>

definition listen_target :: "(string \<Rightarrow> bool list option) \<Rightarrow> string \<Rightarrow> (string \<times> string) option" where
  "listen_target lookup addr =
     (case SplitHostPort addr of
        None \<Rightarrow> None
      | Some (host, port) \<Rightarrow>
          if host \<noteq> ''127.0.0.1'' \<and> host \<noteq> ''localhost'' then None
          else (case lookup host of
                  Some ips \<Rightarrow> if False \<in> set ips then None else Some (host, port)
                | None \<Rightarrow> Some (host, port)))"

lemma path_examples:
  "path_join ''.'' ''agent.token'' = ''agent.token''"
  "path_join (path_join ''/data/x'' ''logs'') ''audit.log'' = ''/data/x/logs/audit.log''"
  "path_clean ''a/../../b//./c'' = ''../b/c''"
  by code_simp+

lemma listen_examples:
  "listen_target (\<lambda>h. Some [True]) ''127.0.0.1:8477'' = Some (''127.0.0.1'', ''8477'')"
  "listen_target (\<lambda>h. Some [True]) ''0.0.0.0:8477'' = None"
  by code_simp+

text \<open>A start that fails early leaves no database, and only the token file can be new.\<close>

lemma start_exit_codes:
  assumes "run_daemon fl mc = (Exit c, disk, d)"
  shows "c \<in> {0, 1, 2} \<and> (c \<noteq> 1 \<longrightarrow> disk = mcDisk mc \<and> d = None)"
  using assms
  by (auto simp: run_daemon_def start_daemon_def Let_def split: option.splits if_splits sum.splits prod.splits)

text \<open>A daemon that serves: where each of its parts comes from.\<close>

lemma start_serves:
  assumes "run_daemon fl mc = (Serve rn, disk, d)"
  obtains f cat path tok st d0 alog dPath where "fl = Some f"
    "Load (mcReadFile mc) (mcDecode mc) (mcNodes mc) (mcRemarshal mc) path = Inr cat"
    "OpenSQLite (mcDbFault mc) (mcJournalMode mc) (mcSynchronous mc) (mcDb mc dPath) = Some d0"
    "Resume sqlite_ops (mcStore mc) (mcNow mc) d0 = ((st, None), svTasks (rnServer rn))"
    "rn = build (flSync f) (mcNow mc) cat tok (Some alog) st (svTasks (rnServer rn))"
    "\<exists>tokFile. LoadOrCreate (mcFaults mc) (mcRandom mc) tokFile (mcDisk mc) = (Inr tok, disk)"
proof -
  obtain f where f: "fl = Some f" using assms by (cases fl) (simp_all add: run_daemon_def)
  have nv: "\<not> flVersion f" "\<not> flValidate f"
    using assms f by (auto simp: run_daemon_def split: if_splits option.splits sum.splits)
  obtain path where path: "ResolvePath (mcBesideExe mc) (mcIsFile mc) (flCatalog f) = Some path"
    using assms f nv by (cases "ResolvePath (mcBesideExe mc) (mcIsFile mc) (flCatalog f)")
      (simp_all add: run_daemon_def)
  obtain cat where cat: "Load (mcReadFile mc) (mcDecode mc) (mcNodes mc) (mcRemarshal mc) path = Inr cat"
    using assms f nv path by (cases "Load (mcReadFile mc) (mcDecode mc) (mcNodes mc) (mcRemarshal mc) path")
      (simp_all add: run_daemon_def)
  have s: "start_daemon f mc cat = (Serve rn, disk, d)"
    using assms f nv path cat by (simp add: run_daemon_def)
  obtain dPath where dPath: "dPath = (if flDb f = [] then path_join (path_join (flDataDir f) ''data'') ''tasks.db'' else flDb f)"
    by blast
  from s obtain tok alog d0 st d1 tokFile where r:
      "LoadOrCreate (mcFaults mc) (mcRandom mc) tokFile (mcDisk mc) = (Inr tok, disk)"
      "OpenSQLite (mcDbFault mc) (mcJournalMode mc) (mcSynchronous mc) (mcDb mc dPath) = Some d0"
      "Resume sqlite_ops (mcStore mc) (mcNow mc) d0 = ((st, None), d1)"
      "rn = build (flSync f) (mcNow mc) cat tok (Some alog) st d1"
    unfolding start_daemon_def Let_def dPath [symmetric]
    by (auto split: prod.splits sum.splits option.splits if_splits)
  moreover have "svTasks (rnServer rn) = d1" using r(4) by (simp add: build_def New_server_def)
  ultimately show thesis using that f cat by metis
qed

end
