(* ===== verification/Faults.thy ===== *)
theory Faults
  imports Daemon
begin

text \<open>
  The worker, the requests and crash recovery on a store whose calls may fail (locale
  \<open>faulty_store\<close>). Any call may return an error, with or without effect; a process that dies
  between two calls leaves the database as if all later calls had failed without effect, so the
  facts below hold for a crash at any point as well. A round of the worker touches only the task it
  claimed, a request only the task it created and its key, recovery only live tasks.
\<close>

text \<open>All instants have a text representation; nothing is said about success.\<close>

definition exec_times :: "worker \<Rightarrow> exec_env \<Rightarrow> bool" where
  "exec_times wk x \<longleftrightarrow> (\<forall>k. year_ok (eNow (xStore x k))) \<and> times_ok wk x"

definition henv_times :: "http_env \<Rightarrow> catalog \<Rightarrow> bool" where
  "henv_times h cat \<longleftrightarrow> (\<forall>k. year_ok (eNow (hStore h k))) \<and>
     year_ok (hRetryNow h + DelayAfterFailure (hRand h) (backoffBase cat) 0 maxServerJitter)"

lemma henv_ok_times: "henv_ok h cat \<Longrightarrow> henv_times h cat"
  by (simp add: henv_ok_def henv_times_def env_ok_def)

lemma exec_ok_times: "envs_ok x \<Longrightarrow> times_ok wk x \<Longrightarrow> exec_times wk x"
  by (simp add: exec_times_def envs_ok_def env_ok_def)

definition fair :: "(task \<Rightarrow> task) \<Rightarrow> bool" where
  "fair fn \<longleftrightarrow> (\<forall>t. storable t \<longrightarrow> fair_update fn t)"

lemma fair_simple:
  "fair set_executing" "fair set_unknown_verb" "fair (\<lambda>t. t)" "fair set_pending" "fair sync_executing"
  "fair superseded" "fair resumed" "fair (canceled msg)"
  "year_ok tm \<Longrightarrow> fair (set_circuit_open tm)"
  using change_fun_simple by (simp_all add: fair_def fair_set fair_resumed fair_canceled change_fun_def)

lemma fair_changes:
  "fair (set_ok ec out err r)" "fair (set_exhausted oc ec out err msg)" "fair (sync_ok ec out err r)"
  "year_ok tm \<Longrightarrow> fair (set_retry oc ec out err msg n tm)"
  using change_fun_simple(5) by (simp_all add: fair_def fair_set change_fun_def)

lemma fair_attempt_change:
  assumes "exec_times wk x"
  shows "fair (attempt_change wk x v task)"
proof -
  have "year_ok (retry_time wk x task)" using assms by (simp add: exec_times_def times_ok_def retry_time_def)
  then show ?thesis by (simp add: fair_def fair_attempt)
qed

lemma fair_sync_change:
  assumes "henv_times h cat"
  shows "fair (sync_change h cat v mr argv stdin)"
proof -
  have "year_ok (hRetryNow h + DelayAfterFailure (hRand h) (backoffBase cat) 0 maxServerJitter)"
    using assms by (simp add: henv_times_def)
  then show ?thesis unfolding sync_change_def Let_def by (simp add: fair_changes split: prod.split)
qed

text \<open>Tasks in a state of \<open>P\<close> may change, nothing else does.\<close>

definition only_changes ::
  "(task_state \<Rightarrow> bool) \<Rightarrow> (string \<Rightarrow> task option) \<Rightarrow> (string \<Rightarrow> task option) \<Rightarrow> bool" where
  "only_changes P v v' \<longleftrightarrow>
     (\<forall>tid. v' tid = v tid \<or> (\<exists>t t'. v tid = Some t \<and> P (tState t) \<and> v' tid = Some t'))"

abbreviation waiting :: "task_state \<Rightarrow> bool" where
  "waiting st \<equiv> st = StatePending \<or> st = StateRetryScheduled"

lemma only_changes_refl [simp]: "only_changes P v v"
  by (simp add: only_changes_def)

lemma only_changes_trans: "only_changes P a b \<Longrightarrow> only_changes P b c \<Longrightarrow> only_changes P a c"
  unfolding only_changes_def by (metis option.inject)

lemma only_changes_upd: "v tid = Some t \<Longrightarrow> P (tState t) \<Longrightarrow> only_changes P v (v(tid \<mapsto> t'))"
  by (simp add: only_changes_def)

lemma only_changes_mono: "only_changes P v v' \<Longrightarrow> (\<And>st. P st \<Longrightarrow> Q st) \<Longrightarrow> only_changes Q v v'"
  unfolding only_changes_def by metis

lemma only_changes_waiting: "only_changes waiting v v' \<Longrightarrow> only_changes active_state v v'"
  by (erule only_changes_mono) auto

lemma only_changes_keep: "only_changes P v v' \<Longrightarrow> v tid = Some t \<Longrightarrow> \<not> P (tState t) \<Longrightarrow> v' tid = Some t"
  unfolding only_changes_def by (metis option.inject)

context faulty_store begin

text \<open>Only the task \<open>tid\<close> changed.\<close>

definition own :: "string \<Rightarrow> 's \<Rightarrow> 's \<Rightarrow> bool" where
  "own tid s s' \<longleftrightarrow> inv s' \<and> keys s' = keys s \<and> (\<exists>t'. view s' = (view s)(tid \<mapsto> t'))"

lemma own_refl: "inv s \<Longrightarrow> view s tid = Some t \<Longrightarrow> own tid s s"
  unfolding own_def by (metis map_upd_triv)

lemma own_trans: "own tid a b \<Longrightarrow> own tid b c \<Longrightarrow> own tid a c"
  by (auto simp: own_def)

lemma own_update:
  assumes "own tid s s1" and "year_ok (eNow e)" and "fair fn"
  shows "own tid s (snd (sUpdateAndAudit ops e tid fn ev s1))"
proof -
  obtain r s2 where u: "sUpdateAndAudit ops e tid fn ev s1 = (r, s2)" by fastforce
  have i: "inv s1" using assms(1) by (simp add: own_def)
  then have "\<forall>t. view s1 tid = Some t \<longrightarrow> fair_update fn t" using assms(3) view_id by (auto simp: fair_def)
  from update_audit_any [OF i assms(2) this u] assms(1) u show ?thesis
    by (auto simp: own_def all_or_nothing_def)
qed

lemma own_attempt: "own tid s s1 \<Longrightarrow> own tid s (snd (sRecordAttempt ops e tid' n t0 t1 ec oc msg s1))"
  using record_attempt by (auto simp: own_def)

lemma own_drain: "own tid s s1 \<Longrightarrow> own tid s (fst (snd (sDrainOutbox ops e log lim s1)))"
  using drain by (auto simp: own_def)

subsection \<open>A round of the worker\<close>

lemma execute_own:
  assumes "own (tID task) s (wStore w)" and "exec_times wk x"
  shows "own (tID task) s (wStore (execute ops wk x task w))"
proof -
  have y: "year_ok (eNow (xStore x k))" "year_ok (xOpenNow x + second)" for k
    using assms(2) by (simp_all add: exec_times_def times_ok_def)
  have "own (tID task) s (wStore (execute_body ops wk x task w))"
  proof (cases rule: execute_body_split [where ops = ops and wk = wk and x = x and task = task and w = w,
        case_names unknown refused run])
    case (unknown ev)
    then show ?thesis using own_update [OF assms(1) y(1) fair_simple(2)] by simp
  next
    case (refused v ev)
    then show ?thesis using own_update [OF assms(1) y(1) fair_simple(9) [OF y(2)]] by simp
  next
    case (run v r)
    have w: "own (tID task) s (wStore (w\<lparr>wCircuits := r\<rparr>))" using assms(1) by simp
    obtain ev1 ev3 oc msg ec where "wStore (run_attempt ops wk x v task (w\<lparr>wCircuits := r\<rparr>)) =
       snd (sUpdateAndAudit ops (xStore x 3) (tID task) (attempt_change wk x v task) ev3
         (snd (sRecordAttempt ops (xStore x 2) (tID task) (tAttempt task) (xStart x) (xEnd x) ec oc msg
           (snd (sUpdateAndAudit ops (xStore x 1) (tID task) set_executing ev1 (wStore (w\<lparr>wCircuits := r\<rparr>)))))))"
      using wStore_run_attempt by blast
    with own_update [OF own_attempt [OF own_update [OF w y(1) fair_simple(1)]] y(1) fair_attempt_change [OF assms(2)]] run(3)
    show ?thesis by simp
  qed
  then show ?thesis by (simp add: execute_def own_drain)
qed

text \<open>A round changes nothing, or just one task that was waiting.\<close>

lemma tick_any:
  assumes "inv (wStore w)" and "year_ok (eNow e1)" and "exec_times wk x"
  shows "inv (wStore (tick ops wk now e0 e1 x w)) \<and>
    keys (wStore (tick ops wk now e0 e1 x w)) = keys (wStore w) \<and>
    only_changes waiting (view (wStore w)) (view (wStore (tick ops wk now e0 e1 x w)))"
proof -
  define w1 where "w1 = w_drain ops e0 50 w"
  have d: "view (wStore w1) = view (wStore w)" "keys (wStore w1) = keys (wStore w)" "inv (wStore w1)"
    using drain [OF assms(1)] by (simp_all add: w1_def)
  have tick: "tick ops wk now e0 e1 x w = (case sClaimDue ops e1 now (wStore w1) of
      (Inr (Some task), s) \<Rightarrow> execute ops wk x task (w1\<lparr>wStore := s\<rparr>) | (_, s) \<Rightarrow> w1\<lparr>wStore := s\<rparr>)"
    by (simp add: tick_def claim_and_execute_def Let_def w1_def split: prod.split sum.split option.split)
  obtain r s where c: "sClaimDue ops e1 now (wStore w1) = (r, s)" by fastforce
  note claim = claim_any [OF d(3) assms(2) c]
  show ?thesis
  proof (cases "\<exists>k. r = Inr (Some k)")
    case True
    then obtain k where k: "r = Inr (Some k)" by blast
    with claim obtain t t' where t: "view (wStore w) (tID k) = Some t" "waiting (tState t)" "inv s"
        "keys s = keys (wStore w)" "view s = (view (wStore w))(tID k \<mapsto> t')" by (auto simp: d)
    then have "own (tID k) (wStore w) s" by (auto simp: own_def)
    then have "own (tID k) (wStore w) (wStore (execute ops wk x k (w1\<lparr>wStore := s\<rparr>)))"
      by (intro execute_own [OF _ assms(3)]) simp
    moreover have "tick ops wk now e0 e1 x w = execute ops wk x k (w1\<lparr>wStore := s\<rparr>)"
      using c k by (simp add: tick)
    ultimately show ?thesis using t(1,2) by (auto simp: own_def only_changes_upd)
  next
    case False
    then have "tick ops wk now e0 e1 x w = w1\<lparr>wStore := s\<rparr>"
      using c by (auto simp: tick split: sum.split option.split)
    with claim show ?thesis by (auto simp: d only_changes_upd)
  qed
qed

subsection \<open>Crash recovery\<close>

definition quiet :: "'s \<Rightarrow> 's \<Rightarrow> bool" where
  "quiet s s' \<longleftrightarrow> inv s' \<and> keys s' = keys s \<and> only_changes active_state (view s) (view s')"

lemma quiet_refl: "inv s \<Longrightarrow> quiet s s"
  by (simp add: quiet_def)

lemma quiet_trans: "quiet a b \<Longrightarrow> quiet b c \<Longrightarrow> quiet a c"
  using only_changes_trans by (auto simp: quiet_def)

definition live_list :: "'s \<Rightarrow> task list \<Rightarrow> bool" where
  "live_list s ts \<longleftrightarrow> distinct (map tID ts) \<and>
     (\<forall>c \<in> set ts. \<exists>t. view s (tID c) = Some t \<and> active_state (tState t))"

lemma live_listed:
  assumes "inv s" and "active_state st"
  shows "live_list s (sList ops e (state_name st) s)"
proof -
  have "state_name st \<noteq> []" by (cases st) simp_all
  with list_any [OF assms(1), of e "state_name st"] assms(2) show ?thesis
    unfolding live_list_def by (metis state_name_inj)
qed

text \<open>An update of the first task of such a list.\<close>

lemma live_step:
  assumes "live_list s (c # ts)" and "inv s1" and "keys s1 = keys s"
    and "all_or_nothing (view s) (view s1) (tID c) fn now"
  shows "quiet s s1" and "live_list s1 ts"
proof -
  obtain t where t: "view s (tID c) = Some t" "active_state (tState t)" using assms(1) by (auto simp: live_list_def)
  have other: "view s1 k = view s k" if "k \<noteq> tID c" for k using assms(4) that by (auto simp: all_or_nothing_def)
  show "quiet s s1" using assms(2-4) t by (auto simp: quiet_def all_or_nothing_def only_changes_upd)
  have "tID c \<notin> tID ` set ts" using assms(1) by (simp add: live_list_def)
  then show "live_list s1 ts" using assms(1) other unfolding live_list_def
    by (metis distinct.simps(2) image_eqI list.set_intros(2) list.simps(9))
qed

lemma requeue_any:
  assumes "inv s" and "\<forall>n. year_ok (eNow (es n))" and "live_list s ts"
    and "requeue_loop ops es n ts s = (m, err, s')"
  shows "quiet s s'"
  using assms
proof (induction ts arbitrary: n s)
  case Nil
  then show ?case by (simp add: quiet_refl)
next
  case (Cons c ts)
  obtain r s1 where u: "sUpdate ops (es n) (tID c) resumed s = (r, s1)" by fastforce
  have "\<forall>t. view s (tID c) = Some t \<longrightarrow> fair_update resumed t"
    using view_id [OF Cons.prems(1)] fair_resumed by blast
  with update_any [OF Cons.prems(1) _ this u] Cons.prems(2) have
    s1: "inv s1" "keys s1 = keys s" "all_or_nothing (view s) (view s1) (tID c) resumed (eNow (es n))" by blast+
  note step = live_step [OF Cons.prems(3) s1]
  show ?case
  proof (cases r)
    case None
    with u Cons.prems(4) have "requeue_loop ops es (Suc n) ts s1 = (m, err, s')" by simp
    from quiet_trans [OF step(1) Cons.IH [OF s1(1) Cons.prems(2) step(2) this]] show ?thesis .
  next
    case (Some e)
    with u Cons.prems(4) step(1) show ?thesis by simp
  qed
qed

lemma cancel_any:
  assumes "inv s" and "\<forall>n. year_ok (eNow (es n))" and "live_list s ts"
    and "cancel_loop ops es n msg ts s = (err, s')"
  shows "quiet s s'"
  using assms
proof (induction ts arbitrary: n s)
  case Nil
  then show ?case by (simp add: quiet_refl)
next
  case (Cons c ts)
  obtain r s1 where u: "sUpdateAndAudit ops (es n) (tID c) (canceled msg) (cancel_event msg c) s = (r, s1)" by fastforce
  have "\<forall>t. view s (tID c) = Some t \<longrightarrow> fair_update (canceled msg) t"
    using view_id [OF Cons.prems(1)] fair_canceled by blast
  with update_audit_any [OF Cons.prems(1) _ this u] Cons.prems(2) have
    s1: "inv s1" "keys s1 = keys s" "all_or_nothing (view s) (view s1) (tID c) (canceled msg) (eNow (es n))" by blast+
  note step = live_step [OF Cons.prems(3) s1]
  show ?case
  proof (cases r)
    case None
    with u Cons.prems(4) have "cancel_loop ops es (Suc n) msg ts s1 = (err, s')" by simp
    from quiet_trans [OF step(1) Cons.IH [OF s1(1) Cons.prems(2) step(2) this]] show ?thesis .
  next
    case (Some e)
    with u Cons.prems(4) step(1) show ?thesis by simp
  qed
qed

text \<open>Recovery, whether it succeeds or gives up, leaves finished tasks alone and adds none.\<close>

lemma resume_any:
  assumes "inv s" and "\<forall>p n. year_ok (eNow (es p n))" and "Resume ops es now s = (r, s')"
  shows "quiet s s'"
proof -
  have y: "\<forall>n. year_ok (eNow (es p n))" for p using assms(2) by simp
  obtain n e1 s1 where q1: "requeue_loop ops (es 1) 0 (sList ops (es 0 0) (state_name StateExecuting) s) s = (n, e1, s1)"
    by (metis prod_cases3)
  have s1: "quiet s s1" by (rule requeue_any [OF assms(1) y live_listed [OF assms(1)] q1]) simp
  then have i1: "inv s1" by (simp add: quiet_def)
  show ?thesis
  proof (cases e1)
    case (Some e)
    with q1 assms(3) s1 show ?thesis by (simp add: Resume_def Let_def)
  next
    case None
    note q1 = q1 [unfolded None]
    obtain e2 s2 where q2: "cancel_loop ops (es 2) 0 accept_msg (sList ops (es 0 3) (state_name StateAccepted) s1) s1 = (e2, s2)"
      by fastforce
    have s2: "quiet s1 s2" by (rule cancel_any [OF i1 y live_listed [OF i1] q2]) simp
    then have i2: "inv s2" by (simp add: quiet_def)
    show ?thesis
    proof (cases e2)
      case (Some e)
      with q1 q2 assms(3) quiet_trans [OF s1 s2] show ?thesis by (simp add: Resume_def Let_def)
    next
      case None
      note q2 = q2 [unfolded None]
      obtain e3 s3 where q3: "cancel_loop ops (es 3) 0 legacy_msg
          (sList ops (es 0 4) (state_name StatePendingApproval) s2) s2 = (e3, s3)" by fastforce
      have "quiet s2 s3" by (rule cancel_any [OF i2 y live_listed [OF i2] q3]) simp
      with quiet_trans [OF quiet_trans [OF s1 s2]] have "quiet s s3" by blast
      with q1 q2 q3 assms(3) show ?thesis by (simp add: Resume_def Let_def del: state_name.simps)
    qed
  qed
qed

subsection \<open>A request\<close>

text \<open>Only the task \<open>tid\<close> changed, and \<open>key\<close> may have been bound to it.\<close>

definition mine :: "string \<Rightarrow> string \<Rightarrow> 's \<Rightarrow> 's \<Rightarrow> bool" where
  "mine key tid s s' \<longleftrightarrow> inv s' \<and> (\<exists>t'. view s' = (view s)(tid \<mapsto> t')) \<and>
     (keys s' = keys s \<or> keys s key = None \<and> (\<exists>b. keys s' = (keys s)(key \<mapsto> b) \<and> iTaskID b = tid))"

lemma mine_own: "mine key tid s a \<Longrightarrow> own tid a b \<Longrightarrow> mine key tid s b"
  by (auto simp: mine_def own_def)

lemma own_mine: "own tid s a \<Longrightarrow> mine key tid s a"
  by (simp add: mine_def own_def)

lemma own_self: "mine key tid s a \<Longrightarrow> own tid a a"
  by (auto simp: mine_def intro: own_refl)

lemma runPipeline_own:
  assumes "own tid s (svTasks sv)" and "henv_times h (svCatalog sv)"
  shows "own tid s (svTasks (runPipeline ops h tid v argv red stdin sv))"
proof -
  have y: "year_ok (eNow (hStore h k))" for k using assms(2) by (simp add: henv_times_def)
  let ?sv = "sv_update ops (hStore h 7) tid (\<lambda>t. t) (api_event tid v ''accepted'' red None 0 []) sv"
  have o: "own tid s (svTasks ?sv)" using own_update [OF assms(1) y fair_simple(3)] by simp
  have sync: "own tid s (svTasks (executeOnce ops h tid v mr argv red i ?sv))" for mr i
  proof -
    obtain ev1 ev3 oc msg ec where "svTasks (executeOnce ops h tid v mr argv red i ?sv) =
       snd (sUpdateAndAudit ops (hStore h 10) tid (sync_change h (svCatalog ?sv) v mr argv i) ev3
         (snd (sRecordAttempt ops (hStore h 9) tid 0 (hStart h) (hEnd h) ec oc msg
           (snd (sUpdateAndAudit ops (hStore h 8) tid sync_executing ev1 (svTasks ?sv))))))"
      using executeOnce_store by blast
    moreover have "henv_times h (svCatalog ?sv)" using assms(2) by simp
    ultimately show ?thesis
      using own_update [OF own_attempt [OF own_update [OF o y fair_simple(5)]] y fair_sync_change] by metis
  qed
  have "own tid s (svTasks (sv_update ops (hStore h 8) tid set_pending ev ?sv))" for ev
    using own_update [OF o y fair_simple(4)] by simp
  with sync show ?thesis by (simp add: runPipeline_def Let_def)
qed

lemma bind_key_mine:
  assumes "own tid s (svTasks sv)" and "henv_times h (svCatalog sv)"
    and "bind_key ops h v key rh tid red sv = (w, sv')"
  shows "mine key tid s (svTasks sv') \<and> svCatalog sv' = svCatalog sv"
proof (cases "key = []")
  case True
  with assms(3) own_mine [OF assms(1)] show ?thesis by (simp add: bind_key_def)
next
  case False
  have y: "year_ok (eNow (hStore h k))" for k using assms(2) by (simp add: henv_times_def)
  let ?rec = "\<lparr>iKey = key, iVerb = vName v, iHash = rh, iTaskID = tid, iCreatedAt = zero_time\<rparr>"
  obtain r s1 where sv: "sSaveIdempotency ops (hStore h 3) ?rec (svTasks sv) = (r, s1)" by fastforce
  have "inv (svTasks sv)" using assms(1) by (simp add: own_def)
  from save_any [OF this sv] assms(1) have m: "mine key tid s s1"
    by (auto simp: mine_def own_def same_binding_def)
  have sup: "mine key tid s (snd (sUpdateAndAudit ops (hStore h 5) tid superseded ev s1))" for ev
    by (rule mine_own [OF m own_update [OF own_self [OF m] y fair_simple(6)]])
  show ?thesis
  proof (cases r)
    case None
    with False assms(3) sv m show ?thesis by (auto simp: bind_key_def)
  next
    case (Some err)
    with False assms(3) sv m sup show ?thesis
      by (cases "sFindIdempotency ops (hStore h 4) key s1")
        (auto simp: bind_key_def Let_def split: option.splits)
  qed
qed

lemma run_created_mine:
  assumes "own tid s (svTasks sv)" and "henv_times h (svCatalog sv)"
    and "run_created ops h v key rh argv red stdin tid sv = (rp, sv')"
  shows "mine key tid s (svTasks sv')"
proof -
  obtain w sv1 where b: "bind_key ops h v key rh tid red sv = (w, sv1)"
    by (cases "bind_key ops h v key rh tid red sv")
  from bind_key_mine [OF assms(1,2) b] have m: "mine key tid s (svTasks sv1)" "henv_times h (svCatalog sv1)"
    using assms(2) by simp_all
  show ?thesis
  proof (cases w)
    case (Some t)
    with b m assms(3) show ?thesis by (simp add: run_created_def)
  next
    case None
    let ?sv = "runPipeline ops h tid v argv red stdin sv1"
    note o = runPipeline_own [OF own_self [OF m(1)] m(2), of v argv red stdin]
    have "own tid (svTasks sv1) (svTasks (sv_drain ops e lim ?sv))" for e lim
      using own_drain [OF o] by (simp add: sv_drain_def case_prod_unfold)
    with None b assms(3) o have "own tid (svTasks sv1) (svTasks sv')"
      by (auto simp: run_created_def Let_def split: option.splits)
    with m(1) show ?thesis by (rule mine_own)
  qed
qed

text \<open>Whatever fails, a post changes nothing, or creates its task while there is room.\<close>

lemma post_any:
  assumes "inv (svTasks sv)" and "henv_times h (svCatalog sv)" and "view (svTasks sv) (eID (hStore h 2)) = None"
    and "post_expanded ops h v args stdin key argv red sv = (rp, sv')"
  shows "svTasks sv' = svTasks sv \<or>
    inv (svTasks sv') \<and> view (svTasks sv') = view (svTasks sv) \<and> keys (svTasks sv') = keys (svTasks sv) \<or>
    int (sDepth ops (svTasks sv)) < MaxQueueDepth (cDaemon (svCatalog sv)) \<and>
    mine key (eID (hStore h 2)) (svTasks sv) (svTasks sv')"
proof -
  have y: "year_ok (eNow (hStore h 2))" using assms(2) by (simp add: henv_times_def)
  obtain b sv1 where pk: "peek_open (hSnap h) v sv = (b, sv1)" by (cases "peek_open (hSnap h) v sv")
  then have sv1: "svTasks sv1 = svTasks sv" "svCatalog sv1 = svCatalog sv"
    using peek_open_simps(1,2) [of "hSnap h" v sv] by simp_all
  let ?rh = "idempotencyHash (hSha h) (vName v) args stdin"
  show ?thesis
  proof (cases "find_prior ops h v key ?rh (svTasks sv) = PriorNone \<and> \<not> b")
    case False
    with assms(4) pk sv1 show ?thesis
      by (cases "find_prior ops h v key ?rh (svTasks sv)") (auto simp: post_expanded_def Let_def)
  next
    case True
    obtain r s where c: "sCreateAndAuditLimited ops (hStore h 2) (post_input (svCatalog sv1) v args stdin argv red)
        (api_event [] v (state_name StateAccepted) red None 0 []) (MaxQueueDepth (cDaemon (svCatalog sv1)))
        (svTasks sv) = (r, s)" by fastforce
    note made = create_any [OF assms(1) y assms(3) c]
    have "post_expanded ops h v args stdin key argv red sv =
       (case r of Inl QueueFull \<Rightarrow> (writeErr StatusServiceUnavailable ''queue_full'' [], sv1\<lparr>svTasks := s\<rparr>)
        | Inl err \<Rightarrow> (writeErr StatusInternalServerError ''store_error'' [], sv1\<lparr>svTasks := s\<rparr>)
        | Inr t \<Rightarrow> run_created ops h v key ?rh argv red stdin (tID t) (sv1\<lparr>svTasks := s\<rparr>))"
      using True pk c sv1 by (simp add: post_expanded_def Let_def post_input_def split: sum.split)
    with assms(4) have sv': "(case r of Inl QueueFull \<Rightarrow> (writeErr StatusServiceUnavailable ''queue_full'' [], sv1\<lparr>svTasks := s\<rparr>)
        | Inl err \<Rightarrow> (writeErr StatusInternalServerError ''store_error'' [], sv1\<lparr>svTasks := s\<rparr>)
        | Inr t \<Rightarrow> run_created ops h v key ?rh argv red stdin (tID t) (sv1\<lparr>svTasks := s\<rparr>)) = (rp, sv')" by simp
    show ?thesis
    proof (cases r)
      case (Inl err)
      with sv' have "svTasks sv' = s" by (cases err) auto
      with made sv1 show ?thesis by (auto simp: mine_def)
    next
      case (Inr t)
      with made obtain t' where t: "inv s" "keys s = keys (svTasks sv)" "tID t = eID (hStore h 2)"
          "int (sDepth ops (svTasks sv)) < MaxQueueDepth (cDaemon (svCatalog sv))"
          "view s = (view (svTasks sv))(eID (hStore h 2) \<mapsto> t')" by (auto simp: sv1)
      then have o: "own (eID (hStore h 2)) (svTasks sv) (svTasks (sv1\<lparr>svTasks := s\<rparr>))" by (auto simp: own_def)
      have "run_created ops h v key ?rh argv red stdin (eID (hStore h 2)) (sv1\<lparr>svTasks := s\<rparr>) = (rp, sv')"
        using sv' Inr t(3) by simp
      from run_created_mine [OF o _ this] assms(2) sv1 t(4) show ?thesis by simp
    qed
  qed
qed

end

end
