(* ===== verification/Lifecycle.thy ===== *)
theory Lifecycle
  imports Faults
begin

text \<open>
  The running daemon: requests, rounds of the worker and restarts after a crash, in any order, on
  one store. A request and a round are one step each, and any of their store calls may fail; a
  process that dies in the middle of a step is a step whose remaining calls fail without effect,
  followed by a restart. A restart may give up (and leave part of its work done) any number of times
  before one succeeds. What every step preserves is proved over the contract of a store that may fail.
\<close>

text \<open>The worker's view of the shared objects, and back.\<close>

definition worker_state :: "'s running \<Rightarrow> 's wstate" where
  "worker_state rn =
     \<lparr>wStore = svTasks (rnServer rn), wCircuits = svCircuits (rnServer rn), wLog = svAudit (rnServer rn),
      wNotifier = rnNotifier rn\<rparr>"

definition after_worker :: "'s wstate \<Rightarrow> 's running \<Rightarrow> 's running" where
  "after_worker w rn =
     rn\<lparr>rnServer := (rnServer rn)\<lparr>svTasks := wStore w, svCircuits := wCircuits w, svAudit := wLog w\<rparr>,
        rnNotifier := wNotifier w\<rparr>"

text \<open>The capacity of the queue.\<close>

definition capacity :: "'s running \<Rightarrow> int" where
  "capacity rn = MaxQueueDepth (cDaemon (svCatalog (rnServer rn)))"

text \<open>Starts that gave up while resuming the interrupted work.\<close>

inductive failed_starts :: "'s store_ops \<Rightarrow> 's \<Rightarrow> 's \<Rightarrow> bool" for ops where
  none: "failed_starts ops s s"
| again: "failed_starts ops s s1 \<Longrightarrow> \<forall>p n. year_ok (eNow (es p n)) \<Longrightarrow>
     Resume ops es now s1 = ((st, Some err), s2) \<Longrightarrow> failed_starts ops s s2"

inductive daemon_step :: "'s store_ops \<Rightarrow> 's running \<Rightarrow> 's running \<Rightarrow> bool" for ops where
  request: "henv_times h (svCatalog (rnServer rn)) \<Longrightarrow>
     env_ok e \<Longrightarrow> sGet ops e (eID (hStore h 2)) (svTasks (rnServer rn)) = None \<Longrightarrow>
     Handler ops h header req (rnServer rn) = Some (rp, sv') \<Longrightarrow>
     daemon_step ops rn (rn\<lparr>rnServer := sv'\<rparr>)"
| worker: "year_ok (eNow e1) \<Longrightarrow> exec_times (worker_defaults (rnWorker rn)) x \<Longrightarrow>
     w' = tick ops (worker_defaults (rnWorker rn)) now e0 e1 x (worker_state rn) \<Longrightarrow>
     daemon_step ops rn (after_worker w' rn)"
| restart: "failed_starts ops (svTasks (rnServer rn)) s1 \<Longrightarrow> \<forall>p n. year_ok (eNow (es p n)) \<Longrightarrow>
     Resume ops es now s1 = ((st, None), s') \<Longrightarrow>
     daemon_step ops rn (build syncExec now (svCatalog (rnServer rn)) tok alog st s')"

inductive_cases daemon_stepE: "daemon_step ops rn rn'"

abbreviation daemon_run :: "'s store_ops \<Rightarrow> 's running \<Rightarrow> 's running \<Rightarrow> bool" where
  "daemon_run ops \<equiv> (daemon_step ops)\<^sup>*\<^sup>*"

subsection \<open>What never changes\<close>

text \<open>Tasks stay, finished tasks stay as they are, and a key stays bound.\<close>

definition evolves ::
  "('s \<Rightarrow> string \<Rightarrow> task option) \<Rightarrow> ('s \<Rightarrow> string \<Rightarrow> idem_record option) \<Rightarrow> 's \<Rightarrow> 's \<Rightarrow> bool" where
  "evolves v k s s' \<longleftrightarrow>
     (\<forall>tid t. v s tid = Some t \<longrightarrow> (\<exists>t'. v s' tid = Some t' \<and> (terminal_state (tState t) \<longrightarrow> t' = t))) \<and>
     (\<forall>key b. k s key = Some b \<longrightarrow> k s' key = Some b)"

text \<open>Every key belongs to a task.\<close>

definition keys_live ::
  "('s \<Rightarrow> string \<Rightarrow> task option) \<Rightarrow> ('s \<Rightarrow> string \<Rightarrow> idem_record option) \<Rightarrow> 's \<Rightarrow> bool" where
  "keys_live v k s \<longleftrightarrow> (\<forall>key b. k s key = Some b \<longrightarrow> v s (iTaskID b) \<noteq> None)"

lemma evolves_refl: "evolves v k s s"
  by (simp add: evolves_def)

lemma evolves_trans: "evolves v k a b \<Longrightarrow> evolves v k b c \<Longrightarrow> evolves v k a c"
  unfolding evolves_def by metis

lemma evolves_live: "evolves v k s s' \<Longrightarrow> k s' = k s \<Longrightarrow> keys_live v k s \<Longrightarrow> keys_live v k s'"
  unfolding evolves_def keys_live_def by (metis option.distinct(1) option.exhaust)

text \<open>A post keeps the catalog.\<close>

lemma bind_key_catalog: "svCatalog (snd (bind_key ops h v key rh tid red sv)) = svCatalog sv"
  by (simp add: bind_key_def Let_def split: prod.split option.split sum.split)

lemma runPipeline_catalog: "svCatalog (runPipeline ops h tid v argv red stdin sv) = svCatalog sv"
  by (simp add: runPipeline_def Let_def)

lemma sv_drain_catalog: "svCatalog (sv_drain ops e lim sv) = svCatalog sv"
  by (simp add: sv_drain_def split: prod.split)

lemma run_created_catalog: "svCatalog (snd (run_created ops h v key rh argv red stdin tid sv)) = svCatalog sv"
proof -
  obtain w sv1 where b: "bind_key ops h v key rh tid red sv = (w, sv1)" by (cases "bind_key ops h v key rh tid red sv")
  then have "svCatalog sv1 = svCatalog sv" using bind_key_catalog by (metis snd_conv)
  with b show ?thesis
    by (cases w) (simp_all add: run_created_def Let_def runPipeline_catalog sv_drain_catalog split: option.split)
qed

lemma post_expanded_catalog:
  assumes "post_expanded ops h v args stdin key argv red sv = (rp, sv')"
  shows "svCatalog sv' = svCatalog sv"
proof -
  obtain b sv1 where pk: "peek_open (hSnap h) v sv = (b, sv1)" by (cases "peek_open (hSnap h) v sv")
  then have sv1: "svCatalog sv1 = svCatalog sv" using peek_open_simps(2) [of "hSnap h" v sv] by simp
  have rc: "svCatalog (snd (run_created ops h v key rh argv red stdin tid (sv1\<lparr>svTasks := s\<rparr>))) = svCatalog sv"
    for rh tid s using sv1 by (simp add: run_created_catalog)
  have rc': "svCatalog sv' = svCatalog sv"
    if "run_created ops h v key rh argv red stdin tid (sv1\<lparr>svTasks := s\<rparr>) = (rp, sv')" for rh tid s
    using rc [of rh tid s] unfolding that by simp
  show ?thesis
  proof (cases "find_prior ops h v key (idempotencyHash (hSha h) (vName v) args stdin) (svTasks sv) = PriorNone \<and> \<not> b")
    case False
    with assms sv1 show ?thesis
      by (cases "find_prior ops h v key (idempotencyHash (hSha h) (vName v) args stdin) (svTasks sv)")
        (auto simp: post_expanded_def pk Let_def)
  next
    case True
    obtain r s where c: "sCreateAndAuditLimited ops (hStore h 2)
        (post_input (svCatalog sv1) v args stdin argv red)
        (api_event [] v (state_name StateAccepted) red None 0 []) (MaxQueueDepth (cDaemon (svCatalog sv1)))
        (svTasks sv1) = (r, s)" by fastforce
    show ?thesis
    proof (cases r)
      case (Inr t)
      with assms True c show ?thesis
        by (intro rc' [of "idempotencyHash (hSha h) (vName v) args stdin" "tID t" s])
          (simp add: post_expanded_def pk Let_def post_input_def)
    next
      case (Inl err)
      with assms True c sv1 show ?thesis
        by (cases err) (auto simp: post_expanded_def pk Let_def post_input_def)
    qed
  qed
qed

context faulty_store begin

text \<open>A change of the store that keeps all promises; \<open>m\<close> is the capacity.\<close>

definition safe :: "int \<Rightarrow> 's \<Rightarrow> 's \<Rightarrow> bool" where
  "safe m s s' \<longleftrightarrow> inv s' \<and> evolves view keys s s' \<and> keys_live view keys s' \<and>
     int (sDepth ops s') \<le> max (int (sDepth ops s)) m"

lemma safe_same:
  assumes "inv s" and "keys_live view keys s" and "inv s'" and "view s' = view s" and "keys s' = keys s"
  shows "safe m s s'"
  using assms by (simp add: safe_def evolves_def keys_live_def depth)

lemma safe_refl: "inv s \<Longrightarrow> keys_live view keys s \<Longrightarrow> safe m s s"
  by (rule safe_same) simp_all

lemma safe_quiet:
  assumes "inv s" and "keys_live view keys s" and "quiet s s'"
  shows "safe m s s'"
proof -
  have q: "inv s'" "keys s' = keys s" "only_changes active_state (view s) (view s')" using assms(3) by (simp_all add: quiet_def)
  have "active_ids (view s') \<subseteq> active_ids (view s)"
    using q(3) unfolding only_changes_def active_ids_def by (smt (verit) Collect_mono_iff)
  then have "sDepth ops s' \<le> sDepth ops s" using assms(1) q(1) by (simp add: depth card_mono finite_active)
  moreover have ev: "evolves view keys s s'"
    using q(2,3) unfolding evolves_def only_changes_def by (metis option.inject)
  ultimately show ?thesis using q evolves_live [OF ev q(2) assms(2)] by (simp add: safe_def)
qed

lemma safe_mine:
  assumes "inv s" and "keys_live view keys s" and "view s tid = None" and "int (sDepth ops s) < m"
    and "mine key tid s s'"
  shows "safe m s s'"
proof -
  obtain t' where m: "inv s'" "view s' = (view s)(tid \<mapsto> t')"
      "keys s' = keys s \<or> keys s key = None \<and> (\<exists>b. keys s' = (keys s)(key \<mapsto> b) \<and> iTaskID b = tid)"
    using assms(5) by (auto simp: mine_def)
  have "evolves view keys s s'" using m(2,3) assms(3) by (auto simp: evolves_def)
  moreover have "keys_live view keys s'" using assms(2) m(2,3) by (auto simp: keys_live_def split: if_splits)
  moreover have "int (sDepth ops s') \<le> m" using depth_create [OF assms(1) m(1,2)] assms(4) by linarith
  ultimately show ?thesis using m(1) by (simp add: safe_def)
qed

text \<open>A post, whatever its key, whatever the queue holds and whatever fails.\<close>

lemma post_expanded_safe:
  assumes "inv (svTasks sv)" and "keys_live view keys (svTasks sv)" and "henv_times h (svCatalog sv)"
    and "view (svTasks sv) (eID (hStore h 2)) = None"
    and "post_expanded ops h v args stdin key argv red sv = (rp, sv')"
  shows "safe (MaxQueueDepth (cDaemon (svCatalog sv))) (svTasks sv) (svTasks sv') \<and> svCatalog sv' = svCatalog sv"
  using post_any [OF assms(1,3-5)] safe_mine [OF assms(1,2,4)] safe_same [OF assms(1,2)] assms(1)
    post_expanded_catalog [OF assms(5)] by metis

text \<open>Calls that change neither a task nor a key.\<close>

definition same :: "'s \<Rightarrow> 's \<Rightarrow> bool" where
  "same s s' \<longleftrightarrow> inv s' \<and> view s' = view s \<and> keys s' = keys s"

lemma same_refl: "inv s \<Longrightarrow> same s s"
  by (simp add: same_def)

lemma same_trans: "same a b \<Longrightarrow> same b c \<Longrightarrow> same a c"
  by (simp add: same_def)

lemma audit_same:
  assumes "inv (svTasks sv)"
  shows "same (svTasks sv) (svTasks (snd (sv_audit ops e e' ev sv)))"
    and "svCatalog (snd (sv_audit ops e e' ev sv)) = svCatalog sv"
proof -
  obtain r s where a: "sAppendAudit ops e ev (svTasks sv) = (r, s)" by fastforce
  have s: "inv s" "view s = view (svTasks sv)" "keys s = keys (svTasks sv)"
    using append [OF assms, of e ev] a by simp_all
  obtain q s2 l where d: "sDrainOutbox ops e' (svAudit sv) 20 s = (q, s2, l)" by (metis prod_cases3)
  have s2: "inv s2" "view s2 = view s" "keys s2 = keys s"
    using drain [OF s(1), of e' "svAudit sv" 20] d by simp_all
  show "same (svTasks sv) (svTasks (snd (sv_audit ops e e' ev sv)))"
    using a d s s2 by (cases r; cases q) (simp_all add: sv_audit_def same_def)
  show "svCatalog (snd (sv_audit ops e e' ev sv)) = svCatalog sv"
    using a d by (cases r; cases q) (simp_all add: sv_audit_def)
qed

lemma drain_same:
  assumes "inv (svTasks sv)"
  shows "same (svTasks sv) (svTasks (sv_drain ops e lim sv))"
  using drain [OF assms, of e "svAudit sv" lim] by (simp add: sv_drain_def case_prod_unfold same_def)

lemma safe_trans:
  assumes "safe m a b" and "safe m b c"
  shows "safe m a c"
proof -
  have "evolves view keys a c" using assms evolves_trans by (auto simp: safe_def)
  moreover have "int (sDepth ops c) \<le> max (int (sDepth ops a)) m" using assms unfolding safe_def by linarith
  ultimately show ?thesis using assms(2) by (simp add: safe_def)
qed

lemma safe_facts: "safe m a b \<Longrightarrow> inv b \<and> keys_live view keys b"
  by (simp add: safe_def)

lemma post_verb_safe:
  assumes "inv (svTasks sv)" and "keys_live view keys (svTasks sv)" and "henv_times h (svCatalog sv)"
    and "view (svTasks sv) (eID (hStore h 2)) = None"
    and "handlePostVerb ops h name payload sv = Some (rp, sv')"
  shows "safe (MaxQueueDepth (cDaemon (svCatalog sv))) (svTasks sv) (svTasks sv') \<and> svCatalog sv' = svCatalog sv"
proof -
  have refl: "safe (MaxQueueDepth (cDaemon (svCatalog sv))) (svTasks sv) (svTasks sv)"
    by (rule safe_refl [OF assms(1,2)])
  consider "sv' = sv" | v args stdin key argv red where
      "post_expanded ops h v args stdin key argv red sv = (rp, sv')"
    using assms(5) by (auto simp: handlePostVerb_def Let_def split: option.splits sum.splits prod.splits)
  then show ?thesis
  proof cases
    case 1
    with refl show ?thesis by simp
  next
    case 2
    with post_expanded_safe [OF assms(1-4)] show ?thesis by blast
  qed
qed

lemma post_stream_same:
  assumes "inv (svTasks sv)"
    and "handlePostStream ops h payload sv = Some (rp, sv')"
  shows "same (svTasks sv) (svTasks sv') \<and> svCatalog sv' = svCatalog sv"
proof -
  have refl: "same (svTasks sv) (svTasks sv)" by (rule same_refl [OF assms(1)])
  have same: "svTasks sv1 = svTasks sv" "svCatalog sv1 = svCatalog sv"
    if "peek_open (hSnap h) v sv = (b, sv1)" for b sv1 v
    using peek_open_simps(1,2) [of "hSnap h" v sv] that by simp_all
  have open_ok: "same (svTasks sv) (svTasks (sv_drain ops e2 20 (snd (sv_audit ops e0 e1 ev sv2)))) \<and>
      svCatalog (sv_drain ops e2 20 (snd (sv_audit ops e0 e1 ev sv2))) = svCatalog sv"
    if "svTasks sv2 = svTasks sv" "svCatalog sv2 = svCatalog sv" for sv2 e0 e1 e2 ev
  proof -
    have i: "inv (svTasks sv2)" using that assms by simp
    note a = audit_same(1) [OF i, where e = e0 and e' = e1 and ev = ev]
      audit_same(2) [OF i, where e = e0 and e' = e1 and ev = ev]
    have "inv (svTasks (snd (sv_audit ops e0 e1 ev sv2)))" using a(1) by (simp add: same_def)
    from same_trans [OF a(1) drain_same [OF this]] a(2) that show ?thesis by (simp add: sv_drain_catalog)
  qed
  consider "sv' = sv" | reg v argv red where "svStreams sv = Some reg"
      "Some (rp, sv') = Some (case peek_open (hSnap h) v sv of
         (True, sv) \<Rightarrow> (writeErr StatusServiceUnavailable ''circuit_open'' [], sv)
       | (False, sv) \<Rightarrow>
           (case Start (hSpawnFault h) (hStreamID h) v argv reg of
              (Inl err, reg) \<Rightarrow>
                (writeErr StatusInternalServerError ''stream_start_failed'' [],
                 (snd (sv_breaker v (\<lambda>b. ((), Failure (hFail h) b)) sv))\<lparr>svStreams := Some reg\<rparr>)
            | (Inr st, reg) \<Rightarrow>
                (let sv = (snd (sv_breaker v (\<lambda>b. ((), Success b)) sv))\<lparr>svStreams := Some reg\<rparr>;
                     sv = snd (sv_audit ops (hStore h 0) (hStore h 1)
                            (api_event (stID st) v ''stream_open'' red None 0 []) sv);
                     sv = sv_drain ops (hStore h 2) 20 sv
                 in (writeJSON StatusAccepted (VMap
                       [(''stream_id'', VStr (stID st)), (''verb'', VStr (stVerb st))]), sv))))"
  proof (cases "svStreams sv")
    case None
    with assms(2) show ?thesis by (intro that(1)) (simp add: handlePostStream_def)
  next
    case reg: (Some reg)
    show ?thesis
    proof (cases "decode_stream payload")
      case None
      with assms(2) reg show ?thesis by (intro that(1)) (simp add: handlePostStream_def)
    next
      case body: (Some body)
      show ?thesis
      proof (cases "Get (svCatalog sv) (sbVerb body)")
        case None
        with assms(2) reg body show ?thesis by (intro that(1)) (simp add: handlePostStream_def Let_def)
      next
        case v: (Some v)
        show ?thesis
        proof (cases "isStreamVerb v")
          case False
          with assms(2) reg body v show ?thesis by (intro that(1)) (simp add: handlePostStream_def Let_def)
        next
          case stream: True
          show ?thesis
          proof (cases "expandArgv v (case sbArgs body of None \<Rightarrow> [] | Some m \<Rightarrow> m) []")
            case None
            with assms(2) reg body v stream show ?thesis by (simp add: handlePostStream_def Let_def)
          next
            case x: (Some r)
            show ?thesis
            proof (cases r)
              case (Inl e)
              with assms(2) reg body v stream x show ?thesis
                by (intro that(1)) (simp add: handlePostStream_def Let_def)
            next
              case (Inr q)
              obtain argv red where "q = (argv, red)" by (cases q)
              with assms(2) reg body v stream x Inr show ?thesis
                by (intro that(2) [OF reg, where v = v and argv = argv and red = red]) (simp add: handlePostStream_def Let_def)
            qed
          qed
        qed
      qed
    qed
  qed
  then show ?thesis
  proof cases
    case 1
    with refl show ?thesis by simp
  next
    case 2
    obtain b sv1 where pk: "peek_open (hSnap h) v sv = (b, sv1)" by (cases "peek_open (hSnap h) v sv")
    obtain r reg' where st: "Start (hSpawnFault h) (hStreamID h) v argv reg = (r, reg')" by fastforce
    have s: "svTasks ((snd (sv_breaker v f sv1))\<lparr>svStreams := q\<rparr>) = svTasks sv"
      "svCatalog ((snd (sv_breaker v f sv1))\<lparr>svStreams := q\<rparr>) = svCatalog sv"
      for f :: "breaker \<Rightarrow> unit \<times> breaker" and q
      using same [OF pk] by simp_all
    show ?thesis
    proof (cases b)
      case True
      with 2(2) pk same [OF pk] refl show ?thesis by simp
    next
      case b: False
      show ?thesis
      proof (cases r)
        case (Inl e)
        with 2(2) pk b st s refl show ?thesis by simp
      next
        case (Inr w)
        with 2(2) pk b st have "sv' = sv_drain ops (hStore h 2) 20 (snd (sv_audit ops (hStore h 0) (hStore h 1)
            (api_event (stID w) v ''stream_open'' red None 0 [])
            ((snd (sv_breaker v (\<lambda>b. ((), Success b)) sv1))\<lparr>svStreams := Some reg'\<rparr>)))"
          by (simp add: Let_def)
        with open_ok [OF s] show ?thesis by simp
      qed
    qed
  qed
qed

lemma delete_stream_same:
  assumes "inv (svTasks sv)"
  shows "same (svTasks sv) (svTasks (snd (handleDeleteStream ops h sid sv)))"
    and "svCatalog (snd (handleDeleteStream ops h sid sv)) = svCatalog sv"
proof -
  have refl: "same (svTasks sv) (svTasks sv)" by (rule same_refl [OF assms])
  have a: "same (svTasks sv) (svTasks (snd (sv_audit ops e e' ev (sv\<lparr>svStreams := r\<rparr>))))"
    "svCatalog (snd (sv_audit ops e e' ev (sv\<lparr>svStreams := r\<rparr>))) = svCatalog sv" for e e' ev r
    using audit_same(1) [of "sv\<lparr>svStreams := r\<rparr>", where e = e and e' = e' and ev = ev]
      audit_same(2) [of "sv\<lparr>svStreams := r\<rparr>", where e = e and e' = e' and ev = ev] assms by simp_all
  show "same (svTasks sv) (svTasks (snd (handleDeleteStream ops h sid sv)))"
    "svCatalog (snd (handleDeleteStream ops h sid sv)) = svCatalog sv"
    using a refl by (auto simp: handleDeleteStream_def Let_def split: option.split prod.split)
qed

text \<open>No request but a post of a verb changes a task or a key.\<close>

lemma mux_same:
  assumes "inv (svTasks sv)" and "mux ops h req sv = Some (rp, sv')" and "\<forall>name payload. req \<noteq> ReqPostVerb name payload"
  shows "same (svTasks sv) (svTasks sv') \<and> svCatalog sv' = svCatalog sv"
proof (cases req)
  case (ReqPostStream payload)
  with assms(2) post_stream_same [OF assms(1)] show ?thesis by simp
next
  case (ReqDeleteStream sid)
  with assms(2) delete_stream_same(1) [OF assms(1), where h = h and sid = sid]
    delete_stream_same(2) [OF assms(1), where h = h and sid = sid] show ?thesis by auto
next
  case ReqHealth
  with assms(2) have "svTasks sv' = svTasks sv \<and> svCatalog sv' = svCatalog sv"
    by (auto simp: handleHealth_def Let_def split: option.splits prod.splits)
  with same_refl [OF assms(1)] show ?thesis by simp
qed (use assms same_refl [OF assms(1)] in auto)

lemma handler_safe:
  assumes "inv (svTasks sv)" and "keys_live view keys (svTasks sv)" and "henv_times h (svCatalog sv)"
    and "view (svTasks sv) (eID (hStore h 2)) = None" and "Handler ops h header req sv = Some (rp, sv')"
  shows "safe (MaxQueueDepth (cDaemon (svCatalog sv))) (svTasks sv) (svTasks sv') \<and> svCatalog sv' = svCatalog sv"
proof (cases "Valid (svToken sv) header")
  case False
  with assms(5) safe_refl [OF assms(1,2)] show ?thesis by (auto simp: Handler_def withAuth_def)
next
  case True
  then have m: "mux ops h req sv = Some (rp, sv')" using assms(5) by (simp add: Handler_def withAuth_def)
  show ?thesis
  proof (cases "\<exists>name payload. req = ReqPostVerb name payload")
    case True
    with m post_verb_safe [OF assms(1-4)] show ?thesis by auto
  next
    case False
    with mux_same [OF assms(1) m] safe_same [OF assms(1,2)] show ?thesis by (auto simp: same_def)
  qed
qed

lemma failed_starts_quiet: "failed_starts ops s s' \<Longrightarrow> inv s \<Longrightarrow> quiet s s'"
proof (induction rule: failed_starts.induct)
  case (none s)
  then show ?case by (rule quiet_refl)
next
  case (again s s1 es now st err s2)
  then have q: "quiet s s1" by blast
  then have "inv s1" by (simp add: quiet_def)
  from quiet_trans [OF q resume_any [OF this again(2,3)]] show ?case .
qed

text \<open>One step of the daemon, then any number of them.\<close>

lemma daemon_step_safe:
  assumes "inv (svTasks (rnServer rn))" and "keys_live view keys (svTasks (rnServer rn))"
    and "daemon_step ops rn rn'"
  shows "safe (capacity rn) (svTasks (rnServer rn)) (svTasks (rnServer rn')) \<and>
    svCatalog (rnServer rn') = svCatalog (rnServer rn)"
proof (cases rule: daemon_stepE [OF assms(3), case_names request worker restart])
  case (request h e header req rp sv')
  with get [OF assms(1) request(3), of "eID (hStore h 2)"]
  have "view (svTasks (rnServer rn)) (eID (hStore h 2)) = None" by simp
  from handler_safe [OF assms(1,2) request(2) this request(5)] show ?thesis
    by (simp add: request(1) capacity_def)
next
  case (worker e1 x now e0)
  have s: "wStore (worker_state rn) = svTasks (rnServer rn)" by (simp add: worker_state_def)
  have "quiet (svTasks (rnServer rn)) (wStore (tick ops (worker_defaults (rnWorker rn)) now e0 e1 x (worker_state rn)))"
    using tick_any [of "worker_state rn", OF _ worker(2,3), of now e0] assms(1) only_changes_waiting
    by (auto simp: quiet_def s)
  from safe_quiet [OF assms(1,2) this, of "capacity rn"] show ?thesis
    by (simp add: worker(1) after_worker_def)
next
  case (restart s1 es now st s' syncExec tok alog)
  have q: "quiet (svTasks (rnServer rn)) s1" by (rule failed_starts_quiet [OF restart(2) assms(1)])
  then have "inv s1" by (simp add: quiet_def)
  from safe_quiet [OF assms(1,2) quiet_trans [OF q resume_any [OF this restart(3,4)]], of "capacity rn"]
  show ?thesis by (simp add: restart(1) build_def New_server_def)
qed

lemma daemon_run_safe:
  assumes "daemon_run ops rn rn'" and "inv (svTasks (rnServer rn))" and "keys_live view keys (svTasks (rnServer rn))"
  shows "safe (capacity rn) (svTasks (rnServer rn)) (svTasks (rnServer rn')) \<and>
    svCatalog (rnServer rn') = svCatalog (rnServer rn)"
  using assms
proof (induction rule: rtranclp_induct)
  case base
  then show ?case by (simp add: safe_refl)
next
  case (step y z)
  from step have s: "safe (capacity rn) (svTasks (rnServer rn)) (svTasks (rnServer y))"
    "svCatalog (rnServer y) = svCatalog (rnServer rn)" by blast+
  from s(2) have "capacity y = capacity rn" by (simp add: capacity_def)
  with safe_facts [OF s(1)] daemon_step_safe [of y z] step(2) s(2) show ?case
    using safe_trans [OF s(1)] by metis
qed

text \<open>The effect of an accepted post and of a clean start, for every store interpreted so far.\<close>

lemmas accepted_post = post_fresh

lemmas clean_resume = resume_effect

text \<open>A key that was accepted once answers with its task for good.\<close>

lemma replay_after_run:
  assumes "inv (svTasks (rnServer rn))" and "keys_live view keys (svTasks (rnServer rn))"
    and "keys (svTasks (rnServer rn)) key = Some b" and "key \<noteq> []"
    and "daemon_run ops rn rn2" and "henv_ok h cat"
  obtains t where "view (svTasks (rnServer rn2)) (iTaskID b) = Some t"
    "\<And>v args stdin argv red.
       post_expanded ops h v args stdin key argv red (rnServer rn2) =
         (if iVerb b = vName v \<and> iHash b = idempotencyHash (hSha h) (vName v) args stdin
          then (replay_answer t, rnServer rn2)
          else (writeErr StatusConflict ''idempotency_conflict'' [], rnServer rn2))"
proof -
  have s: "safe (capacity rn) (svTasks (rnServer rn)) (svTasks (rnServer rn2))"
    using daemon_run_safe [OF assms(5,1,2)] by blast
  from assms(3) s have bound: "keys (svTasks (rnServer rn2)) key = Some b" by (simp add: safe_def evolves_def)
  have ok: "inv (svTasks (rnServer rn2))" "keys_live view keys (svTasks (rnServer rn2))" using safe_facts [OF s] by simp_all
  from ok(2) bound obtain t where t: "view (svTasks (rnServer rn2)) (iTaskID b) = Some t" by (auto simp: keys_live_def)
  have "env_ok (hStore h 1)" using assms(6) by (simp add: henv_ok_def)
  from get_found [OF ok(1) this t] obtain t1 where
    g: "sGet ops (hStore h 1) (iTaskID b) (svTasks (rnServer rn2)) = Some t1" "core t1 = core t" .
  have "replay_answer t1 = replay_answer t" using core_eqD(1,3) [OF g(2)] by (simp add: task_answer_def)
  with t prior_found [OF ok(1) assms(6,4) bound] g(1) show thesis
    by (intro that [OF t]) (simp add: post_expanded_def Let_def)
qed

end

subsection \<open>The promises of the daemon\<close>

text \<open>A daemon that serves has a well-formed database.\<close>

lemma serves_sound:
  assumes "run_daemon fl mc = (Serve rn0, disk, d)" and "\<forall>p n. year_ok (eNow (mcStore mc p n))"
    and "\<forall>p. sq_ok (mcDb mc p) \<and> keys_live sq_view sq_keys (mcDb mc p)"
  shows "sq_ok (svTasks (rnServer rn0))" and "keys_live sq_view sq_keys (svTasks (rnServer rn0))"
proof -
  obtain st d0 p where o: "OpenSQLite (mcDbFault mc) (mcJournalMode mc) (mcSynchronous mc) (mcDb mc p) = Some d0"
    and r: "Resume sqlite_ops (mcStore mc) (mcNow mc) d0 = ((st, None), svTasks (rnServer rn0))"
    using start_serves [OF assms(1)] by metis
  from o have "d0 = mcDb mc p" by (auto simp: OpenSQLite_def split: if_splits)
  with assms(3) have ok: "sq_ok d0" "keys_live sq_view sq_keys d0" by simp_all
  from sql.safe_facts [OF sql.safe_quiet [OF ok sql.resume_any [OF ok(1) assms(2) r], where m = 0]]
  show "sq_ok (svTasks (rnServer rn0))" "keys_live sq_view sq_keys (svTasks (rnServer rn0))" by simp_all
qed

text \<open>What holds between any two states of a run.\<close>

lemma daemon_stays_safe:
  assumes "run_daemon fl mc = (Serve rn0, disk, d)" and "daemon_run sqlite_ops rn0 rn"
    and "daemon_run sqlite_ops rn rn'" and "\<forall>p n. year_ok (eNow (mcStore mc p n))"
    and "\<forall>p. sq_ok (mcDb mc p) \<and> keys_live sq_view sq_keys (mcDb mc p)"
  shows "sql.safe (capacity rn0) (svTasks (rnServer rn0)) (svTasks (rnServer rn'))"
    and "sql.safe (capacity rn0) (svTasks (rnServer rn)) (svTasks (rnServer rn'))"
proof -
  note s = sql.daemon_run_safe [OF assms(2) serves_sound [OF assms(1,4,5)]]
  then have ok: "sq_ok (svTasks (rnServer rn))" "keys_live sq_view sq_keys (svTasks (rnServer rn))"
    using sql.safe_facts by blast+
  from s have "capacity rn = capacity rn0" by (simp add: capacity_def)
  with sql.daemon_run_safe [OF assms(3) ok]
  show t: "sql.safe (capacity rn0) (svTasks (rnServer rn)) (svTasks (rnServer rn'))" by simp
  from sql.safe_trans [OF _ t] s
  show "sql.safe (capacity rn0) (svTasks (rnServer rn0)) (svTasks (rnServer rn'))" by blast
qed

text \<open>
  C1: The daemon keeps its promises over its whole life, whatever fails. Started on a database of this
  program and then taken through any sequence of requests, worker rounds and restarts, in which any
  database call may fail, a crash may cut any step short and a restart may give up half way, it
  never has more live tasks than the larger of the configured capacity and the number it started
  with. Between any two states of such a run no task is lost, a task that a step left in a final state
  is never changed again, an idempotency key stays bound to the task it was bound to and that task
  exists, and the database stays well formed.
\<close>

theorem daemon_keeps_promises:
  assumes "run_daemon fl mc = (Serve rn0, disk, d)" and "daemon_run sqlite_ops rn0 rn"
    and "daemon_run sqlite_ops rn rn'" and "\<forall>p n. year_ok (eNow (mcStore mc p n))"
    and "\<forall>p. sq_ok (mcDb mc p) \<and> keys_live sq_view sq_keys (mcDb mc p)"
  shows "sq_ok (svTasks (rnServer rn')) \<and>
    int (sq_Depth (svTasks (rnServer rn'))) \<le> max (int (sq_Depth (svTasks (rnServer rn0)))) (capacity rn0) \<and>
    (\<forall>tid t. sq_view (svTasks (rnServer rn)) tid = Some t \<longrightarrow>
       (\<exists>t'. sq_view (svTasks (rnServer rn')) tid = Some t' \<and> (terminal_state (tState t) \<longrightarrow> t' = t))) \<and>
    (\<forall>key b. sq_keys (svTasks (rnServer rn)) key = Some b \<longrightarrow> sq_keys (svTasks (rnServer rn')) key = Some b) \<and>
    (\<forall>key b. sq_keys (svTasks (rnServer rn')) key = Some b \<longrightarrow> sq_view (svTasks (rnServer rn')) (iTaskID b) \<noteq> None)"
  using daemon_stays_safe [OF assms] by (simp add: sql.safe_def evolves_def keys_live_def)

text \<open>A concrete daemon: one verb, no files yet, an empty database.\<close>

definition demo_flags :: cli_flags where
  "demo_flags = \<lparr>flVersion = False, flCatalog = ''verbs.yaml'', flValidate = False, flToken = ''.agent-token'',
     flDataDir = ''.'', flAudit = [], flDb = [], flSync = False\<rparr>"

definition demo_machine :: machine where
  "demo_machine = \<lparr>mcBesideExe = None, mcIsFile = (\<lambda>p. True), mcReadFile = (\<lambda>p. Some ''doc''),
     mcDecode = (\<lambda>init doc. Inr (init\<lparr>fVersion := 1, fVerbs := [wifi_verb]\<rparr>)), mcNodes = (\<lambda>s. None),
     mcRemarshal = (\<lambda>w. Inl []), mcFaults = no_faults, mcRandom = [CHR 0xAB], mcDisk = [],
     mcAuditMkdirFault = False, mcAuditDir = ''logs'', mcAuditOpenFault = False, mcAuditFile = (\<lambda>p. []),
     mcDbDirFault = False, mcDbFault = False, mcJournalMode = ''wal'', mcSynchronous = 2,
     mcDb = (\<lambda>p. empty_db), mcStore = (\<lambda>p n. clock_env 0 ''t''), mcNow = 0\<rparr>"

definition demo_stats :: resume_stats where
  "demo_stats = \<lparr>ExecutingToPending = 0, PendingKept = 0, RetryDue = 0, RetryFuture = 0\<rparr>"

definition demo_log :: logger where
  "demo_log = \<lparr>logPath = ''logs/audit.log'', logFile = Some [], Mem = [], MemOnly = False\<rparr>"

definition demo_running :: "db running" where
  "demo_running = build False 0 wifi_catalog \<lparr>raw = ''ab''\<rparr> (Some demo_log) demo_stats empty_db"

lemma demo_resume: "Resume sqlite_ops (\<lambda>p n. clock_env 0 ''t'') 0 empty_db = ((demo_stats, None), empty_db)"
  unfolding demo_stats_def by code_simp

lemma demo_starts: "fst (run_daemon (Some demo_flags) demo_machine) = Serve demo_running"
proof -
  have p: "path_join (flDataDir demo_flags) (flToken demo_flags) = ''.agent-token''"
    "path_join (path_join (flDataDir demo_flags) ''logs'') ''audit.log'' = ''logs/audit.log''" by code_simp+
  obtain files where t: "LoadOrCreate (mcFaults demo_machine) (mcRandom demo_machine) ''.agent-token''
      (mcDisk demo_machine) = (Inr \<lparr>raw = ''ab''\<rparr>, files)"
    using create_example by (simp add: demo_machine_def)
  have l: "Load (mcReadFile demo_machine) (mcDecode demo_machine) (mcNodes demo_machine) (mcRemarshal demo_machine)
      ''verbs.yaml'' = Inr wifi_catalog" using wifi_catalog_loads by (simp add: demo_machine_def)
  have o: "OpenSQLite (mcDbFault demo_machine) (mcJournalMode demo_machine) (mcSynchronous demo_machine)
      (mcDb demo_machine q) = Some empty_db" for q
    by (simp add: OpenSQLite_def demo_machine_def to_lower_def lower_char_def)
  have a: "Open_log (mcAuditMkdirFault demo_machine) (mcAuditDir demo_machine) (mcAuditOpenFault demo_machine)
      ''logs/audit.log'' (mcAuditFile demo_machine ''logs/audit.log'') = Some demo_log"
    by (simp add: Open_log_def demo_machine_def demo_log_def)
  have r: "Resume sqlite_ops (mcStore demo_machine) 0 empty_db = ((demo_stats, None), empty_db)"
    using demo_resume by (simp add: demo_machine_def)
  have f: "flAudit demo_flags = []" "\<not> IsAbs (flToken demo_flags)" "\<not> flVersion demo_flags" "\<not> flValidate demo_flags"
    "\<not> mcDbDirFault demo_machine" "flSync demo_flags = False" "mcNow demo_machine = 0"
    "ResolvePath (mcBesideExe demo_machine) (mcIsFile demo_machine) (flCatalog demo_flags) = Some ''verbs.yaml''"
    by (simp_all add: demo_flags_def demo_machine_def ResolvePath_def IsAbs_def has_prefix_def)
  show ?thesis
    by (simp add: run_daemon_def start_daemon_def Let_def f p t l o a r demo_running_def)
qed

lemma peek_new:
  assumes "svCircuits sv = Some (NewRegistry tr op)"
  shows "\<not> fst (peek_open now v sv)"
  using assms
  by (auto simp: peek_open_def breakerFor_def For_def NewRegistry_def sv_breaker_def on_breaker_def Let_def
      Snapshot_def New_def maybeTransitionLocked_def split: prod.splits option.splits)

text \<open>Executing requests inline, it runs a keyed request at once.\<close>

definition demo_inline :: "db running" where
  "demo_inline = build True 0 wifi_catalog \<lparr>raw = ''ab''\<rparr> None demo_stats empty_db"

lemma demo_inline_simps:
  "svTasks (rnServer demo_inline) = empty_db" "svCatalog (rnServer demo_inline) = wifi_catalog"
  "svSyncExec (rnServer demo_inline)" "svToken (rnServer demo_inline) = Some \<lparr>raw = ''ab''\<rparr>"
  "svCircuits (rnServer demo_inline) = Some (NewRegistry (CBTripThreshold (cDaemon wifi_catalog)) (seconds (CBOpenS (cDaemon wifi_catalog))))"
  by (simp_all add: demo_inline_def build_def New_server_def)

lemma demo_executes:
  "\<exists>rn t b. daemon_step sqlite_ops demo_inline rn \<and> sq_ok (svTasks (rnServer rn)) \<and>
     sq_view (svTasks (rnServer rn)) ''t1'' = Some t \<and> tState t = StateExecuted \<and>
     sq_keys (svTasks (rnServer rn)) ''k1'' = Some b \<and> iTaskID b = ''t1'' \<and> svCatalog (rnServer rn) = wifi_catalog"
proof -
  let ?sv = "rnServer demo_inline" and ?h = "demo_henv ''t1''"
  note c = demo_inline_simps
  have id: "eID (hStore ?h 2) = ''t1''" "\<And>k. env_ok (hStore ?h k)" using demo_henv_ok [of "''t1''"]
    by (simp_all add: demo_henv_def clock_env_def henv_ok_def)
  have e: "sq_ok (svTasks ?sv)" "''k1'' = [] \<or> sq_keys (svTasks ?sv) ''k1'' = None" "sq_view (svTasks ?sv) (eID (hStore ?h 2)) = None"
    using sq_ok_empty unfolding c(1) by (simp_all add: sq_keys_def sq_view_def find_idem_def scanOne_def find_row_def empty_db_def)
  have room: "int (sDepth sqlite_ops (svTasks ?sv)) < MaxQueueDepth (cDaemon (svCatalog ?sv))"
    unfolding c(1,2) by (simp add: sq_Depth_def empty_db_def wifi_catalog_def Default_def)
  note p = demo_parsed(1) [folded c(2)]
  let ?args = "request_args wifi_verb (pbArgs (keyed_body []))"
  from sql.accepted_post [OF e(1) demo_henv_ok e(2) peek_new [OF c(5)] room e(3), of wifi_verb ?args "[]"
      "[''termux-wifi-connectioninfo'']" "[redact_token [] [] wifi_token]"]
  obtain sv' t u b where r: "post_expanded sqlite_ops ?h wifi_verb ?args [] ''k1'' [''termux-wifi-connectioninfo'']
        [redact_token [] [] wifi_token] ?sv = (task_answer StatusAccepted t [], sv')"
      "sq_ok (svTasks sv')" "sq_view (svTasks sv') (eID (hStore ?h 2)) = Some t" "svCatalog sv' = svCatalog ?sv"
      "sq_keys (svTasks sv') = (sq_keys (svTasks ?sv))(''k1'' \<mapsto> b)" "iTaskID b = eID (hStore ?h 2)"
    and t: "core t = core ((pipeline_change ?h ?sv wifi_verb [''termux-wifi-connectioninfo''] []
      (new_task (hStore ?h 2) (post_input (svCatalog ?sv) wifi_verb ?args [] [''termux-wifi-connectioninfo'']
        [redact_token [] [] wifi_token])))\<lparr>tUpdatedAt := u\<rparr>)" by auto
  have st: "tState t = StateExecuted"
    using core_eqD(3) [OF t] c(3)
    by (simp add: pipeline_change_def sync_change_def Let_def demo_henv_def demo_os_def Run_def outcome_of_def sync_ok_def)
  have "Valid (svToken ?sv) ''ab''" unfolding c(4) by code_simp
  then have "Handler sqlite_ops ?h ''ab'' (ReqPostVerb ''wifi.info'' keyed_payload) ?sv = Some (task_answer StatusAccepted t [], sv')"
    using handlePostVerb_parsed [OF p, of sqlite_ops ?h] r(1) by (simp add: Handler_def withAuth_def keyed_body_def)
  moreover have "sGet sqlite_ops (hStore ?h 0) (eID (hStore ?h 2)) (svTasks ?sv) = None"
    using sql.get [OF e(1) id(2), of 0 "eID (hStore ?h 2)"] e(3) by simp
  ultimately have "daemon_step sqlite_ops demo_inline (demo_inline\<lparr>rnServer := sv'\<rparr>)"
    by (intro daemon_step.request [OF henv_ok_times [OF demo_henv_ok] id(2)])
  with r st c(2) show ?thesis unfolding id(1) by (intro exI [of _ "demo_inline\<lparr>rnServer := sv'\<rparr>"]) auto
qed

theorem daemon_keeps_promises_witness:
  "\<exists>rn rn' t b. daemon_run sqlite_ops demo_running rn \<and> daemon_step sqlite_ops rn rn' \<and>
     sq_view (svTasks (rnServer rn)) ''t1'' = Some t \<and> tState t = StateExecuted \<and>
     sq_keys (svTasks (rnServer rn)) ''k1'' = Some b \<and> sq_ok (svTasks (rnServer rn')) \<and>
     sq_view (svTasks (rnServer rn')) ''t1'' = Some t \<and> sq_keys (svTasks (rnServer rn')) ''k1'' = Some b"
proof -
  obtain disk d where s: "run_daemon (Some demo_flags) demo_machine = (Serve demo_running, disk, d)"
    using demo_starts by (metis prod.collapse)
  have e: "svTasks (rnServer demo_running) = empty_db" "svCatalog (rnServer demo_running) = wifi_catalog"
    by (simp_all add: demo_running_def build_def New_server_def)
  have env: "\<forall>p n. year_ok (eNow (mcStore demo_machine p n))" "\<forall>p n. year_ok (eNow (clock_env 0 ''t''))"
    "\<forall>p n. env_ok (clock_env 0 ''t'')"
    by (simp_all add: demo_machine_def clock_env_def year_ok_0 env_ok_def)
  have db: "\<forall>p. sq_ok (mcDb demo_machine p) \<and> keys_live sq_view sq_keys (mcDb demo_machine p)"
    using sq_ok_empty by (simp add: demo_machine_def keys_live_def sq_keys_def find_idem_def empty_db_def)
  have first: "daemon_step sqlite_ops demo_running demo_inline"
    unfolding demo_inline_def e(2) [symmetric]
    using env(2) demo_resume e(1) by (intro daemon_step.restart [OF failed_starts.none, of "\<lambda>p n. clock_env 0 ''t''"]) simp_all
  obtain rn t b where rn: "daemon_step sqlite_ops demo_inline rn" "sq_ok (svTasks (rnServer rn))"
      "sq_view (svTasks (rnServer rn)) ''t1'' = Some t" "tState t = StateExecuted" "sq_keys (svTasks (rnServer rn)) ''k1'' = Some b"
    using demo_executes by blast
  have run: "daemon_run sqlite_ops demo_running rn" using first rn(1) by (meson converse_rtranclp_into_rtranclp r_into_rtranclp)
  obtain st s' where "Resume sqlite_ops (\<lambda>p n. clock_env 0 ''t'') 0 (svTasks (rnServer rn)) = ((st, None), s')"
    using sql.clean_resume [OF rn(2), of "\<lambda>p n. clock_env 0 ''t''" 0] env(3) by auto
  from daemon_step.restart [OF failed_starts.none env(2) this]
  obtain rn' where step: "daemon_step sqlite_ops rn rn'" by blast
  from daemon_keeps_promises [OF s run r_into_rtranclp [where r = "daemon_step sqlite_ops", OF step] env(1) db] rn(3-5)
  have "sq_ok (svTasks (rnServer rn'))" "sq_view (svTasks (rnServer rn')) ''t1'' = Some t"
    "sq_keys (svTasks (rnServer rn')) ''k1'' = Some b" by fastforce+
  with run step rn(3-5) show ?thesis by blast
qed



end
