(* ===== verification/Threads.thy ===== *)
theory Threads
  imports Main
begin

text \<open>
  A goroutine as a program over a shared state: it is done, or its next action reads and changes the
  state in one step and says how it goes on. Run alone a program is a function; several programs
  interleave action by action.
\<close>

datatype ('g, 'a) prog = Ret 'a | Act "'g \<Rightarrow> 'g \<times> ('g, 'a) prog"

primrec seq :: "('g, 'a) prog \<Rightarrow> ('a \<Rightarrow> ('g, 'b) prog) \<Rightarrow> ('g, 'b) prog" where
  "seq (Ret a) f = f a"
| "seq (Act k) f = Act (\<lambda>g. map_prod id (\<lambda>p. seq p f) (k g))"

text \<open>Induction over all ways a program can go on.\<close>

lemma prog_induct [case_names Ret Act]:
  assumes "\<And>a. P (Ret a)" and "\<And>k. (\<And>g. P (snd (k g))) \<Longrightarrow> P (Act k)"
  shows "P p"
proof (induction p)
  case (Act k)
  have "P (snd (k g))" for g by (rule Act [of "k g"]) (simp_all add: prod_set_defs)
  then show ?case by (rule assms(2))
qed (rule assms(1))

definition act :: "('g \<Rightarrow> 'a \<times> 'g) \<Rightarrow> ('g, 'a) prog" where
  "act f = Act (\<lambda>g. case f g of (a, g') \<Rightarrow> (g', Ret a))"

definition upd :: "('g \<Rightarrow> 'g) \<Rightarrow> ('g, unit) prog" where
  "upd f = act (\<lambda>g. ((), f g))"

text \<open>The program run alone.\<close>

primrec exec :: "('g, 'a) prog \<Rightarrow> 'g \<Rightarrow> 'a \<times> 'g" where
  "exec (Ret a) = (\<lambda>g. (a, g))"
| "exec (Act k) = (\<lambda>g. case map_prod id exec (k g) of (g', e) \<Rightarrow> e g')"

text \<open>A program on one part of a larger state.\<close>

primrec on_part :: "('h \<Rightarrow> 'g) \<Rightarrow> ('g \<Rightarrow> 'h \<Rightarrow> 'h) \<Rightarrow> ('g, 'a) prog \<Rightarrow> ('h, 'a) prog" where
  "on_part rd wr (Ret a) = Ret a"
| "on_part rd wr (Act k) =
     Act (\<lambda>h. case map_prod id (on_part rd wr) (k (rd h)) of (g, p) \<Rightarrow> (wr g h, p))"

lemma exec_seq [simp]: "exec (seq p f) g = (case exec p g of (a, g') \<Rightarrow> exec (f a) g')"
proof (induction p arbitrary: g rule: prog_induct)
  case (Act k)
  then show ?case by (simp add: map_prod_def case_prod_unfold)
qed simp

lemma exec_act [simp]: "exec (act f) g = f g" "exec (upd h) g = ((), h g)"
  by (simp_all add: act_def upd_def split: prod.split)

lemma exec_on_part:
  assumes "\<And>g h. rd (wr g h) = g" and "\<And>g g' h. wr g' (wr g h) = wr g' h" and "\<And>h. wr (rd h) h = h"
  shows "exec (on_part rd wr p) h = (case exec p (rd h) of (a, g) \<Rightarrow> (a, wr g h))"
proof (induction p arbitrary: h rule: prog_induct)
  case (Ret a)
  then show ?case by (simp add: assms)
next
  case (Act k)
  then show ?case by (simp add: assms map_prod_def case_prod_unfold)
qed

end
