(* ===== verification/Steps.thy ===== *)
theory Steps
  imports Api_Facts Threads
begin

text \<open>
  The worker's round and the handler of a post split at their calls: every call of the Store, of a
  breaker or of the outbox is one action, and what happens between two actions depends only on their
  results and on the inputs of the thread. Run alone, each program is the function that models the
  code (the \<open>exec\<close> lemmas). The other handlers change no task and are one action.
\<close>

subsection \<open>The worker\<close>

definition attempt_prog ::
  "'s store_ops \<Rightarrow> worker \<Rightarrow> exec_env \<Rightarrow> verb \<Rightarrow> task \<Rightarrow> ('s wstate, unit) prog" where
  "attempt_prog ops wk x v task =
     (let tier = vTier v; n = tAttempt task; tid = tID task;
          res = Run (xOS x) (task_argv task) (tStdinBlob task) (verb_timeout (wCatalog wk) v);
          lat = milliseconds (time_sub (xEnd x) (xStart x));
          out = worker_scrub (rStdout res) (tStdinBlob task);
          err = worker_scrub (rStderr res) (tStdinBlob task);
          (outcome, msg) = outcome_of res;
          ec = rExitCode res
      in seq (upd (w_update ops (xStore x 1) tid set_executing
                 (task_event task tier (state_name StateExecuting) None 0 n []))) (\<lambda>_.
         seq (upd (\<lambda>w. w\<lparr>wStore := snd (sRecordAttempt ops (xStore x 2) tid n (xStart x) (xEnd x) (Some ec)
                                      outcome msg (wStore w))\<rparr>)) (\<lambda>_.
         if outcome = ''ok'' then
           seq (upd (w_update ops (xStore x 3) tid
                  (set_ok ec out err (if json_parser v then fst (ParseJSON (rStdout res)) else VNil))
                  (task_event task tier (state_name StateExecuted) (Some ec) lat n []))) (\<lambda>_.
           upd (w_breaker (tVerb task) Success))
         else
           seq (upd (w_breaker (tVerb task) (Failure (xFail x)))) (\<lambda>_.
           if ShouldExhaust n (effective_retries (wCatalog wk) task) then
             seq (upd (w_update ops (xStore x 3) tid (set_exhausted outcome ec out err msg)
                    (task_event task tier (state_name StateExhausted) (Some ec) lat n msg))) (\<lambda>_.
             upd (\<lambda>w. w\<lparr>wNotifier := snd (Exhausted (xOS x) (tVerb task) tid (n + 1) (wNotifier w))\<rparr>))
           else
             upd (w_update ops (xStore x 3) tid
               (set_retry outcome ec out err msg (n + 1)
                 (xRetryNow x + DelayAfterFailure (xRand x) (wBackoffBase wk) n (wMaxJitter wk)))
               (task_event task tier ''will-retry'' (Some ec) lat n msg))))))"

lemma exec_attempt: "exec (attempt_prog ops wk x v task) w = ((), run_attempt ops wk x v task w)"
  unfolding attempt_prog_def run_attempt_def Let_def by (simp split: prod.split)

definition body_prog ::
  "'s store_ops \<Rightarrow> worker \<Rightarrow> exec_env \<Rightarrow> task \<Rightarrow> ('s wstate, unit) prog" where
  "body_prog ops wk x task =
     (case Get (wCatalog wk) (tVerb task) of
        None \<Rightarrow>
          upd (w_update ops (xStore x 0) (tID task) set_unknown_verb
            (task_event task [] (state_name StateExhausted) None 0 0 ''unknown verb in catalog''))
      | Some v \<Rightarrow>
          (let perVerb = (case vCBThreshold v of Some n \<Rightarrow> n | None \<Rightarrow> 0)
           in seq (upd (\<lambda>w. w\<lparr>wCircuits := map_option (\<lambda>r. snd (For (tVerb task) perVerb r)) (wCircuits w)\<rparr>)) (\<lambda>_.
              seq (act (\<lambda>w. case wCircuits w of
                         None \<Rightarrow> (True, w)
                       | Some r \<Rightarrow>
                           (case on_breaker (tVerb task) (Allow (xAllow x) (xGrant x)) r of
                              (allowed, r) \<Rightarrow> (allowed \<noteq> Some False, w\<lparr>wCircuits := Some r\<rparr>)))) (\<lambda>allowed.
              if allowed then attempt_prog ops wk x v task
              else upd (w_update ops (xStore x 0) (tID task) (set_circuit_open (xOpenNow x + second))
                     (task_event task (vTier v) ''circuit_open'' None 0 0 ''circuit_open''))))))"

lemma exec_body: "exec (body_prog ops wk x task) w = ((), execute_body ops wk x task w)"
proof (cases "wCircuits w")
  case None
  then have "w\<lparr>wCircuits := None\<rparr> = w" by simp
  then have "run_attempt ops wk x v task (w\<lparr>wCircuits := None\<rparr>) = run_attempt ops wk x v task w" for v
    by (rule arg_cong)
  with None show ?thesis by (simp add: body_prog_def execute_body_def Let_def exec_attempt split: option.split)
next
  case (Some r)
  then show ?thesis
    by (simp add: body_prog_def execute_body_def Let_def exec_attempt split: option.split prod.split)
qed

definition round_prog ::
  "'s store_ops \<Rightarrow> worker \<Rightarrow> time \<Rightarrow> env \<Rightarrow> env \<Rightarrow> exec_env \<Rightarrow> ('s wstate, bool) prog" where
  "round_prog ops wk now e0 e1 x =
     seq (upd (w_drain ops e0 50)) (\<lambda>_.
     seq (act (\<lambda>w. case sClaimDue ops e1 now (wStore w) of (r, s) \<Rightarrow> (r, w\<lparr>wStore := s\<rparr>))) (\<lambda>r.
     case r of
       Inr (Some task) \<Rightarrow>
         seq (body_prog ops wk x task) (\<lambda>_.
         seq (upd (w_drain ops (xStore x 4) 50)) (\<lambda>_. Ret True))
     | _ \<Rightarrow> Ret False))"

lemma exec_round: "exec (round_prog ops wk now e0 e1 x) w = claim_and_execute ops wk now e0 e1 x w"
  by (simp add: round_prog_def claim_and_execute_def execute_def exec_body Let_def
      split: prod.split sum.split option.split)

subsection \<open>A post\<close>

definition prior_prog ::
  "'s store_ops \<Rightarrow> http_env \<Rightarrow> verb \<Rightarrow> string \<Rightarrow> string \<Rightarrow> ('s server, prior) prog" where
  "prior_prog ops h v key reqHash =
     (if key = [] then Ret PriorNone
      else seq (act (\<lambda>sv. (sFindIdempotency ops (hStore h 0) key (svTasks sv), sv))) (\<lambda>r.
        case r of
          Inl err \<Rightarrow> Ret PriorError
        | Inr None \<Rightarrow> Ret PriorNone
        | Inr (Some rec) \<Rightarrow>
            if iVerb rec \<noteq> vName v \<or> iHash rec \<noteq> reqHash then Ret PriorConflict
            else seq (act (\<lambda>sv. (sGet ops (hStore h 1) (iTaskID rec) (svTasks sv), sv))) (\<lambda>t.
              Ret (case t of Some t \<Rightarrow> PriorReplay t | None \<Rightarrow> PriorNone))))"

lemma exec_prior: "exec (prior_prog ops h v key rh) sv = (find_prior ops h v key rh (svTasks sv), sv)"
  by (simp add: prior_prog_def find_prior_def split: sum.split option.split)

definition bind_prog ::
  "'s store_ops \<Rightarrow> http_env \<Rightarrow> verb \<Rightarrow> string \<Rightarrow> string \<Rightarrow> string \<Rightarrow> string list \<Rightarrow> ('s server, task option) prog" where
  "bind_prog ops h v key reqHash tid red =
     (if key = [] then Ret None
      else seq (act (\<lambda>sv. case sSaveIdempotency ops (hStore h 3)
                  \<lparr>iKey = key, iVerb = vName v, iHash = reqHash, iTaskID = tid, iCreatedAt = zero_time\<rparr>
                  (svTasks sv) of (r, s) \<Rightarrow> (r, sv\<lparr>svTasks := s\<rparr>))) (\<lambda>r.
        case r of
          None \<Rightarrow> Ret None
        | Some err \<Rightarrow>
            seq (act (\<lambda>sv. (sFindIdempotency ops (hStore h 4) key (svTasks sv), sv))) (\<lambda>f.
            case f of
              Inr (Some win) \<Rightarrow>
                seq (upd (sv_update ops (hStore h 5) tid superseded
                       (api_event tid v (state_name StateCanceled) red None 0
                          ''superseded by idempotent replay''))) (\<lambda>_.
                act (\<lambda>sv. (sGet ops (hStore h 6) (iTaskID win) (svTasks sv), sv)))
            | _ \<Rightarrow> Ret None)))"

lemma exec_bind: "exec (bind_prog ops h v key rh tid red) sv = bind_key ops h v key rh tid red sv"
  by (simp add: bind_prog_def bind_key_def Let_def split: prod.split sum.split option.split)

definition once_prog ::
  "'s store_ops \<Rightarrow> http_env \<Rightarrow> catalog \<Rightarrow> string \<Rightarrow> verb \<Rightarrow> int \<Rightarrow> string list \<Rightarrow> string list \<Rightarrow> string \<Rightarrow>
   ('s server, unit) prog" where
  "once_prog ops h cat tid v maxRetries argv red stdin =
     (let res = Run (hOS h) argv stdin (verb_timeout cat v);
          lat = milliseconds (time_sub (hEnd h) (hStart h));
          out = scrubOutput (rStdout res) stdin;
          err = scrubOutput (rStderr res) stdin;
          (outcome, msg) = outcome_of res;
          ec = rExitCode res
      in seq (upd (sv_update ops (hStore h 8) tid sync_executing
                 (api_event tid v (state_name StateExecuting) red None 0 []))) (\<lambda>_.
         seq (upd (\<lambda>sv. sv\<lparr>svTasks := snd (sRecordAttempt ops (hStore h 9) tid 0 (hStart h) (hEnd h) (Some ec)
                                        outcome msg (svTasks sv))\<rparr>)) (\<lambda>_.
         if outcome = ''ok'' then
           seq (upd (\<lambda>sv. snd (sv_breaker v (\<lambda>b. ((), Success b)) sv))) (\<lambda>_.
           upd (sv_update ops (hStore h 10) tid (sync_ok ec out err (sync_result v res))
             (api_event tid v (state_name StateExecuted) red (Some ec) lat [])))
         else
           seq (upd (\<lambda>sv. snd (sv_breaker v (\<lambda>b. ((), Failure (hFail h) b)) sv))) (\<lambda>_.
           if ShouldExhaust 0 maxRetries then
             seq (upd (sv_update ops (hStore h 10) tid (set_exhausted outcome ec out err msg)
                    (api_event tid v (state_name StateExhausted) red (Some ec) lat msg))) (\<lambda>_.
             upd (\<lambda>sv. sv\<lparr>svNotifier := Some (snd (Exhausted (hOS h) (vName v) tid 1
                             (case svNotifier sv of None \<Rightarrow> Termux | Some nt \<Rightarrow> nt)))\<rparr>))
           else
             upd (sv_update ops (hStore h 10) tid
               (set_retry outcome ec out err msg 1
                 (hRetryNow h + DelayAfterFailure (hRand h) (backoffBase cat) 0 maxServerJitter))
               (api_event tid v ''will-retry'' red (Some ec) lat msg))))))"

lemma exec_once:
  "exec (once_prog ops h (svCatalog sv) tid v mr argv red stdin) sv =
     ((), executeOnce ops h tid v mr argv red stdin sv)"
  unfolding once_prog_def executeOnce_def Let_def by (simp split: prod.split)

definition pipeline_prog ::
  "'s store_ops \<Rightarrow> http_env \<Rightarrow> catalog \<Rightarrow> bool \<Rightarrow> string \<Rightarrow> verb \<Rightarrow> string list \<Rightarrow> string list \<Rightarrow> string \<Rightarrow>
   ('s server, unit) prog" where
  "pipeline_prog ops h cat syncExec tid v argv red stdin =
     seq (upd (sv_update ops (hStore h 7) tid (\<lambda>t. t) (api_event tid v ''accepted'' red None 0 []))) (\<lambda>_.
     if \<not> syncExec then
       upd (sv_update ops (hStore h 8) tid set_pending
         (api_event tid v (state_name StatePending) red None 0 []))
     else
       once_prog ops h cat tid v (verb_retries cat v) argv red
         (case vStdinArg v of Some _ \<Rightarrow> stdin | None \<Rightarrow> []))"

lemma exec_pipeline:
  "exec (pipeline_prog ops h (svCatalog sv) (svSyncExec sv) tid v argv red stdin) sv =
     ((), runPipeline ops h tid v argv red stdin sv)"
  using exec_once [where sv = "sv_update ops (hStore h 7) tid (\<lambda>t. t) (api_event tid v ''accepted'' red None 0 []) sv"]
  by (simp add: pipeline_prog_def runPipeline_def Let_def)

definition created_prog ::
  "'s store_ops \<Rightarrow> http_env \<Rightarrow> catalog \<Rightarrow> bool \<Rightarrow> verb \<Rightarrow> string \<Rightarrow> string \<Rightarrow> string list \<Rightarrow> string list \<Rightarrow>
   string \<Rightarrow> string \<Rightarrow> ('s server, response) prog" where
  "created_prog ops h cat syncExec v key reqHash argv red stdin tid =
     seq (bind_prog ops h v key reqHash tid red) (\<lambda>w.
     case w of
       Some t \<Rightarrow> Ret (replay_answer t)
     | None \<Rightarrow>
         seq (pipeline_prog ops h cat syncExec tid v argv red stdin) (\<lambda>_.
         seq (act (\<lambda>sv. (sGet ops (hStore h 11) tid (svTasks sv), sv))) (\<lambda>r.
         case r of
           None \<Rightarrow> Ret (writeErr StatusInternalServerError ''store_error'' [])
         | Some t \<Rightarrow> seq (upd (sv_drain ops (hStore h 12) 20)) (\<lambda>_. Ret (task_answer StatusAccepted t [])))))"

definition post_prog ::
  "'s store_ops \<Rightarrow> http_env \<Rightarrow> catalog \<Rightarrow> bool \<Rightarrow> verb \<Rightarrow> args \<Rightarrow> string \<Rightarrow> string \<Rightarrow> string list \<Rightarrow>
   string list \<Rightarrow> ('s server, response) prog" where
  "post_prog ops h cat syncExec v args stdin key argv red =
     (let reqHash = idempotencyHash (hSha h) (vName v) args stdin
      in seq (prior_prog ops h v key reqHash) (\<lambda>prior.
         case prior of
           PriorError \<Rightarrow> Ret (writeErr StatusInternalServerError ''store_error'' [])
         | PriorConflict \<Rightarrow> Ret (writeErr StatusConflict ''idempotency_conflict'' [])
         | PriorReplay t \<Rightarrow> Ret (replay_answer t)
         | PriorNone \<Rightarrow>
             seq (act (peek_open (hSnap h) v)) (\<lambda>isOpen.
             if isOpen then Ret (writeErr StatusServiceUnavailable ''circuit_open'' [])
             else
               seq (act (\<lambda>sv. case sCreateAndAuditLimited ops (hStore h 2) (post_input cat v args stdin argv red)
                           (api_event [] v (state_name StateAccepted) red None 0 [])
                           (MaxQueueDepth (cDaemon cat)) (svTasks sv) of (r, s) \<Rightarrow> (r, sv\<lparr>svTasks := s\<rparr>))) (\<lambda>r.
               case r of
                 Inl QueueFull \<Rightarrow> Ret (writeErr StatusServiceUnavailable ''queue_full'' [])
               | Inl err \<Rightarrow> Ret (writeErr StatusInternalServerError ''store_error'' [])
               | Inr t \<Rightarrow> created_prog ops h cat syncExec v key reqHash argv red stdin (tID t)))))"

lemma bind_key_fixed:
  "svCatalog (snd (bind_key ops h v key rh tid red sv)) = svCatalog sv"
  "svSyncExec (snd (bind_key ops h v key rh tid red sv)) = svSyncExec sv"
  by (simp_all add: bind_key_def Let_def split: prod.split option.split sum.split)

lemma exec_created:
  "exec (created_prog ops h (svCatalog sv) (svSyncExec sv) v key rh argv red stdin tid) sv =
     run_created ops h v key rh argv red stdin tid sv"
proof -
  obtain w sv1 where b: "bind_key ops h v key rh tid red sv = (w, sv1)" by (cases "bind_key ops h v key rh tid red sv")
  have same: "svCatalog sv1 = svCatalog sv" "svSyncExec sv1 = svSyncExec sv"
    using bind_key_fixed [of ops h v key rh tid red sv] unfolding b by simp_all
  show ?thesis
    using exec_pipeline [of ops h sv1 tid v argv red stdin]
    by (simp add: created_prog_def run_created_def exec_bind b same Let_def split: option.split)
qed

lemma exec_post:
  "exec (post_prog ops h (svCatalog sv) (svSyncExec sv) v args stdin key argv red) sv =
     post_expanded ops h v args stdin key argv red sv"
proof -
  let ?rh = "idempotencyHash (hSha h) (vName v) args stdin"
  obtain b sv1 where pk: "peek_open (hSnap h) v sv = (b, sv1)" by (cases "peek_open (hSnap h) v sv")
  have same: "svCatalog sv1 = svCatalog sv" "svSyncExec sv1 = svSyncExec sv" "svTasks sv1 = svTasks sv"
    using peek_open_simps [of "hSnap h" v sv] unfolding pk by simp_all
  have run: "exec (created_prog ops h (svCatalog sv) (svSyncExec sv) v key rh argv red stdin tid) (sv1\<lparr>svTasks := s\<rparr>) =
      run_created ops h v key rh argv red stdin tid (sv1\<lparr>svTasks := s\<rparr>)" for rh tid s
    using exec_created [of ops h "sv1\<lparr>svTasks := s\<rparr>"] by (simp add: same)
  show ?thesis
  proof (cases "find_prior ops h v key ?rh (svTasks sv) = PriorNone \<and> \<not> b")
    case False
    then show ?thesis
      by (cases "find_prior ops h v key ?rh (svTasks sv)")
        (simp_all add: post_prog_def post_expanded_def Let_def exec_prior pk)
  next
    case True
    obtain r s where c: "sCreateAndAuditLimited ops (hStore h 2) (post_input (svCatalog sv) v args stdin argv red)
        (api_event [] v (state_name StateAccepted) red None 0 []) (MaxQueueDepth (cDaemon (svCatalog sv)))
        (svTasks sv) = (r, s)" by fastforce
    show ?thesis
    proof (cases r)
      case (Inr t)
      with True c run show ?thesis
        by (simp add: post_prog_def post_expanded_def Let_def exec_prior pk same post_input_def)
    next
      case (Inl err)
      with True c show ?thesis
        by (cases err) (simp_all add: post_prog_def post_expanded_def Let_def exec_prior pk same post_input_def)
    qed
  qed
qed

subsection \<open>Any request\<close>

text \<open>The catalog, the token and the mode of execution of a server never change.\<close>

definition verb_prog ::
  "'s store_ops \<Rightarrow> http_env \<Rightarrow> catalog \<Rightarrow> bool \<Rightarrow> string \<Rightarrow> string \<Rightarrow> ('s server, response option) prog" where
  "verb_prog ops h cat syncExec name payload =
     (case Get cat name of
        None \<Rightarrow> Ret (Some (writeErr StatusNotFound ''unknown_verb'' []))
      | Some v \<Rightarrow>
          (case decode_post payload of
             None \<Rightarrow> Ret (Some (writeErr StatusBadRequest ''invalid_json'' []))
           | Some body \<Rightarrow>
               (let args = request_args v (pbArgs body)
                in case expandArgv v args (pbStdin body) of
                     None \<Rightarrow> Ret None
                   | Some (Inl err) \<Rightarrow> Ret (Some (writeErr StatusBadRequest ''validation_error'' []))
                   | Some (Inr (argv, red)) \<Rightarrow>
                       seq (post_prog ops h cat syncExec v args (pbStdin body) (pbKey body) argv red)
                         (\<lambda>rp. Ret (Some rp)))))"

definition handler_prog ::
  "'s store_ops \<Rightarrow> http_env \<Rightarrow> string \<Rightarrow> request \<Rightarrow> token option \<Rightarrow> catalog \<Rightarrow> bool \<Rightarrow>
   ('s server, response option) prog" where
  "handler_prog ops h header req tok cat syncExec =
     (if \<not> Valid tok header then Ret (Some (writeErr StatusUnauthorized ''unauthorized'' []))
      else case req of
        ReqPostVerb name payload \<Rightarrow> verb_prog ops h cat syncExec name payload
      | _ \<Rightarrow> act (\<lambda>sv. case mux ops h req sv of None \<Rightarrow> (None, sv) | Some (rp, sv) \<Rightarrow> (Some rp, sv)))"

lemma exec_verb:
  "exec (verb_prog ops h (svCatalog sv) (svSyncExec sv) name payload) sv =
     (case handlePostVerb ops h name payload sv of None \<Rightarrow> (None, sv) | Some (rp, sv') \<Rightarrow> (Some rp, sv'))"
proof (cases "Get (svCatalog sv) name")
  case v: (Some v)
  show ?thesis
  proof (cases "decode_post payload")
    case body: (Some body)
    let ?args = "request_args v (pbArgs body)"
    show ?thesis
    proof (cases "expandArgv v ?args (pbStdin body)")
      case (Some r)
      with v body show ?thesis
        by (cases r) (auto simp: verb_prog_def handlePostVerb_def exec_post Let_def split: prod.split)
    qed (use v body in \<open>simp add: verb_prog_def handlePostVerb_def Let_def\<close>)
  qed (use v in \<open>simp add: verb_prog_def handlePostVerb_def\<close>)
qed (simp add: verb_prog_def handlePostVerb_def)

lemma exec_handler:
  "exec (handler_prog ops h header req (svToken sv) (svCatalog sv) (svSyncExec sv)) sv =
     (case Handler ops h header req sv of None \<Rightarrow> (None, sv) | Some (rp, sv') \<Rightarrow> (Some rp, sv'))"
proof (cases "\<exists>name payload. req = ReqPostVerb name payload")
  case True
  then show ?thesis
    by (auto simp: handler_prog_def Handler_def withAuth_def exec_verb)
next
  case False
  then show ?thesis
    by (cases req) (simp_all add: handler_prog_def Handler_def withAuth_def split: option.split prod.split)
qed

end
