(* ===== verification/Concurrent.thy ===== *)
theory Concurrent
  imports Lifecycle Steps
begin

text \<open>
  What one goroutine may do to the store while others run. Every goroutine has a stake: the task it is
  going to create, or the one it created or claimed and is still going to write. A task in hand is
  accepted or executing, so no claim picks it, and no two goroutines have a stake in one task. The
  programs of \<open>Steps\<close> obey their stake, whatever happens between their actions; \<open>Interleave\<close> runs
  them together.
\<close>

datatype stake = Free | Will string | Has string

fun staked :: "stake \<Rightarrow> string option" where
  "staked Free = None"
| "staked (Will tid) = Some tid"
| "staked (Has tid) = Some tid"

abbreviation in_hand :: "task_state \<Rightarrow> bool" where
  "in_hand st \<equiv> st = StateAccepted \<or> st = StateExecuting"

text \<open>What a goroutine relies on: its stake, and tasks it knows to exist.\<close>

definition holding :: "(string \<Rightarrow> task option) \<Rightarrow> stake \<Rightarrow> string set \<Rightarrow> bool" where
  "holding v st known \<longleftrightarrow> (\<forall>tid \<in> known. v tid \<noteq> None) \<and>
     (case st of
        Free \<Rightarrow> True
      | Will tid \<Rightarrow> v tid = None
      | Has tid \<Rightarrow> (\<exists>t. v tid = Some t \<and> in_hand (tState t)))"

definition distinct_stakes :: "stake \<Rightarrow> stake \<Rightarrow> bool" where
  "distinct_stakes a b \<longleftrightarrow> (\<forall>tid. staked a = Some tid \<longrightarrow> staked b \<noteq> Some tid)"

lemma distinct_stakes_sym: "distinct_stakes a b \<Longrightarrow> distinct_stakes b a"
  unfolding distinct_stakes_def by metis

lemma distinct_Free [simp]: "distinct_stakes Free b" "distinct_stakes a Free"
  by (simp_all add: distinct_stakes_def)

lemma holding_Free: "holding v st known \<Longrightarrow> holding v Free known"
  by (simp add: holding_def)

lemma holding_view: "v' = v \<Longrightarrow> holding v st known \<Longrightarrow> holding v' st known"
  by simp

context faulty_store begin

definition sound :: "'s \<Rightarrow> bool" where
  "sound s \<longleftrightarrow> inv s \<and> keys_live view keys s"

text \<open>
  What one action of a goroutine may do with its stake \<open>a\<close>: nothing to the tasks, or one change of the
  task it has, of a waiting task (a claim), or of a task that did not exist (a create, with room).
\<close>

definition moves :: "int \<Rightarrow> stake \<Rightarrow> stake \<Rightarrow> 's \<Rightarrow> 's \<Rightarrow> bool" where
  "moves m a a' s s' \<longleftrightarrow> sound s' \<and> (\<forall>key b. keys s key = Some b \<longrightarrow> keys s' key = Some b) \<and>
     (view s' = view s \<and> (a' = a \<or> a' = Free) \<or>
      (\<exists>tid t'. view s' = (view s)(tid \<mapsto> t') \<and> (a' = Has tid \<or> a' = Free) \<and>
         (a = Has tid \<or>
          a = Free \<and> (\<exists>t. view s tid = Some t \<and> waiting (tState t)) \<or>
          a = Will tid \<and> int (sDepth ops s) < m)))"

lemma moves_quiet: "sound s \<Longrightarrow> same s s' \<Longrightarrow> moves m a a s s'"
  by (auto simp: moves_def same_def sound_def keys_live_def)

text \<open>The other goroutines keep what they rely on.\<close>

lemma moves_others:
  assumes "moves m a a' s s'" and "holding (view s) a known" and "holding (view s) b known'" and "distinct_stakes a b"
  shows "holding (view s') b known' \<and> distinct_stakes a' b"
proof (cases "view s' = view s \<and> (a' = a \<or> a' = Free)")
  case True
  with assms(3,4) show ?thesis by auto
next
  case False
  then obtain tid t' where v: "view s' = (view s)(tid \<mapsto> t')" "a' = Has tid \<or> a' = Free"
    and k: "a = Has tid \<or> a = Free \<and> (\<exists>t. view s tid = Some t \<and> waiting (tState t)) \<or> a = Will tid"
    using assms(1) unfolding moves_def by blast
  have b: "staked b \<noteq> Some tid"
  proof (cases "staked a = Some tid")
    case True
    with assms(4) show ?thesis by (simp add: distinct_stakes_def)
  next
    case False
    with k obtain t where "view s tid = Some t" "waiting (tState t)" by auto
    with assms(3) show ?thesis by (cases b) (auto simp: holding_def)
  qed
  then have "holding (view s') b known'" using v(1) assms(3) by (cases b) (auto simp: holding_def)
  moreover have "distinct_stakes a' b" using v(2) b by (auto simp: distinct_stakes_def)
  ultimately show ?thesis by simp
qed

text \<open>And every move keeps the promises of the daemon.\<close>

lemma moves_safe:
  assumes "sound s" and "holding (view s) a known" and "moves m a a' s s'"
  shows "safe m s s'"
proof (cases "view s' = view s")
  case True
  with assms(1,3) show ?thesis
    by (simp add: moves_def sound_def safe_def evolves_def depth)
next
  case False
  then obtain tid t' where v: "view s' = (view s)(tid \<mapsto> t')"
    and k: "a = Has tid \<or> a = Free \<and> (\<exists>t. view s tid = Some t \<and> waiting (tState t)) \<or>
      a = Will tid \<and> int (sDepth ops s) < m"
    using assms(3) unfolding moves_def by blast
  have s: "inv s" "inv s'" "keys_live view keys s'" and keys: "\<forall>key b. keys s key = Some b \<longrightarrow> keys s' key = Some b"
    using assms(1,3) by (simp_all add: moves_def sound_def)
  show ?thesis
  proof (cases "view s tid")
    case None
    with k assms(2) have "int (sDepth ops s) < m" by (auto simp: holding_def)
    moreover have "evolves view keys s s'" using v None keys by (auto simp: evolves_def)
    ultimately show ?thesis using depth_create [OF s(1,2) v] s by (auto simp: safe_def)
  next
    case (Some t)
    with k assms(2) have act: "active_state (tState t)" by (auto simp: holding_def)
    have "evolves view keys s s'" using v Some keys act by (auto simp: evolves_def)
    with depth_keep [OF s(1,2) v Some act] s show ?thesis by (auto simp: safe_def)
  qed
qed

subsection \<open>Programs that respect the stakes\<close>

text \<open>
  From any state in which the goroutine holds its stake, every action is such a move; \<open>Q\<close> is what the
  result leaves. Other goroutines may act in between, so the state before an action is arbitrary.
\<close>

primrec obeys ::
  "int \<Rightarrow> ('g \<Rightarrow> 's) \<Rightarrow> ('a \<Rightarrow> stake \<Rightarrow> string set \<Rightarrow> bool) \<Rightarrow> ('g, 'a) prog \<Rightarrow> stake \<Rightarrow> string set \<Rightarrow> bool" where
  "obeys m st Q (Ret x) = Q x"
| "obeys m st Q (Act k) = (\<lambda>a known. \<forall>g. sound (st g) \<and> holding (view (st g)) a known \<longrightarrow>
     (case map_prod id (obeys m st Q) (k g) of (g', r) \<Rightarrow>
        \<exists>a' known'. moves m a a' (st g) (st g') \<and> holding (view (st g')) a' known' \<and> r a' known'))"

lemma obeys_Act:
  "obeys m st Q (Act k) a known \<longleftrightarrow> (\<forall>g. sound (st g) \<and> holding (view (st g)) a known \<longrightarrow>
     (\<exists>a' known'. moves m a a' (st g) (st (fst (k g))) \<and> holding (view (st (fst (k g)))) a' known' \<and>
        obeys m st Q (snd (k g)) a' known'))"
  by (simp add: map_prod_def case_prod_unfold)

lemma obeys_mono:
  assumes "obeys m st Q p a known" and "\<And>x a known. Q x a known \<Longrightarrow> R x a known"
  shows "obeys m st R p a known"
  using assms(1)
proof (induction p arbitrary: a known rule: prog_induct)
  case (Ret x)
  then show ?case by (simp add: assms(2))
next
  case (Act k)
  from Act.prems Act.IH show ?case unfolding obeys_Act by blast
qed

lemma obeys_seq:
  assumes "obeys m st (\<lambda>x a known. obeys m st Q (f x) a known) p a known"
  shows "obeys m st Q (seq p f) a known"
  using assms
proof (induction p arbitrary: a known rule: prog_induct)
  case (Ret x)
  then show ?case by simp
next
  case (Act k)
  have "seq (Act k) f = Act (\<lambda>g. (fst (k g), seq (snd (k g)) f))" by (simp add: map_prod_def case_prod_unfold)
  with Act.prems Act.IH show ?case by (simp only: obeys_Act fst_conv snd_conv) blast
qed

lemma obeys_act:
  assumes "\<And>g. sound (st g) \<Longrightarrow> holding (view (st g)) a known \<Longrightarrow>
    \<exists>a' known'. moves m a a' (st g) (st (snd (f g))) \<and> holding (view (st (snd (f g)))) a' known' \<and> Q (fst (f g)) a' known'"
  shows "obeys m st Q (act f) a known"
  using assms by (simp add: act_def obeys_Act case_prod_unfold del: obeys.simps(2))

lemma obeys_call:
  assumes "\<And>s r s'. sound s \<Longrightarrow> holding (view s) a known \<Longrightarrow> call s = (r, s') \<Longrightarrow>
      \<exists>a' known'. moves m a a' s s' \<and> holding (view s') a' known' \<and> Q r a' known'"
    and "\<And>s g. st (put s g) = s"
  shows "obeys m st Q (act (\<lambda>g. case call (st g) of (r, s) \<Rightarrow> (r, put s g))) a known"
proof (rule obeys_act)
  fix g assume "sound (st g)" "holding (view (st g)) a known"
  moreover obtain r s where "call (st g) = (r, s)" by fastforce
  ultimately show "\<exists>a' known'. moves m a a' (st g) (st (snd (case call (st g) of (r, s) \<Rightarrow> (r, put s g)))) \<and>
      holding (view (st (snd (case call (st g) of (r, s) \<Rightarrow> (r, put s g))))) a' known' \<and>
      Q (fst (case call (st g) of (r, s) \<Rightarrow> (r, put s g))) a' known'"
    using assms by simp
qed

lemma obeys_on_part:
  assumes "obeys m st Q p a known" and "\<And>g h. st' (wr g h) = st g" and "\<And>h. st (rd h) = st' h"
  shows "obeys m st' Q (on_part rd wr p) a known"
  using assms(1)
proof (induction p arbitrary: a known rule: prog_induct)
  case (Ret x)
  then show ?case by simp
next
  case (Act k)
  have "on_part rd wr (Act k) = Act (\<lambda>h. (wr (fst (k (rd h))) h, on_part rd wr (snd (k (rd h)))))"
    by (simp add: map_prod_def case_prod_unfold)
  moreover have "\<exists>a' known'. moves m a a' (st' h) (st' (wr (fst (k (rd h))) h)) \<and>
      holding (view (st' (wr (fst (k (rd h))) h))) a' known' \<and>
      obeys m st' Q (on_part rd wr (snd (k (rd h)))) a' known'"
    if "sound (st' h)" "holding (view (st' h)) a known" for h
  proof -
    have "sound (st (rd h)) \<and> holding (view (st (rd h))) a known" using that by (simp add: assms(3))
    then obtain a' known' where "moves m a a' (st (rd h)) (st (fst (k (rd h))))"
        "holding (view (st (fst (k (rd h))))) a' known'" "obeys m st Q (snd (k (rd h))) a' known'"
      using Act.prems unfolding obeys_Act by blast
    with Act.IH show ?thesis unfolding assms(2,3) by blast
  qed
  ultimately show ?case by (simp only: obeys_Act fst_conv snd_conv) blast
qed

text \<open>Actions that change no task.\<close>

lemma obeys_quiet:
  assumes "\<And>g. inv (st g) \<Longrightarrow> same (st g) (st (snd (f g)))" and "\<And>x. Q x a known"
  shows "obeys m st Q (act f) a known"
proof (rule obeys_act)
  fix g assume g: "sound (st g)" "holding (view (st g)) a known"
  have "same (st g) (st (snd (f g)))" using assms(1) g(1) by (simp add: sound_def)
  with moves_quiet [OF g(1) this, of m a] g(2) assms(2) show "\<exists>a' known'. moves m a a' (st g) (st (snd (f g))) \<and>
      holding (view (st (snd (f g)))) a' known' \<and> Q (fst (f g)) a' known'" by (metis same_def)
qed

lemma obeys_quiet_upd:
  assumes "\<And>g. inv (st g) \<Longrightarrow> same (st g) (st (f g))" and "Q () a known"
  shows "obeys m st Q (upd f) a known"
  unfolding upd_def by (rule obeys_quiet) (use assms in simp_all)

lemma record_same: "inv s \<Longrightarrow> same s (snd (sRecordAttempt ops e tid n t0 t1 ec oc msg s))"
  using record_attempt by (simp add: same_def)

text \<open>An update of the task in hand: it stays in hand or is let go.\<close>

lemma update_moves:
  assumes "sound s" and "holding (view s) (Has tid) known" and "year_ok (eNow e)" and "fair fn"
  shows "\<exists>a'. (a' = Has tid \<or> a' = Free \<and> \<not> (\<forall>t. in_hand (tState t) \<longrightarrow> in_hand (tState (fn t)))) \<and>
    moves m (Has tid) a' s (snd (sUpdateAndAudit ops e tid fn ev s)) \<and>
    holding (view (snd (sUpdateAndAudit ops e tid fn ev s))) a' known"
proof -
  obtain r s' where u: "sUpdateAndAudit ops e tid fn ev s = (r, s')" by fastforce
  have i: "inv s" "keys_live view keys s" using assms(1) by (simp_all add: sound_def)
  obtain t where t: "view s tid = Some t" "in_hand (tState t)" using assms(2) by (auto simp: holding_def)
  have "\<forall>t. view s tid = Some t \<longrightarrow> fair_update fn t" using assms(4) view_id [OF i(1)] by (auto simp: fair_def)
  from update_audit_any [OF i(1) assms(3) this u] have s': "inv s'" "keys s' = keys s"
    and all: "all_or_nothing (view s) (view s') tid fn (eNow e)" by blast+
  show ?thesis
  proof (cases "view s' = view s")
    case True
    with i s' have "same s s'" by (simp add: same_def)
    from moves_quiet [OF assms(1) this, of m "Has tid"] True assms(2) u show ?thesis by auto
  next
    case False
    with all t(1) obtain t' where t': "view s' = (view s)(tid \<mapsto> t')" "core t' = core ((fn t)\<lparr>tUpdatedAt := eNow e\<rparr>)"
      by (auto simp: all_or_nothing_def)
    have st: "tState t' = tState (fn t)" using core_eqD(3) [OF t'(2)] by simp
    have "sound s'" using i s' t' by (auto simp: sound_def keys_live_def)
    then have m: "moves m (Has tid) a' s s'" if "a' = Has tid \<or> a' = Free" for a'
      using that s'(2) t'(1) unfolding moves_def by auto
    have "\<forall>k \<in> known. view s' k \<noteq> None" using assms(2) t'(1) by (auto simp: holding_def)
    then have "in_hand (tState (fn t)) \<Longrightarrow> holding (view s') (Has tid) known" "holding (view s') Free known"
      using t'(1) st by (auto simp: holding_def)
    with m u t(2) show ?thesis by (metis snd_conv)
  qed
qed

lemma obeys_stay:
  assumes "\<And>g. st (f g) = snd (sUpdateAndAudit ops e tid fn ev (st g))" and "year_ok (eNow e)" and "fair fn"
    and "\<forall>t. in_hand (tState t) \<longrightarrow> in_hand (tState (fn t))" and "Q () (Has tid) known"
  shows "obeys m st Q (upd f) (Has tid) known"
  unfolding upd_def
proof (rule obeys_act)
  fix g assume "sound (st g)" "holding (view (st g)) (Has tid) known"
  from update_moves [OF this assms(2,3), of m ev] assms(1,4,5)
  show "\<exists>a' known'. moves m (Has tid) a' (st g) (st (snd ((), f g))) \<and>
      holding (view (st (snd ((), f g)))) a' known' \<and> Q (fst ((), f g)) a' known'" by auto
qed

lemma obeys_leave:
  assumes "\<And>g. st (f g) = snd (sUpdateAndAudit ops e tid fn ev (st g))" and "year_ok (eNow e)" and "fair fn"
    and "\<And>a. Q () a known"
  shows "obeys m st Q (upd f) (Has tid) known"
  unfolding upd_def
proof (rule obeys_act)
  fix g assume "sound (st g)" "holding (view (st g)) (Has tid) known"
  from update_moves [OF this assms(2,3), of m ev] assms(1,4)
  show "\<exists>a' known'. moves m (Has tid) a' (st g) (st (snd ((), f g))) \<and>
      holding (view (st (snd ((), f g)))) a' known' \<and> Q (fst ((), f g)) a' known'" by auto
qed

subsection \<open>The worker\<close>

text \<open>One rule per kind of action.\<close>

lemma w_stays:
  assumes "year_ok (eNow e)" and "fair fn" and "\<forall>t. in_hand (tState t) \<longrightarrow> in_hand (tState (fn t))"
    and "Q () (Has tid) known"
  shows "obeys m wStore Q (upd (w_update ops e tid fn ev)) (Has tid) known"
  by (rule obeys_stay [where st = wStore and e = e and fn = fn and ev = ev]) (use assms in simp_all)

lemma w_leaves:
  assumes "year_ok (eNow e)" and "fair fn" and "\<And>a. Q () a known"
  shows "obeys m wStore Q (upd (w_update ops e tid fn ev)) (Has tid) known"
  by (rule obeys_leave [where st = wStore and e = e and fn = fn and ev = ev]) (use assms in simp_all)

lemma w_quiet:
  "Q () a known \<Longrightarrow> obeys m wStore Q (upd (\<lambda>w. w\<lparr>wStore := snd (sRecordAttempt ops e tid n t0 t1 ec oc msg (wStore w))\<rparr>)) a known"
  "Q () a known \<Longrightarrow> obeys m wStore Q (upd (w_breaker verb f)) a known"
  "Q () a known \<Longrightarrow> obeys m wStore Q (upd (\<lambda>w. w\<lparr>wNotifier := nf w\<rparr>)) a known"
  "Q () a known \<Longrightarrow> obeys m wStore Q (upd (\<lambda>w. w\<lparr>wCircuits := cf w\<rparr>)) a known"
  "Q () a known \<Longrightarrow> obeys m wStore Q (upd (w_drain ops e lim)) a known"
  using drain record_attempt by (auto intro!: obeys_quiet_upd simp: same_def)

lemma attempt_obeys:
  assumes "exec_times wk x"
  shows "obeys m wStore (\<lambda>r a known. True) (attempt_prog ops wk x v task) (Has (tID task)) known"
proof -
  have y: "year_ok (eNow (xStore x k))" for k using assms by (simp add: exec_times_def)
  have tm: "year_ok (xRetryNow x + DelayAfterFailure (xRand x) (wBackoffBase wk) n (wMaxJitter wk))" for n
    using assms by (simp add: exec_times_def times_ok_def)
  have ex: "\<forall>t. in_hand (tState t) \<longrightarrow> in_hand (tState (set_executing t))" by (simp add: set_executing_def)
  obtain oc msg where o: "outcome_of (Run (xOS x) (task_argv task) (tStdinBlob task) (verb_timeout (wCatalog wk) v)) = (oc, msg)"
    by fastforce
  have last: "obeys m wStore (\<lambda>r a known. True) (if oc = ''ok'' then seq (upd (w_update ops (xStore x 3) (tID task)
        (set_ok ec out err rs) ev1)) (\<lambda>_. upd (w_breaker (tVerb task) Success))
      else seq (upd (w_breaker (tVerb task) (Failure (xFail x)))) (\<lambda>_.
        if b then seq (upd (w_update ops (xStore x 3) (tID task) (set_exhausted oc ec out err msg) ev2)) (\<lambda>_.
          upd (\<lambda>w. w\<lparr>wNotifier := nf w\<rparr>))
        else upd (w_update ops (xStore x 3) (tID task) (set_retry oc ec out err msg n
          (xRetryNow x + DelayAfterFailure (xRand x) (wBackoffBase wk) k (wMaxJitter wk))) ev3)))
      (Has (tID task)) known" for ec out err rs ev1 ev2 ev3 nf n k b
    by (simp, intro conjI impI; intro obeys_seq w_leaves y fair_changes tm w_quiet TrueI)
  show ?thesis
    unfolding attempt_prog_def Let_def o prod.case
    by (intro obeys_seq w_stays y fair_simple(1) ex w_quiet(1)) (rule last)
qed

lemma body_obeys:
  assumes "exec_times wk x"
  shows "obeys m wStore (\<lambda>r a known. True) (body_prog ops wk x task) (Has (tID task)) known"
proof (cases "Get (wCatalog wk) (tVerb task)")
  case None
  have "year_ok (eNow (xStore x 0))" using assms by (simp add: exec_times_def)
  with None show ?thesis by (simp add: body_prog_def w_leaves fair_simple)
next
  case (Some v)
  have y: "year_ok (eNow (xStore x 0))" "year_ok (xOpenNow x + second)"
    using assms by (simp_all add: exec_times_def times_ok_def)
  have allow: "obeys m wStore (\<lambda>r a known. True) (seq (act (\<lambda>w. case wCircuits w of None \<Rightarrow> (True, w)
      | Some r \<Rightarrow> (case on_breaker (tVerb task) (Allow (xAllow x) (xGrant x)) r of
            (allowed, r) \<Rightarrow> (allowed \<noteq> Some False, w\<lparr>wCircuits := Some r\<rparr>)))) f) (Has (tID task)) known"
    if "\<And>b. obeys m wStore (\<lambda>r a known. True) (f b) (Has (tID task)) known" for f :: "bool \<Rightarrow> ('s wstate, unit) prog"
    by (rule obeys_seq, rule obeys_quiet)
      (use that in \<open>auto simp: same_refl split: option.split prod.split\<close>)
  show ?thesis
    unfolding body_prog_def Some option.case Let_def
    by (intro obeys_seq [where p = "upd f" for f] w_quiet(4) allow)
      (simp add: attempt_obeys [OF assms] w_leaves y fair_simple)
qed

lemma claim_moves:
  assumes "sound s" and "holding (view s) Free known" and "year_ok (eNow e)" and "sClaimDue ops e now s = (r, s')"
  shows "\<exists>a. moves m Free a s s' \<and> holding (view s') a known \<and> (\<forall>k. r = Inr (Some k) \<longrightarrow> a = Has (tID k))"
proof -
  have i: "inv s" "keys_live view keys s" using assms(1) by (simp_all add: sound_def)
  note c = claim_any [OF i(1) assms(3,4)]
  show ?thesis
  proof (cases "view s' = view s \<and> (\<forall>k. r \<noteq> Inr (Some k))")
    case True
    with c have "same s s'" by (simp add: same_def)
    from moves_quiet [OF assms(1) this, of m Free] True assms(2) show ?thesis by (intro exI [of _ Free]) simp
  next
    case False
    with c obtain tid t t' where t: "view s tid = Some t" "waiting (tState t)" "tState t' = StateExecuting"
        "view s' = (view s)(tid \<mapsto> t')" "\<forall>k. r = Inr (Some k) \<longrightarrow> tID k = tid" by blast
    have "sound s'" using c i t(4) by (auto simp: sound_def keys_live_def)
    then have "moves m Free (Has tid) s s'" using c t(1,2,4) unfolding moves_def by auto
    moreover have "holding (view s') (Has tid) known" using assms(2) t(3,4) by (auto simp: holding_def)
    ultimately show ?thesis using t(5) by (intro exI [of _ "Has tid"]) simp
  qed
qed

lemma round_obeys:
  assumes "year_ok (eNow e1)" and "exec_times wk x"
  shows "obeys m wStore (\<lambda>r a known. True) (round_prog ops wk now e0 e1 x) Free known"
proof -
  have tail: "obeys m wStore (\<lambda>r a known. True) (seq (upd (w_drain ops (xStore x 4) 50)) (\<lambda>u. Ret True)) a known"
    for a known by (intro obeys_seq w_quiet(5)) simp
  have go_on: "obeys m wStore (\<lambda>r a known. True) (case r of
       Inr (Some task) \<Rightarrow> seq (body_prog ops wk x task) (\<lambda>u. seq (upd (w_drain ops (xStore x 4) 50)) (\<lambda>u. Ret True))
     | _ \<Rightarrow> Ret False) a known" if "\<forall>k. r = Inr (Some k) \<longrightarrow> a = Has (tID k)" for r :: "store_error + task option" and a known
    using that body_obeys [OF assms(2)] tail
    by (auto intro!: obeys_seq elim!: obeys_mono split: sum.split option.split)
  show ?thesis
    unfolding round_prog_def
    by (intro obeys_seq w_quiet(5) obeys_call [where call = "sClaimDue ops e1 now"])
      (use claim_moves [OF _ _ assms(1)] go_on in \<open>blast, simp\<close>)
qed

subsection \<open>A post\<close>

lemma sv_stays:
  assumes "year_ok (eNow e)" and "fair fn" and "\<forall>t. in_hand (tState t) \<longrightarrow> in_hand (tState (fn t))"
    and "Q () (Has tid) known"
  shows "obeys m svTasks Q (upd (sv_update ops e tid fn ev)) (Has tid) known"
  by (rule obeys_stay [where st = svTasks and e = e and fn = fn and ev = ev]) (use assms in simp_all)

lemma sv_leaves:
  assumes "year_ok (eNow e)" and "fair fn" and "\<And>a. Q () a known"
  shows "obeys m svTasks Q (upd (sv_update ops e tid fn ev)) (Has tid) known"
  by (rule obeys_leave [where st = svTasks and e = e and fn = fn and ev = ev]) (use assms in simp_all)

lemma sv_quiet:
  "Q () a known \<Longrightarrow> obeys m svTasks Q (upd (\<lambda>sv. sv\<lparr>svTasks := snd (sRecordAttempt ops e tid n t0 t1 ec oc msg (svTasks sv))\<rparr>)) a known"
  "Q () a known \<Longrightarrow> obeys m svTasks Q (upd (\<lambda>sv. snd (sv_breaker v (fb v) sv))) a known"
  "Q () a known \<Longrightarrow> obeys m svTasks Q (upd (\<lambda>sv. sv\<lparr>svNotifier := nf sv\<rparr>)) a known"
  "Q () a known \<Longrightarrow> obeys m svTasks Q (upd (sv_drain ops e lim)) a known"
  using drain_same record_attempt by (auto intro!: obeys_quiet_upd simp: same_def)

text \<open>Reading the store.\<close>

lemma sv_read:
  "(\<And>x. Q x a known) \<Longrightarrow> obeys m svTasks Q (act (\<lambda>sv. (f (svTasks sv), sv))) a known"
  by (rule obeys_quiet) (simp_all add: same_refl)

lemma once_obeys:
  assumes "henv_times h cat"
  shows "obeys m svTasks (\<lambda>r a known. True) (once_prog ops h cat tid v mr argv red stdin) (Has tid) known"
proof -
  have y: "year_ok (eNow (hStore h k))" for k using assms by (simp add: henv_times_def)
  have tm: "year_ok (hRetryNow h + DelayAfterFailure (hRand h) (backoffBase cat) 0 maxServerJitter)"
    using assms by (simp add: henv_times_def)
  have ex: "\<forall>t. in_hand (tState t) \<longrightarrow> in_hand (tState (sync_executing t))" by (simp add: sync_executing_def)
  obtain oc msg where o: "outcome_of (Run (hOS h) argv stdin (verb_timeout cat v)) = (oc, msg)" by fastforce
  have last: "obeys m svTasks (\<lambda>r a known. True) (if oc = ''ok'' then
        seq (upd (\<lambda>sv. snd (sv_breaker v (\<lambda>b. ((), Success b)) sv))) (\<lambda>_.
        upd (sv_update ops (hStore h 10) tid (sync_ok ec out err rs) ev1))
      else seq (upd (\<lambda>sv. snd (sv_breaker v (\<lambda>b. ((), Failure (hFail h) b)) sv))) (\<lambda>_.
        if b then seq (upd (sv_update ops (hStore h 10) tid (set_exhausted oc ec out err msg) ev2)) (\<lambda>_.
          upd (\<lambda>sv. sv\<lparr>svNotifier := nf sv\<rparr>))
        else upd (sv_update ops (hStore h 10) tid (set_retry oc ec out err msg 1
          (hRetryNow h + DelayAfterFailure (hRand h) (backoffBase cat) 0 maxServerJitter)) ev3)))
      (Has tid) known" for ec out err rs ev1 ev2 ev3 nf b
    by (simp, intro conjI impI; intro obeys_seq sv_leaves y fair_changes tm sv_quiet TrueI)
  show ?thesis
    unfolding once_prog_def Let_def o prod.case
    by (intro obeys_seq sv_stays y fair_simple(5) ex sv_quiet(1)) (rule last)
qed

lemma pipeline_obeys:
  assumes "henv_times h cat"
  shows "obeys m svTasks (\<lambda>r a known. True) (pipeline_prog ops h cat sync tid v argv red stdin) (Has tid) known"
proof -
  have y: "year_ok (eNow (hStore h k))" for k using assms by (simp add: henv_times_def)
  show ?thesis
    unfolding pipeline_prog_def
    by (intro obeys_seq sv_stays y fair_simple(3)) (simp_all add: once_obeys [OF assms] sv_leaves y fair_simple)
qed

end

end
