(* ===== verification/Interleave.thy ===== *)
theory Interleave
  imports Concurrent
begin

text \<open>
  The running daemon with every request and every round of the worker on its own goroutine: the
  store calls of all of them interleave freely, new ones start at any time, any call may fail and
  the process may die between any two calls. The promises of the daemon survive.
\<close>

text \<open>
  What a request on its own goroutine needs: times with a text form, and that it can look up the
  winner of its key when another request bound the key first (the two lookups of that branch).
\<close>

definition request_env :: "http_env \<Rightarrow> catalog \<Rightarrow> bool" where
  "request_env h cat \<longleftrightarrow> henv_times h cat \<and> env_ok (hStore h 4) \<and> env_ok (hStore h 6)"

text \<open>The goroutine of a request and the one of a round of the worker, on the objects they share.\<close>

definition forget :: "('g, 'a) prog \<Rightarrow> ('g, unit) prog" where
  "forget p = seq p (\<lambda>_. Ret ())"

definition on_server :: "('s server, 'a) prog \<Rightarrow> ('s running, unit) prog" where
  "on_server p = forget (on_part rnServer (\<lambda>sv rn. rn\<lparr>rnServer := sv\<rparr>) p)"

definition on_worker :: "('s wstate, 'a) prog \<Rightarrow> ('s running, unit) prog" where
  "on_worker p = forget (on_part worker_state after_worker p)"

text \<open>
  The daemon, its goroutines and the ids given to requests so far. \<open>cat\<close> is the catalog, loaded once
  at the start.
\<close>

type_synonym 's system = "'s running \<times> ('s running, unit) prog list \<times> string set"

inductive system_step :: "'s store_ops \<Rightarrow> catalog \<Rightarrow> 's system \<Rightarrow> 's system \<Rightarrow> bool" for ops cat where
  request: "request_env h cat \<Longrightarrow> env_ok e \<Longrightarrow>
     sGet ops e (eID (hStore h 2)) (svTasks (rnServer rn)) = None \<Longrightarrow> eID (hStore h 2) \<notin> ids \<Longrightarrow>
     system_step ops cat (rn, ths, ids)
       (rn, on_server (handler_prog ops h header req (svToken (rnServer rn)) cat (svSyncExec (rnServer rn))) # ths,
        insert (eID (hStore h 2)) ids)"
| round: "year_ok (eNow e1) \<Longrightarrow> exec_times (worker_defaults (rnWorker rn)) x \<Longrightarrow>
     system_step ops cat (rn, ths, ids)
       (rn, on_worker (round_prog ops (worker_defaults (rnWorker rn)) now e0 e1 x) # ths, ids)"
| action: "i < length ths \<Longrightarrow> ths ! i = Act k \<Longrightarrow> k rn = (rn', p) \<Longrightarrow>
     system_step ops cat (rn, ths, ids) (rn', ths[i := p], ids)"
| crash: "failed_starts ops (svTasks (rnServer rn)) s1 \<Longrightarrow> \<forall>p n. year_ok (eNow (es p n)) \<Longrightarrow>
     Resume ops es now s1 = ((st, None), s') \<Longrightarrow>
     system_step ops cat (rn, ths, ids) (build syncExec now cat tok alog st s', [], ids)"

inductive_cases system_stepE: "system_step ops cat (rn, ths, ids) (rn', ths', ids')"

abbreviation system_run :: "'s store_ops \<Rightarrow> catalog \<Rightarrow> 's system \<Rightarrow> 's system \<Rightarrow> bool" where
  "system_run ops cat \<equiv> (system_step ops cat)\<^sup>*\<^sup>*"

text \<open>A goroutine that runs alone does what the handler and the round of the worker do.\<close>

lemma request_alone:
  "snd (exec (on_server (handler_prog ops h header req (svToken (rnServer rn)) (svCatalog (rnServer rn))
       (svSyncExec (rnServer rn)))) rn) =
     (case Handler ops h header req (rnServer rn) of None \<Rightarrow> rn | Some (rp, sv') \<Rightarrow> rn\<lparr>rnServer := sv'\<rparr>)"
  by (simp add: on_server_def forget_def exec_on_part [where rd = rnServer] exec_handler split: option.split prod.split)

lemma round_alone:
  "snd (exec (on_worker (round_prog ops wk now e0 e1 x)) rn) =
     after_worker (snd (claim_and_execute ops wk now e0 e1 x (worker_state rn))) rn"
proof -
  have "exec (on_part worker_state after_worker (round_prog ops wk now e0 e1 x)) rn =
      (case exec (round_prog ops wk now e0 e1 x) (worker_state rn) of (a, g) \<Rightarrow> (a, after_worker g rn))"
    by (rule exec_on_part) (simp_all add: worker_state_def after_worker_def)
  then show ?thesis by (simp add: on_worker_def forget_def exec_round case_prod_unfold)
qed

context faulty_store begin

subsection \<open>A post, continued\<close>

text \<open>A lookup whose result says something about the store it read.\<close>

lemma obeys_lookup:
  assumes "\<And>s. sound s \<Longrightarrow> holding (view s) a known \<Longrightarrow>
    \<exists>known'. holding (view s) a known' \<and> Q (f s) a known'"
  shows "obeys m svTasks Q (act (\<lambda>sv. (f (svTasks sv), sv))) a known"
proof (rule obeys_act)
  fix g assume g: "sound (svTasks g)" "holding (view (svTasks g)) a known"
  have "moves m a a (svTasks g) (svTasks g)"
    using moves_quiet [OF g(1) same_refl] g(1) by (simp add: sound_def)
  with assms [OF g] show "\<exists>a' known'. moves m a a' (svTasks g) (svTasks (snd (f (svTasks g), g))) \<and>
      holding (view (svTasks (snd (f (svTasks g), g)))) a' known' \<and> Q (fst (f (svTasks g), g)) a' known'" by auto
qed

lemma save_moves:
  assumes "sound s" and "holding (view s) (Has tid) known" and "iTaskID rec = tid"
    and "sSaveIdempotency ops e rec s = (r, s')"
  shows "moves m (Has tid) (Has tid) s s' \<and> holding (view s') (Has tid) known"
proof -
  have i: "inv s" "keys_live view keys s" using assms(1) by (simp_all add: sound_def)
  from save_any [OF i(1) assms(4)] have s': "inv s'" "view s' = view s"
    and k: "keys s' = keys s \<or> keys s (iKey rec) = None \<and>
      (\<exists>b. keys s' = (keys s)(iKey rec \<mapsto> b) \<and> same_binding b rec)" by blast+
  have "view s tid \<noteq> None" using assms(2) by (auto simp: holding_def)
  then have "sound s'" using i(2) s' k assms(3) by (auto simp: sound_def keys_live_def same_binding_def split: if_splits)
  with s' k assms(2) show ?thesis by (auto simp: moves_def)
qed

text \<open>The binding of a key: if it names no winner, the goroutine still has its task.\<close>

lemma bind_obeys:
  assumes "request_env h cat"
  shows "obeys m svTasks (\<lambda>w a known. w = None \<longrightarrow> a = Has tid) (bind_prog ops h v key rh tid red) (Has tid) known"
proof -
  have e: "year_ok (eNow (hStore h 5))" "env_ok (hStore h 4)" "env_ok (hStore h 6)"
    using assms by (simp_all add: request_env_def henv_times_def)
  have winner: "obeys m svTasks (\<lambda>w a known. w = None \<longrightarrow> a = Has tid)
      (act (\<lambda>sv. (sGet ops (hStore h 6) k (svTasks sv), sv))) a (insert k known)" for k a known
  proof (rule obeys_lookup)
    fix s assume s: "sound s" "holding (view s) a (insert k known)"
    then have "view s k \<noteq> None" "inv s" by (simp_all add: holding_def sound_def)
    with get [OF this(2) e(3), of k] s(2)
    show "\<exists>known'. holding (view s) a known' \<and> (sGet ops (hStore h 6) k s = None \<longrightarrow> a = Has tid)" by auto
  qed
  have found: "obeys m svTasks Q (act (\<lambda>sv. (sFindIdempotency ops (hStore h 4) key (svTasks sv), sv))) (Has tid) known"
    if "\<And>win known. Q (Inr (Some win)) (Has tid) (insert (iTaskID win) known)" "\<And>r known. \<forall>win. r \<noteq> Inr (Some win) \<Longrightarrow> Q r (Has tid) known"
    for Q :: "store_error + idem_record option \<Rightarrow> stake \<Rightarrow> string set \<Rightarrow> bool" and known
  proof (rule obeys_lookup)
    fix s assume s: "sound s" "holding (view s) (Has tid) known"
    show "\<exists>known'. holding (view s) (Has tid) known' \<and> Q (sFindIdempotency ops (hStore h 4) key s) (Has tid) known'"
    proof (cases "\<exists>win. sFindIdempotency ops (hStore h 4) key s = Inr (Some win)")
      case True
      then obtain win where w: "sFindIdempotency ops (hStore h 4) key s = Inr (Some win)" by blast
      have "inv s" using s(1) by (simp add: sound_def)
      from find_key [OF this e(2), of key] w obtain b where "keys s key = Some b" "iTaskID b = iTaskID win"
        by (auto simp: option_rel_Some1 same_binding_def)
      with s(1) have "view s (iTaskID win) \<noteq> None" by (metis sound_def keys_live_def)
      with s(2) have "holding (view s) (Has tid) (insert (iTaskID win) known)" by (simp add: holding_def)
      with that(1) w show ?thesis by auto
    next
      case False
      with that(2) s(2) show ?thesis by blast
    qed
  qed
  have lost: "obeys m svTasks (\<lambda>w a known. w = None \<longrightarrow> a = Has tid)
      (seq (act (\<lambda>sv. (sFindIdempotency ops (hStore h 4) key (svTasks sv), sv))) (\<lambda>f.
         case f of Inr (Some win) \<Rightarrow>
           seq (upd (sv_update ops (hStore h 5) tid superseded ev))
             (\<lambda>u. act (\<lambda>sv. (sGet ops (hStore h 6) (iTaskID win) (svTasks sv), sv)))
         | _ \<Rightarrow> Ret None)) (Has tid) known" for ev known
    by (rule obeys_seq, rule found)
      (auto intro!: obeys_seq sv_leaves e(1) fair_simple winner split: sum.split option.split)
  let ?rec = "\<lparr>iKey = key, iVerb = vName v, iHash = rh, iTaskID = tid, iCreatedAt = zero_time\<rparr>"
  have "iTaskID ?rec = tid" by simp
  note save = save_moves [OF _ _ this]
  show ?thesis
  proof (cases "key = []")
    case False
    then show ?thesis
      unfolding bind_prog_def if_not_P [OF False]
      by (intro obeys_seq obeys_call [where call = "sSaveIdempotency ops (hStore h 3) ?rec"])
        (use save in \<open>auto intro!: exI [of _ "Has tid"] exI [of _ known] lost split: option.split\<close>)
  qed (simp add: bind_prog_def)
qed

lemma created_obeys:
  assumes "request_env h cat"
  shows "obeys m svTasks (\<lambda>r a known. True) (created_prog ops h cat sync v key rh argv red stdin tid) (Has tid) known"
proof -
  have t: "henv_times h cat" using assms by (simp add: request_env_def)
  have answer: "obeys m svTasks (\<lambda>r a known. True) (case r of
       None \<Rightarrow> Ret (writeErr StatusInternalServerError ''store_error'' [])
     | Some k \<Rightarrow> seq (upd (sv_drain ops (hStore h 12) 20)) (\<lambda>u. Ret (task_answer StatusAccepted k []))) a known"
    for r a known by (auto intro!: obeys_seq sv_quiet(4) split: option.split)
  have run: "obeys m svTasks (\<lambda>r a known. True) (case w of
       Some k \<Rightarrow> Ret (replay_answer k)
     | None \<Rightarrow> seq (pipeline_prog ops h cat sync tid v argv red stdin) (\<lambda>u.
         seq (act (\<lambda>sv. (sGet ops (hStore h 11) tid (svTasks sv), sv))) (\<lambda>r.
         case r of
           None \<Rightarrow> Ret (writeErr StatusInternalServerError ''store_error'' [])
         | Some k \<Rightarrow> seq (upd (sv_drain ops (hStore h 12) 20)) (\<lambda>u. Ret (task_answer StatusAccepted k []))))) a known"
    if "w = None \<longrightarrow> a = Has tid" for w a known
  proof (cases w)
    case None
    with that have a: "a = Has tid" by simp
    show ?thesis unfolding None a option.case
      by (rule obeys_seq, rule obeys_mono [OF pipeline_obeys [OF t]]) (intro obeys_seq sv_read answer)
  qed simp
  show ?thesis
    unfolding created_prog_def
    by (rule obeys_seq, rule obeys_mono [OF bind_obeys [OF assms]]) (rule run)
qed

text \<open>The create: the goroutine takes the task it was going to make, or none is made.\<close>

lemma create_moves:
  assumes "sound s" and "holding (view s) (Will (eID e)) known" and "year_ok (eNow e)"
    and "sCreateAndAuditLimited ops e i ev m s = (r, s')"
  shows "\<exists>a. moves m (Will (eID e)) a s s' \<and> holding (view s') a known \<and>
    (\<forall>t. r = Inr t \<longrightarrow> tID t = eID e \<and> a = Has (eID e))"
proof -
  have i: "inv s" "keys_live view keys s" using assms(1) by (simp_all add: sound_def)
  have "view s (eID e) = None" using assms(2) by (simp add: holding_def)
  note c = create_any [OF i(1) assms(3) this assms(4)]
  show ?thesis
  proof (cases "view s' = view s \<and> (\<forall>t. r \<noteq> Inr t)")
    case True
    with c have "same s s'" by (simp add: same_def)
    from moves_quiet [OF assms(1) this, of m "Will (eID e)"] True assms(2) show ?thesis by auto
  next
    case False
    with c obtain t' where t: "int (sDepth ops s) < m" "view s' = (view s)(eID e \<mapsto> t')" "tState t' = StateAccepted"
      "\<forall>t. r = Inr t \<longrightarrow> tID t = eID e" by blast
    have "sound s'" using c i t(2) by (auto simp: sound_def keys_live_def)
    then have "moves m (Will (eID e)) (Has (eID e)) s s'" using c t(1,2) unfolding moves_def by auto
    moreover have "holding (view s') (Has (eID e)) known" using assms(2) t(2,3) by (auto simp: holding_def)
    ultimately show ?thesis using t(4) by blast
  qed
qed

lemma post_obeys:
  assumes "request_env h cat"
  shows "obeys (MaxQueueDepth (cDaemon cat)) svTasks (\<lambda>r a known. True)
    (post_prog ops h cat sync v args stdin key argv red) (Will (eID (hStore h 2))) known"
proof -
  let ?tid = "eID (hStore h 2)" and ?m = "MaxQueueDepth (cDaemon cat)"
  have y: "year_ok (eNow (hStore h 2))" using assms by (simp add: request_env_def henv_times_def)
  note create = create_moves [where e = "hStore h 2", OF _ _ y]
  have made: "obeys ?m svTasks (\<lambda>r a known. True) (case r of
       Inl QueueFull \<Rightarrow> Ret (writeErr StatusServiceUnavailable ''queue_full'' [])
     | Inl err \<Rightarrow> Ret (writeErr StatusInternalServerError ''store_error'' [])
     | Inr t \<Rightarrow> created_prog ops h cat sync v key rh argv red stdin (tID t)) a known"
    if "\<forall>t. r = Inr t \<longrightarrow> tID t = ?tid \<and> a = Has ?tid" for r rh a known
    using that created_obeys [OF assms] by (auto split: sum.split store_error.split)
  have room: "obeys ?m svTasks (\<lambda>r a known. True) (seq (act (\<lambda>sv. case sCreateAndAuditLimited ops (hStore h 2)
         (post_input cat v args stdin argv red) (api_event [] v (state_name StateAccepted) red None 0 []) ?m
         (svTasks sv) of (r, s) \<Rightarrow> (r, sv\<lparr>svTasks := s\<rparr>))) (\<lambda>r.
       case r of
         Inl QueueFull \<Rightarrow> Ret (writeErr StatusServiceUnavailable ''queue_full'' [])
       | Inl err \<Rightarrow> Ret (writeErr StatusInternalServerError ''store_error'' [])
       | Inr t \<Rightarrow> created_prog ops h cat sync v key rh argv red stdin (tID t))) (Will ?tid) known" for rh known
    by (intro obeys_seq obeys_call [where call = "sCreateAndAuditLimited ops (hStore h 2)
         (post_input cat v args stdin argv red) (api_event [] v (state_name StateAccepted) red None 0 []) ?m"])
      (use create made in \<open>blast, simp\<close>)
  have peek: "obeys ?m svTasks Q (act (peek_open (hSnap h) v)) a known" if "\<And>b. Q b a known" for Q a known
    by (rule obeys_quiet) (simp_all add: that same_refl peek_open_simps)
  have go_on: "obeys ?m svTasks (\<lambda>r a known. True) (case prior of
       PriorError \<Rightarrow> Ret (writeErr StatusInternalServerError ''store_error'' [])
     | PriorConflict \<Rightarrow> Ret (writeErr StatusConflict ''idempotency_conflict'' [])
     | PriorReplay t \<Rightarrow> Ret (replay_answer t)
     | PriorNone \<Rightarrow> seq (act (peek_open (hSnap h) v)) (\<lambda>isOpen.
         if isOpen then Ret (writeErr StatusServiceUnavailable ''circuit_open'' [])
         else seq (act (\<lambda>sv. case sCreateAndAuditLimited ops (hStore h 2)
             (post_input cat v args stdin argv red) (api_event [] v (state_name StateAccepted) red None 0 []) ?m
             (svTasks sv) of (r, s) \<Rightarrow> (r, sv\<lparr>svTasks := s\<rparr>))) (\<lambda>r.
           case r of
             Inl QueueFull \<Rightarrow> Ret (writeErr StatusServiceUnavailable ''queue_full'' [])
           | Inl err \<Rightarrow> Ret (writeErr StatusInternalServerError ''store_error'' [])
           | Inr t \<Rightarrow> created_prog ops h cat sync v key rh argv red stdin (tID t)))) (Will ?tid) known" for prior rh known
    using room by (cases prior) (simp_all, intro obeys_seq peek, simp)
  have prior: "obeys ?m svTasks Q (prior_prog ops h v key rh) (Will ?tid) known" if "\<And>p. Q p (Will ?tid) known" for Q rh
    unfolding prior_prog_def using that by (auto intro!: obeys_seq sv_read split: sum.split option.split)
  show ?thesis unfolding post_prog_def Let_def by (intro obeys_seq prior go_on)
qed

text \<open>Any request: a post of a verb is going to make the task named by its fresh id, the others make none.\<close>

lemma handler_obeys:
  assumes "request_env h cat"
  shows "obeys (MaxQueueDepth (cDaemon cat)) svTasks (\<lambda>r a known. True)
    (handler_prog ops h header req tok cat sync) (Will (eID (hStore h 2))) known"
proof -
  have verb: "obeys (MaxQueueDepth (cDaemon cat)) svTasks (\<lambda>r a known. True)
      (verb_prog ops h cat sync name payload) (Will (eID (hStore h 2))) known" for name payload
    unfolding verb_prog_def Let_def
    by (auto intro!: obeys_seq obeys_mono [OF post_obeys [OF assms]] split: option.split sum.split)
  have other: "obeys (MaxQueueDepth (cDaemon cat)) svTasks (\<lambda>r a known. True)
      (act (\<lambda>sv. case mux ops h req sv of None \<Rightarrow> (None, sv) | Some (rp, sv) \<Rightarrow> (Some rp, sv))) a known"
    if "\<forall>name payload. req \<noteq> ReqPostVerb name payload" for a
  proof (rule obeys_quiet)
    fix sv :: "'s server" assume i: "inv (svTasks sv)"
    show "same (svTasks sv) (svTasks (snd (case mux ops h req sv of None \<Rightarrow> (None, sv) | Some (rp, sv) \<Rightarrow> (Some rp, sv))))"
      using mux_same [OF i _ that] same_refl [OF i] by (auto split: option.split)
  qed simp
  show ?thesis
    using verb other by (auto simp: handler_prog_def split: request.split)
qed

subsection \<open>All goroutines together\<close>

text \<open>
  Each goroutine has its stake and keeps to it, no two have a stake in one task, and an id a request
  is going to use was given to it.
\<close>

definition pooled :: "int \<Rightarrow> 's \<Rightarrow> string set \<Rightarrow> (stake \<times> string set) list \<Rightarrow> ('s running, unit) prog list \<Rightarrow> bool" where
  "pooled m s ids gs ths \<longleftrightarrow> sound s \<and> length gs = length ths \<and>
     (\<forall>i < length ths. holding (view s) (fst (gs ! i)) (snd (gs ! i)) \<and>
        obeys m (\<lambda>rn. svTasks (rnServer rn)) (\<lambda>u a known. True) (ths ! i) (fst (gs ! i)) (snd (gs ! i)) \<and>
        (\<forall>tid. fst (gs ! i) = Will tid \<longrightarrow> tid \<in> ids) \<and>
        (\<forall>j < length ths. j \<noteq> i \<longrightarrow> distinct_stakes (fst (gs ! i)) (fst (gs ! j))))"

lemma pooled_start: "sound s \<Longrightarrow> pooled m s ids [] []"
  by (simp add: pooled_def)

text \<open>A new goroutine.\<close>

lemma pooled_new:
  assumes "pooled m s ids gs ths" and "holding (view s) a {}"
    and "obeys m (\<lambda>rn. svTasks (rnServer rn)) (\<lambda>u a known. True) p a {}"
    and "a = Free \<or> a = Will tid \<and> tid \<notin> ids" and "ids' = (if a = Free then ids else insert tid ids)"
  shows "pooled m s ids' ((a, {}) # gs) (p # ths)"
proof -
  have d: "distinct_stakes a (fst (gs ! i))" if i: "i < length ths" for i
  proof (cases "a = Free")
    case False
    with assms(2,4) have a: "a = Will tid" "tid \<notin> ids" "view s tid = None" by (auto simp: holding_def)
    have "staked (fst (gs ! i)) \<noteq> Some tid"
      using assms(1) i a(2,3) unfolding pooled_def by (cases "fst (gs ! i)") (force simp: holding_def)+
    with a(1) show ?thesis by (simp add: distinct_stakes_def)
  qed simp
  with assms show ?thesis
    unfolding pooled_def by (auto simp: nth_Cons distinct_stakes_sym split: nat.split)
qed

text \<open>One action of one goroutine.\<close>

lemma pooled_action:
  assumes "pooled m (svTasks (rnServer rn)) ids gs ths" and "i < length ths" and "ths ! i = Act k" and "k rn = (rn', p)"
  shows "\<exists>gs'. pooled m (svTasks (rnServer rn')) ids gs' (ths[i := p]) \<and>
    safe m (svTasks (rnServer rn)) (svTasks (rnServer rn'))"
proof -
  let ?s = "svTasks (rnServer rn)" and ?s' = "svTasks (rnServer rn')"
  obtain a known where g: "gs ! i = (a, known)" by fastforce
  have l: "length gs = length ths" and s: "sound ?s" and "holding (view ?s) (fst (gs ! i)) (snd (gs ! i))"
    and "obeys m (\<lambda>rn. svTasks (rnServer rn)) (\<lambda>u a known. True) (ths ! i) (fst (gs ! i)) (snd (gs ! i))"
    using assms(1,2) unfolding pooled_def by blast+
  then have h: "holding (view ?s) a known"
    and o: "obeys m (\<lambda>rn. svTasks (rnServer rn)) (\<lambda>u a known. True) (Act k) a known"
    by (simp_all only: assms(3) g fst_conv snd_conv)
  from o s h assms(4) obtain a' known' where m: "moves m a a' ?s ?s'" "holding (view ?s') a' known'"
      "obeys m (\<lambda>rn. svTasks (rnServer rn)) (\<lambda>u a known. True) p a' known'"
    unfolding obeys_Act by (metis fst_conv snd_conv)
  have others: "holding (view ?s') (fst (gs ! j)) (snd (gs ! j)) \<and> distinct_stakes a' (fst (gs ! j))"
    if "j < length ths" "j \<noteq> i" for j
    using moves_others [OF m(1) h] that assms(1,2) g unfolding pooled_def by (metis fst_conv)
  have will: "\<forall>tid. a' = Will tid \<longrightarrow> tid \<in> ids"
    using m(1) assms(1,2) g by (auto simp: moves_def pooled_def)
  have "sound ?s'" using m(1) by (simp add: moves_def)
  then have "pooled m ?s' ids (gs[i := (a', known')]) (ths[i := p])"
    using assms(1,2) l m(2,3) others will distinct_stakes_sym unfolding pooled_def
    by (auto simp: nth_list_update)
  with moves_safe [OF s h m(1)] show ?thesis by blast
qed

lemma system_step_safe:
  assumes "system_step ops cat (rn, ths, ids) (rn', ths', ids')"
    and "pooled (MaxQueueDepth (cDaemon cat)) (svTasks (rnServer rn)) ids gs ths"
  shows "\<exists>gs'. pooled (MaxQueueDepth (cDaemon cat)) (svTasks (rnServer rn')) ids' gs' ths' \<and>
    safe (MaxQueueDepth (cDaemon cat)) (svTasks (rnServer rn)) (svTasks (rnServer rn'))"
proof -
  let ?m = "MaxQueueDepth (cDaemon cat)" and ?st = "\<lambda>rn. svTasks (rnServer rn)"
  have s: "inv (?st rn)" "keys_live view keys (?st rn)" using assms(2) by (simp_all add: pooled_def sound_def)
  note refl = safe_refl [OF s, of ?m]
  show ?thesis
  proof (cases rule: system_stepE [OF assms(1), case_names request round action crash])
    case (request h e header req)
    let ?tid = "eID (hStore h 2)"
    have "view (?st rn) ?tid = None" using get [OF s(1) request(3), of ?tid] request(1,4) by simp
    then have "holding (view (?st rn)) (Will ?tid) {}" by (simp add: holding_def)
    moreover have "obeys ?m ?st (\<lambda>u a known. True) (on_server (handler_prog ops h header req (svToken (rnServer rn)) cat
        (svSyncExec (rnServer rn)))) (Will ?tid) {}"
      unfolding on_server_def forget_def
      by (intro obeys_seq obeys_on_part [where st = svTasks] obeys_mono [OF handler_obeys [OF request(2)]]) simp_all
    ultimately show ?thesis
      using pooled_new [OF assms(2), of "Will ?tid"] request refl by auto
  next
    case (round e1 x now e0)
    have "obeys ?m ?st (\<lambda>u a known. True)
        (on_worker (round_prog ops (worker_defaults (rnWorker rn)) now e0 e1 x)) Free {}"
      unfolding on_worker_def forget_def
      by (intro obeys_seq obeys_on_part [where st = wStore] obeys_mono [OF round_obeys [OF round(2,3) [folded round(1)]]])
        (simp_all add: worker_state_def after_worker_def)
    with pooled_new [OF assms(2), of Free] round refl show ?thesis by (auto simp: holding_def)
  next
    case (action i k p)
    with pooled_action [OF assms(2)] show ?thesis by blast
  next
    case (crash s1 es now st s' syncExec tok alog)
    have q: "quiet (?st rn) s1" by (rule failed_starts_quiet [OF crash(1) s(1)])
    then have "inv s1" by (simp add: quiet_def)
    from safe_quiet [OF s quiet_trans [OF q resume_any [OF this crash(2,3)]], of ?m]
    have d: "safe ?m (?st rn) (?st rn')" by (simp add: crash(4) build_def New_server_def)
    have "sound (?st rn')" using safe_facts [OF d] by (simp add: sound_def)
    with d show ?thesis using pooled_start crash(5,6) by blast
  qed
qed

lemma system_run_safe:
  assumes "system_run ops cat (rn0, ths0, ids0) (rn, ths, ids)"
    and "pooled (MaxQueueDepth (cDaemon cat)) (svTasks (rnServer rn0)) ids0 gs0 ths0"
  shows "\<exists>gs. pooled (MaxQueueDepth (cDaemon cat)) (svTasks (rnServer rn)) ids gs ths \<and>
    safe (MaxQueueDepth (cDaemon cat)) (svTasks (rnServer rn0)) (svTasks (rnServer rn))"
  using assms(1)
proof (induction "(rn, ths, ids)" arbitrary: rn ths ids rule: rtranclp_induct)
  case base
  have "inv (svTasks (rnServer rn0))" "keys_live view keys (svTasks (rnServer rn0))"
    using assms(2) by (simp_all add: pooled_def sound_def)
  from safe_refl [OF this] assms(2) base show ?case by auto
next
  case (step y)
  obtain rn1 ths1 ids1 where y: "y = (rn1, ths1, ids1)" by (metis prod_cases3)
  from step.hyps(3) [OF y] obtain gs where g: "pooled (MaxQueueDepth (cDaemon cat)) (svTasks (rnServer rn1)) ids1 gs ths1"
    "safe (MaxQueueDepth (cDaemon cat)) (svTasks (rnServer rn0)) (svTasks (rnServer rn1))" by blast
  from system_step_safe [OF step.hyps(2) [unfolded y] g(1)] safe_trans [OF g(2)] show ?case by blast
qed

end

subsection \<open>The promises of the daemon, with everything at once\<close>

text \<open>
  C2: The daemon keeps its promises although everything runs at once. Requests and rounds of the worker
  run on goroutines of their own: each call of the database, of a breaker or of the outbox is one
  step, the steps of all goroutines interleave in any order, new goroutines start at any time, any
  database call may fail (except the two lookups that tell a request which task won the race for its
  key), and the process may die between any two calls and be restarted. In every state on the way the
  queue holds no more live tasks than the larger of the configured capacity and what it started with,
  no task is lost, a task that reached a final state stays as it is, even if another goroutine was working
  next to it, an idempotency key stays bound to the task it was bound to and that task exists, and the
  database stays well formed.
\<close>

theorem interleaving_keeps_promises:
  assumes "run_daemon fl mc = (Serve rn0, disk, d)"
    and "system_run sqlite_ops (svCatalog (rnServer rn0)) (rn0, [], {}) (rn, ths, ids)"
    and "system_run sqlite_ops (svCatalog (rnServer rn0)) (rn, ths, ids) (rn', ths', ids')"
    and "\<forall>p n. year_ok (eNow (mcStore mc p n))"
    and "\<forall>p. sq_ok (mcDb mc p) \<and> keys_live sq_view sq_keys (mcDb mc p)"
  shows "sq_ok (svTasks (rnServer rn')) \<and>
    int (sq_Depth (svTasks (rnServer rn'))) \<le> max (int (sq_Depth (svTasks (rnServer rn0)))) (capacity rn0) \<and>
    (\<forall>tid t. sq_view (svTasks (rnServer rn)) tid = Some t \<longrightarrow>
       (\<exists>t'. sq_view (svTasks (rnServer rn')) tid = Some t' \<and> (terminal_state (tState t) \<longrightarrow> t' = t))) \<and>
    (\<forall>key b. sq_keys (svTasks (rnServer rn)) key = Some b \<longrightarrow> sq_keys (svTasks (rnServer rn')) key = Some b) \<and>
    (\<forall>key b. sq_keys (svTasks (rnServer rn')) key = Some b \<longrightarrow> sq_view (svTasks (rnServer rn')) (iTaskID b) \<noteq> None)"
proof -
  have s0: "sql.sound (svTasks (rnServer rn0))" using serves_sound [OF assms(1,4,5)] by (simp add: sql.sound_def)
  obtain gs where p: "sql.pooled (capacity rn0) (svTasks (rnServer rn)) ids gs ths"
    and s: "sql.safe (capacity rn0) (svTasks (rnServer rn0)) (svTasks (rnServer rn))"
    using sql.system_run_safe [OF assms(2) sql.pooled_start [OF s0]] by (auto simp: capacity_def)
  obtain gs' where s': "sql.safe (capacity rn0) (svTasks (rnServer rn)) (svTasks (rnServer rn'))"
    using sql.system_run_safe [OF assms(3)] p by (auto simp: capacity_def)
  from sql.safe_trans [OF s s'] s' show ?thesis by (simp add: sql.safe_def evolves_def keys_live_def)
qed

lemma post_acts: "key \<noteq> [] \<Longrightarrow> \<exists>k. post_prog ops h cat sync v args stdin key argv red = Act k"
  by (simp add: post_prog_def prior_prog_def act_def Let_def)

lemma verb_acts:
  assumes "parsed_post cat name payload v body argv red" and "pbKey body \<noteq> []"
  shows "\<exists>k. verb_prog ops h cat sync name payload = Act k"
proof -
  have "Get cat name = Some v" "decode_post payload = Some body"
    "expandArgv v (request_args v (pbArgs body)) (pbStdin body) = Some (Inr (argv, red))"
    using assms(1) by (simp_all add: parsed_post_def)
  moreover obtain k where "post_prog ops h cat sync v (request_args v (pbArgs body)) (pbStdin body) (pbKey body) argv red = Act k"
    using post_acts [OF assms(2)] by blast
  ultimately show ?thesis by (simp add: verb_prog_def Let_def)
qed

text \<open>Two requests under one key at the same time, one of them already past its first call.\<close>

theorem interleaving_keeps_promises_witness:
  "\<exists>rn p q. system_run sqlite_ops wifi_catalog (demo_running, [], {}) (rn, [p, q], {''t1'', ''t2''}) \<and>
     sq_ok (svTasks (rnServer rn)) \<and>
     int (sq_Depth (svTasks (rnServer rn))) \<le> max (int (sq_Depth empty_db)) (capacity demo_running)"
proof -
  obtain disk d where s: "run_daemon (Some demo_flags) demo_machine = (Serve demo_running, disk, d)"
    using demo_starts by (metis prod.collapse)
  have e: "svTasks (rnServer demo_running) = empty_db" and c: "svCatalog (rnServer demo_running) = wifi_catalog"
    by (simp_all add: demo_running_def build_def New_server_def)
  have env: "\<forall>p n. year_ok (eNow (mcStore demo_machine p n))" by (simp add: demo_machine_def clock_env_def year_ok_0)
  have db: "\<forall>p. sq_ok (mcDb demo_machine p) \<and> keys_live sq_view sq_keys (mcDb demo_machine p)"
    using sq_ok_empty by (simp add: demo_machine_def keys_live_def sq_keys_def find_idem_def empty_db_def)
  have id: "eID (hStore (demo_henv tid) k) = tid" for tid k by (simp add: demo_henv_def clock_env_def)
  have r: "request_env (demo_henv tid) wifi_catalog" "env_ok (hStore (demo_henv tid) 0)" for tid
    using demo_henv_ok [of tid wifi_catalog] henv_ok_times by (simp_all add: request_env_def henv_ok_def)
  have none: "sGet sqlite_ops ev tid (svTasks (rnServer demo_running)) = None" for ev tid
    unfolding e by (simp add: sqlite_ops_def sq_Get_def scanOne_def find_row_def empty_db_def)
  let ?th = "\<lambda>tid. on_server (handler_prog sqlite_ops (demo_henv tid) ''ab'' (ReqPostVerb ''wifi.info'' keyed_payload)
      (svToken (rnServer demo_running)) wifi_catalog (svSyncExec (rnServer demo_running)))"
  have v: "Valid (svToken (rnServer demo_running)) ''ab''"
  proof -
    have "svToken (rnServer demo_running) = Some \<lparr>raw = ''ab''\<rparr>" by (simp add: demo_running_def build_def New_server_def)
    moreover have "Valid (Some \<lparr>raw = ''ab''\<rparr>) ''ab''" by code_simp
    ultimately show ?thesis by simp
  qed
  have "pbKey (keyed_body []) \<noteq> []" by (simp add: keyed_body_def)
  from verb_acts [OF demo_parsed(1) this] obtain k' where
    "verb_prog sqlite_ops (demo_henv ''t2'') wifi_catalog (svSyncExec (rnServer demo_running)) ''wifi.info'' keyed_payload = Act k'"
    by blast
  with v obtain k where k: "?th ''t2'' = Act k"
    by (simp add: on_server_def forget_def handler_prog_def)
  obtain rn p where a: "k demo_running = (rn, p)" by fastforce
  have "system_step sqlite_ops wifi_catalog (demo_running, [], {}) (demo_running, [?th ''t1''], {''t1''})"
    using system_step.request [OF r none, of "''t1''" "{}"] by (simp add: id)
  moreover have "system_step sqlite_ops wifi_catalog (demo_running, [?th ''t1''], {''t1''})
      (demo_running, [?th ''t2'', ?th ''t1''], {''t2'', ''t1''})"
    using system_step.request [OF r none, of "''t2''" "{''t1''}"] by (simp add: id)
  moreover have "system_step sqlite_ops wifi_catalog (demo_running, [?th ''t2'', ?th ''t1''], {''t2'', ''t1''})
      (rn, [p, ?th ''t1''], {''t2'', ''t1''})"
    using system_step.action [where i = 0 and k = k and ths = "[?th ''t2'', ?th ''t1'']" and rn = demo_running
        and rn' = rn and p = p] a k by simp
  ultimately have run: "system_run sqlite_ops wifi_catalog (demo_running, [], {}) (rn, [p, ?th ''t1''], {''t1'', ''t2''})"
    by (simp add: insert_commute)
  from interleaving_keeps_promises [OF s _ _ env db, unfolded c, OF rtranclp.rtrancl_refl this] this e
  show ?thesis by auto
qed

end
