(* ===== verification/Durable.thy ===== *)
theory Durable
  imports Lifecycle Claim_Order
begin

text \<open>
  The daemon's own store is SQLite: the properties of crash recovery, of the worker and of the
  handlers on it, from the lemmas proved over the Store contract. Last, the liveness of the worker:
  how many rounds empty the queue.
\<close>

subsection \<open>Rounds that make progress\<close>

text \<open>The round claims a task whose breaker then refuses it.\<close>

definition refused :: "'s store_ops \<Rightarrow> worker \<Rightarrow> tick_input \<Rightarrow> 's wstate \<Rightarrow> bool" where
  "refused ops wk inp w =
     (case inp of (now, e0, e1, x) \<Rightarrow>
        (case fst (sClaimDue ops e1 now (wStore (w_drain ops e0 50 w))) of
           Inr (Some k) \<Rightarrow>
             (case Get (wCatalog wk) (tVerb k) of
                None \<Rightarrow> False
              | Some v \<Rightarrow> \<not> admitted x v (tVerb k) (wCircuits w))
         | _ \<Rightarrow> False))"

fun refusals :: "'s store_ops \<Rightarrow> worker \<Rightarrow> tick_input list \<Rightarrow> 's wstate \<Rightarrow> nat" where
  "refusals ops wk [] w = 0"
| "refusals ops wk (inp # ins) w =
     (if refused ops wk inp w then 1 else 0) + refusals ops wk ins (do_tick ops wk inp w)"

text \<open>The executions the live tasks still have, together.\<close>

definition backlog :: "catalog \<Rightarrow> (string \<Rightarrow> task option) \<Rightarrow> nat" where
  "backlog cat v = (\<Sum>tid \<in> {tid. v tid \<noteq> None}. credit_of cat (v tid))"

definition none_pending :: "(string \<Rightarrow> task option) \<Rightarrow> bool" where
  "none_pending v \<longleftrightarrow> (\<forall>tid t. v tid = Some t \<longrightarrow> tState t \<noteq> StatePending)"

lemma backlog_update:
  assumes "finite {tid. v tid \<noteq> None}" and "v tid = Some t"
  shows "backlog cat (v(tid \<mapsto> t')) + credit cat t = backlog cat v + credit cat t'"
proof -
  let ?D = "{tid. v tid \<noteq> None}"
  have D: "{k. (v(tid \<mapsto> t')) k \<noteq> None} = ?D" using assms(2) by auto
  have m: "tid \<in> ?D" using assms(2) by simp
  have "(\<Sum>k \<in> ?D - {tid}. credit_of cat ((v(tid \<mapsto> t')) k)) = (\<Sum>k \<in> ?D - {tid}. credit_of cat (v k))"
    by (rule sum.cong) auto
  then show ?thesis
    unfolding backlog_def D sum.remove [OF assms(1) m] using assms(2) by (simp add: credit_of_def)
qed

lemma backlog_zero:
  assumes "finite {tid. v tid \<noteq> None}" and "backlog cat v = 0"
  shows "none_pending v"
proof -
  have "credit_of cat (v tid) = 0" if "v tid \<noteq> None" for tid
    using assms that by (simp add: backlog_def)
  then show ?thesis by (fastforce simp: none_pending_def credit_of_def credit_def)
qed

lemma body_change_not_pending: "tState (body_change wk x circ task t) \<noteq> StatePending"
  by (simp add: body_change_def attempt_change_def Let_def set_unknown_verb_def set_circuit_open_def
      set_ok_def set_exhausted_def set_retry_def split: option.split prod.split)

lemma credit_unknown: "Get (wCatalog wk) (tVerb t) = None \<Longrightarrow> credit cat (body_change wk x circ t t) = 0"
  by (simp add: body_change_def set_unknown_verb_def credit_def)

text \<open>Without breakers nothing is refused.\<close>

lemma execute_no_circuits: "wCircuits w = None \<Longrightarrow> wCircuits (execute ops wk x task w) = None"
  by (auto simp: execute_def execute_body_def run_attempt_def w_breaker_def Let_def split: option.split prod.split)

lemma do_tick_no_circuits: "wCircuits w = None \<Longrightarrow> wCircuits (do_tick ops wk inp w) = None"
  by (auto simp: do_tick_def tick_def claim_and_execute_def Let_def execute_no_circuits
      split: prod.split sum.split option.split)

lemma refusals_none: "wCircuits w = None \<Longrightarrow> refusals ops wk ins w = 0"
proof (induction ins arbitrary: w)
  case (Cons inp ins)
  then have "\<not> refused ops wk inp w"
    by (simp add: refused_def admitted_def split: prod.split sum.split option.split)
  with Cons.IH [OF do_tick_no_circuits [OF Cons.prems]] show ?case by simp
qed simp

context task_store begin

lemmas crash_recovery = resume_effect
lemmas post_outcome = accepted_or_full
lemmas race_outcome = race_lost
lemmas same_execution = executors_same
lemmas run_budget = children_budget
lemmas claim_round = claim_execute_effect

lemma tick_progress:
  assumes "inv (wStore w)" and "tick_ok wk inp"
  shows "inv (wStore (do_tick ops wk inp w)) \<and>
    (none_pending (view (wStore w)) \<longrightarrow> none_pending (view (wStore (do_tick ops wk inp w)))) \<and>
    (none_pending (view (wStore w)) \<or>
     backlog (wCatalog wk) (view (wStore (do_tick ops wk inp w))) + (if refused ops wk inp w then 0 else 1) \<le>
       backlog (wCatalog wk) (view (wStore w)))"
proof -
  obtain now e0 e1 x where inp: "inp = (now, e0, e1, x)" by (cases inp)
  with assms(2) have e: "env_ok e1" "envs_ok x" "times_ok wk x" by (simp_all add: tick_ok_def)
  show ?thesis
  proof (cases rule: claim_execute_effect [OF assms(1) e, of now e0, case_names idle ran])
    case (idle w')
    then show ?thesis by (simp add: inp do_tick_def tick_def none_pending_def)
  next
    case (ran w' k t t' u)
    have ck: "tVerb k = tVerb t" using core_eqD(2) [OF ran(8)] by simp
    have act: "active_state (tState t)" using ran(5) by auto
    have "credit (wCatalog wk) t' = credit (wCatalog wk) (body_change wk x (wCircuits w) t t)"
      using credit_core [OF ran(9)] by simp
    moreover have "0 < credit (wCatalog wk) t" using act by (simp add: credit_def)
    ultimately have "credit (wCatalog wk) t' + (if refused ops wk inp w then 0 else 1) \<le> credit (wCatalog wk) t"
      using credit_change [OF act, of wk x "wCircuits w"] credit_unknown [of wk t "wCatalog wk" x "wCircuits w"] ran(7) ck
      by (simp add: inp refused_def split: option.splits if_splits)
    moreover have "tState t' \<noteq> StatePending"
      using core_eqD(3) [OF ran(9)] body_change_not_pending by simp
    ultimately show ?thesis
      using ran backlog_update [OF view_finite [OF assms(1)] ran(4), of "wCatalog wk" t']
      by (auto simp: inp do_tick_def tick_def none_pending_def)
  qed
qed

lemma loop_drains:
  assumes "inv (wStore w)" and "\<forall>inp \<in> set ins. tick_ok wk inp"
    and "none_pending (view (wStore w)) \<or> refusals ops wk ins w + backlog (wCatalog wk) (view (wStore w)) \<le> length ins"
  shows "none_pending (view (wStore (fold (do_tick ops wk) ins w)))"
  using assms
proof (induction ins arbitrary: w)
  case Nil
  with backlog_zero [OF view_finite] show ?case by auto
next
  case (Cons inp ins)
  have "tick_ok wk inp" using Cons.prems(2) by simp
  from tick_progress [OF Cons.prems(1) this] Cons.prems(2,3) show ?case
    by (auto intro!: Cons.IH split: if_splits)
qed

end

subsection \<open>Properties of the daemon on its own store\<close>

text \<open>
  C7: Crash recovery is complete and fails closed. On a database whose calls succeed, \<open>Resume\<close>
  succeeds; afterwards nothing is left executing, accepted or awaiting approval: interrupted
  executions are pending again, half-created requests are canceled, and every other task and every
  idempotency key is untouched. The reported numbers count the requeued tasks and the scheduled
  retries; the \<open>PendingKept\<close> number counts the requeued tasks a second time.
\<close>

theorem durable_resume_fails_closed:
  assumes "sq_ok d" and "\<forall>p n. env_ok (es p n)"
  shows "\<exists>st d'. Resume sqlite_ops es now d = ((st, None), d') \<and> sq_ok d' \<and> sq_keys d' = sq_keys d \<and>
    (\<forall>tid. sq_view d tid = None \<longrightarrow> sq_view d' tid = None) \<and>
    (\<forall>tid t. sq_view d tid = Some t \<longrightarrow>
       (\<exists>t'. sq_view d' tid = Some t' \<and> tState t' = after_resume (tState t) \<and>
             (after_resume (tState t) = tState t \<longrightarrow> t' = t))) \<and>
    ExecutingToPending st = int (card (state_ids StateExecuting (sq_view d))) \<and>
    PendingKept st =
      int (card (state_ids StatePending (sq_view d) \<union> state_ids StateExecuting (sq_view d))) \<and>
    RetryDue st + RetryFuture st = int (card (state_ids StateRetryScheduled (sq_view d)))"
  using sql.crash_recovery [OF assms, of now] .


lemma run_once_durable:
  assumes "sq_ok (wStore w)" and "env_ok e1" and "envs_ok x" and "times_ok (worker_defaults wk) x" and "year_ok now"
    and "RunOnce sqlite_ops wk now e0 e1 x w = (True, w')"
  shows "\<exists>t t' u. sq_view (wStore w) (tID t) = Some t \<and> due_by_second now t \<and>
    (\<forall>tid r. sq_view (wStore w) tid = Some r \<and> due_for_second now r \<longrightarrow>
       secs_of (tCreatedAt t) \<le> secs_of (tCreatedAt r)) \<and>
    sq_view (wStore w') = (sq_view (wStore w))(tID t \<mapsto> t') \<and>
    core t' = core ((body_change (worker_defaults wk) x (wCircuits w) t t)\<lparr>tUpdatedAt := u\<rparr>)"
proof (cases rule: sql.claim_round [OF assms(1-4), of now e0, case_names idle ran])
  case (idle w'')
  with assms(6) show ?thesis by (simp add: RunOnce_def)
next
  case (ran w'' k t t' u)
  let ?d = "wStore (w_drain sqlite_ops e0 50 w)"
  have w: "w'' = w'" using ran(1) assms(6) by (simp add: RunOnce_def)
  have d: "sq_ok ?d" "sq_view ?d = sq_view (wStore w)"
    using sql.drain [OF assms(1), of e0 "wLog w" 50] by (simp_all add: w_drain_def case_prod_unfold)
  have id: "tID t = tID k" using sql.view_id [OF assms(1) ran(4)] by simp
  from sq_claim_schedule [OF d(1) assms(2,5)] ran(7) obtain c where
    "sq_view ?d (tID k) = Some c" "due_by_second now c"
    "\<forall>tid r. sq_view ?d tid = Some r \<and> due_for_second now r \<longrightarrow> secs_of (tCreatedAt c) \<le> secs_of (tCreatedAt r)"
    by auto
  with d(2) ran id show ?thesis unfolding w by (intro exI [of _ t] exI [of _ t'] exI [of _ u]) simp
qed

text \<open>
  C8: What one round of the worker does. When \<open>RunOnce\<close> reports that it executed a task, it took one
  that is due to the second and no younger, to the second, than any task due for a second, and it
  changed no other. If the catalog knows the verb and the breaker admits it, a successful child makes
  the task \<open>executed\<close>; a failing one schedules a retry with the next attempt number at the backoff
  time while the attempts made so far are below the limit, and else exhausts the task. The output kept
  with the task is the scrubbed one.
\<close>

theorem durable_attempt_outcome:
  assumes "sq_ok (wStore w)" and "env_ok e1" and "envs_ok x" and "times_ok (worker_defaults wk) x" and "year_ok now"
    and "RunOnce sqlite_ops wk now e0 e1 x w = (True, w')"
  shows "\<exists>t t'. sq_view (wStore w) (tID t) = Some t \<and> due_by_second now t \<and>
    (\<forall>tid r. sq_view (wStore w) tid = Some r \<and> due_for_second now r \<longrightarrow>
       secs_of (tCreatedAt t) \<le> secs_of (tCreatedAt r)) \<and>
    sq_view (wStore w') = (sq_view (wStore w))(tID t \<mapsto> t') \<and>
    (\<forall>v. Get (wCatalog wk) (tVerb t) = Some v \<and> admitted x v (tVerb t) (wCircuits w) \<longrightarrow>
       (let res = Run (xOS x) (task_argv t) (tStdinBlob t) (verb_timeout (wCatalog wk) v)
        in tStdout t' = scrubOutput (rStdout res) (tStdinBlob t) \<and>
           (if is_ok res then
              tState t' = StateExecuted \<and> tLastOutcome t' = ''ok'' \<and> tNextRunAt t' = None \<and>
              tAttempt t' = tAttempt t
            else if tAttempt t < effective_retries (wCatalog wk) t then
              tState t' = StateRetryScheduled \<and> tAttempt t' = tAttempt t + 1 \<and>
              tNextRunAt t' = Some (retry_time (worker_defaults wk) x t)
            else tState t' = StateExhausted \<and> tNextRunAt t' = None \<and> tAttempt t' = tAttempt t)))"
proof -
  obtain t t' u where t: "sq_view (wStore w) (tID t) = Some t" "due_by_second now t"
      "\<forall>tid r. sq_view (wStore w) tid = Some r \<and> due_for_second now r \<longrightarrow>
         secs_of (tCreatedAt t) \<le> secs_of (tCreatedAt r)"
      "sq_view (wStore w') = (sq_view (wStore w))(tID t \<mapsto> t')"
      "core t' = core ((body_change (worker_defaults wk) x (wCircuits w) t t)\<lparr>tUpdatedAt := u\<rparr>)"
    using run_once_durable [OF assms] by blast
  note v = attempt_verdict [OF t(5), unfolded worker_defaults_catalog]
  show ?thesis by (rule exI [of _ t], rule exI [of _ t'], intro conjI t(1-4) v)
qed

text \<open>
  C25: The two ways an execution ends without a child process. A task whose verb has left the
  catalog is exhausted at once, with an error text and no attempt counted; a task whose breaker
  refuses is put back, due one second later, with no attempt counted either.
\<close>

theorem durable_error_paths:
  assumes "sq_ok (wStore w)" and "env_ok e1" and "envs_ok x" and "times_ok (worker_defaults wk) x" and "year_ok now"
    and "RunOnce sqlite_ops wk now e0 e1 x w = (True, w')"
  shows "\<exists>t t'. sq_view (wStore w) (tID t) = Some t \<and> due_by_second now t \<and>
    sq_view (wStore w') = (sq_view (wStore w))(tID t \<mapsto> t') \<and>
    (Get (wCatalog wk) (tVerb t) = None \<longrightarrow>
       tState t' = StateExhausted \<and> tError t' = ''unknown verb in catalog'' \<and> tAttempt t' = tAttempt t) \<and>
    (\<forall>v. Get (wCatalog wk) (tVerb t) = Some v \<and> \<not> admitted x v (tVerb t) (wCircuits w) \<longrightarrow>
       tState t' = StateRetryScheduled \<and> tNextRunAt t' = Some (xOpenNow x + second) \<and>
       tError t' = ''circuit_open'' \<and> tAttempt t' = tAttempt t)"
proof -
  obtain t t' u where t: "sq_view (wStore w) (tID t) = Some t" "due_by_second now t"
      "sq_view (wStore w') = (sq_view (wStore w))(tID t \<mapsto> t')"
      "core t' = core ((body_change (worker_defaults wk) x (wCircuits w) t t)\<lparr>tUpdatedAt := u\<rparr>)"
    using run_once_durable [OF assms] by blast
  note v = error_verdict [OF t(4), unfolded worker_defaults_catalog]
  show ?thesis by (rule exI [of _ t], rule exI [of _ t'], intro conjI t(1-3) v)
qed

text \<open>
  C9: The retry budget: however many rounds the polling loop makes, with whatever clocks, breakers,
  outcomes and other tasks around it, it runs a child process for a task at most
  \<open>limit - attempts made + 1\<close> times, and never for a task in a final state.
\<close>

theorem durable_retry_budget:
  assumes "sq_ok (wStore w)" and "\<forall>inp \<in> set ins. tick_ok (worker_defaults wk) inp"
  shows "count_list (children sqlite_ops (worker_defaults wk) ins w) (Some tid) \<le>
    (case sq_view (wStore w) tid of
       None \<Rightarrow> 0
     | Some t \<Rightarrow>
         if active_state (tState t)
         then Suc (nat (effective_retries (wCatalog wk) t - tAttempt t)) else 0)"
  using sql.run_budget [OF assms, of tid]
  by (auto simp: credit_of_def credit_def split: option.splits)

text \<open>
  The worker empties the queue. If no request comes in, then after at least as many rounds as
  the live tasks have executions left, plus the rounds in which an open breaker refused the claimed
  task, no task is pending any more: it was executed, is exhausted or waits for its retry. A failing
  or a missing verb, or a hanging child that is killed at its timeout, never blocks the queue.
\<close>

theorem worker_drains_queue:
  assumes "sq_ok (wStore w)" and "\<forall>inp \<in> set ins. tick_ok (worker_defaults wk) inp"
    and "refusals sqlite_ops (worker_defaults wk) ins w + backlog (wCatalog wk) (sq_view (wStore w)) \<le> length ins"
  shows "\<forall>tid t. sq_view (wStore (RunLoop sqlite_ops wk ins w)) tid = Some t \<longrightarrow> tState t \<noteq> StatePending"
  using sql.loop_drains [OF assms(1,2)] assms(3) by (simp add: RunLoop_ticks none_pending_def)

text \<open>
  C22: Two requests racing for one key: the one whose \<open>SaveIdempotency\<close> comes second finds the key
  taken, cancels the task it had created and answers with the winner's task; it runs no child
  process (the answer and the database do not depend on the operating system or on its own argument
  vector), and neither the key binding nor any other task changes.
\<close>

theorem durable_race_loser_yields:
  assumes "sq_ok (svTasks sv)" and "henv_ok h (svCatalog sv)" and "key \<noteq> []"
    and "sq_keys (svTasks sv) key = Some b" and "sq_view (svTasks sv) tid = Some own"
    and "sq_view (svTasks sv) (iTaskID b) = Some win" and "tid \<noteq> iTaskID b"
  shows "\<exists>sv' own'.
    (\<forall>os argv. run_created sqlite_ops (h\<lparr>hOS := os\<rparr>) v key rh argv red stdin tid sv = (replay_answer win, sv')) \<and>
    sq_keys (svTasks sv') = sq_keys (svTasks sv) \<and>
    sq_view (svTasks sv') = (sq_view (svTasks sv))(tid \<mapsto> own') \<and> tState own' = StateCanceled"
  using sql.race_outcome [OF assms] .



text \<open>
  C14: The inline executor and the worker agree. Run on the same stored task for its first attempt,
  with the same system, clock and random bytes, the daemon's backoff and the same retry limit,
  \<open>executeOnce\<close> and the worker leave the same task behind: same state, outcome, exit code, scrubbed
  output, error, attempt number and retry time (up to the modification time and the decoded result),
  and neither touches any other task.
\<close>

theorem durable_executors_agree:
  assumes "sq_ok (svTasks sv)" and "wStore w = svTasks sv" and "henv_ok h (svCatalog sv)" and "envs_ok x"
    and "times_ok wk x" and "sq_view (svTasks sv) tid = Some task" and "tAttempt task = 0"
    and "svCatalog sv = wCatalog wk" and "hOS h = xOS x" and "hRetryNow h = xRetryNow x" and "hRand h = xRand x"
    and "backoffBase (wCatalog wk) = wBackoffBase wk" and "maxServerJitter = wMaxJitter wk"
    and "mr = effective_retries (wCatalog wk) task"
  shows "\<exists>t1 t2.
    sq_view (svTasks (executeOnce sqlite_ops h tid v mr (task_argv task) red (tStdinBlob task) sv)) =
      (sq_view (svTasks sv))(tid \<mapsto> t1) \<and>
    sq_view (wStore (run_attempt sqlite_ops wk x v task w)) = (sq_view (svTasks sv))(tid \<mapsto> t2) \<and>
    core (t1\<lparr>tUpdatedAt := 0\<rparr>) = core (t2\<lparr>tUpdatedAt := 0\<rparr>)"
  using sql.same_execution [OF assms] .

subsection \<open>Concrete databases\<close>

definition table :: "task list \<Rightarrow> db" where
  "table ts = empty_db\<lparr>dbTasks := map new_row ts\<rparr>"

lemma table_ok: "distinct (map tID ts) \<Longrightarrow> \<forall>t \<in> set ts. storable t \<Longrightarrow> sq_ok (table ts)"
  by (auto simp: table_def sq_ok_def empty_db_def row_ok_new comp_def)

lemma scan_new_state:
  "env_ok e \<Longrightarrow> \<exists>t'. scanTask (new_row ((new_task e i)\<lparr>tState := st\<rparr>)) = Some t' \<and>
     core t' = core ((new_task e i)\<lparr>tState := st\<rparr>)"
  by (simp add: scanTask_def new_row_def new_task_def core_def env_ok_def del: state_name.simps)

lemma table_view:
  assumes "sq_ok (table ts)" and "t \<in> set ts" and "t = (new_task (clock_env 0 tid) i)\<lparr>tState := st\<rparr>"
  obtains t' where "sq_view (table ts) tid = Some t'" and "core t' = core t"
proof -
  have "env_ok (clock_env 0 tid)" by (simp add: env_ok_clock year_ok_0)
  from scan_new_state [OF this, of st i] assms(3) obtain t' where
    t': "scanTask (new_row t) = Some t'" "core t' = core t" by auto
  have "tID t = tid" using assms(3) by (simp add: new_task_def clock_env_def)
  with t'(1) assms(2) have "sq_view (table ts) tid = Some t'"
    unfolding sq_view_iff [OF assms(1)] by (auto simp: table_def)
  with t'(2) show thesis by (rule that [rotated])
qed

lemma table_one: "sq_view (table [t]) tid \<noteq> None \<Longrightarrow> tid = tID t"
  by (auto simp: sq_view_def scanOne_def find_row_def table_def empty_db_def split: if_splits)

lemma sample_id: "tID (sample_task tid st) = tid"
  by (simp add: sample_task_def new_task_def clock_env_def)

theorem durable_resume_fails_closed_witness:
  "\<exists>st d' t'. Resume sqlite_ops (\<lambda>p n. clock_env 0 ''x'') 0 (table [sample_task ''a'' StateExecuting]) = ((st, None), d') \<and>
     sq_view d' ''a'' = Some t' \<and> tState t' = StatePending"
proof -
  have ok: "sq_ok (table [sample_task ''a'' StateExecuting])"
    by (rule table_ok) (simp_all add: storable_sample)
  have e: "\<forall>p n. env_ok ((\<lambda>(p::nat) (n::nat). clock_env 0 ''x'') p n)" by (simp add: env_ok_clock year_ok_0)
  obtain t where t: "sq_view (table [sample_task ''a'' StateExecuting]) ''a'' = Some t"
    "core t = core (sample_task ''a'' StateExecuting)"
    by (rule table_view [OF ok _ sample_task_def]) simp
  have "tState t = StateExecuting" using core_eqD(3) [OF t(2)] by (simp add: sample_task_def)
  with durable_resume_fails_closed [OF ok e, of 0] t(1) show ?thesis by fastforce
qed


text \<open>A worker without breakers on a database with one pending task.\<close>

definition table_state :: "task \<Rightarrow> db wstate" where
  "table_state t = \<lparr>wStore = table [t], wCircuits = None, wLog = None, wNotifier = LogNotifier []\<rparr>"

definition failing_rounds :: "nat \<Rightarrow> tick_input list" where
  "failing_rounds n = replicate n (10 ^ 18, clock_env 0 ''e'', clock_env 0 ''e'', demo_exec False)"

lemma failing_rounds_ok: "\<forall>inp \<in> set (failing_rounds n). tick_ok (worker_defaults demo_worker) inp"
  by (simp add: failing_rounds_def tick_ok_def demo_envs demo_times)

lemma demo_table:
  shows "sq_ok (table [demo_task])"
    and "\<exists>t. sq_view (table [demo_task]) ''a'' = Some t \<and> core t = core demo_task"
proof -
  show ok: "sq_ok (table [demo_task])" by (rule table_ok) (simp_all add: demo_storable)
  show "\<exists>t. sq_view (table [demo_task]) ''a'' = Some t \<and> core t = core demo_task"
    by (rule table_view [OF ok _ demo_task_def]) auto
qed

text \<open>A round on a database with one pending task claims it.\<close>

lemma table_round:
  assumes "sq_ok (table [t])" and "sq_view (table [t]) (tID t) = Some t0" and "tState t0 = StatePending"
    and "env_ok e1" and "envs_ok x" and "times_ok (worker_defaults wk) x"
  shows "\<exists>w'. RunOnce sqlite_ops wk now e0 e1 x (table_state t) = (True, w')"
proof -
  have ok: "sq_ok (wStore (table_state t))" using assms(1) by (simp add: table_state_def)
  show ?thesis
  proof (cases rule: sql.claim_round [OF ok assms(4-6), of now e0, case_names idle ran])
    case (idle w')
    with assms(2,3) show ?thesis by (auto simp: table_state_def)
  next
    case (ran w' k t1 t' u)
    then show ?thesis by (simp add: RunOnce_def)
  qed
qed

theorem durable_attempt_outcome_witness:
  "\<exists>w' t'. RunOnce sqlite_ops demo_worker 0 (clock_env 0 ''e'') (clock_env 0 ''e'') (demo_exec False)
      (table_state demo_task) = (True, w') \<and>
    sq_view (wStore w') ''a'' = Some t' \<and> tState t' = StateRetryScheduled \<and> tAttempt t' = 1"
proof -
  obtain t0 where t0: "sq_view (table [demo_task]) ''a'' = Some t0" "core t0 = core demo_task"
    using demo_table(2) by blast
  note f = core_eqD [OF t0(2), simplified]
  have v: "sq_view (table [demo_task]) (tID demo_task) = Some t0" "tState t0 = StatePending"
    using t0(1) f(3) by simp_all
  obtain w' where w': "RunOnce sqlite_ops demo_worker 0 (clock_env 0 ''e'') (clock_env 0 ''e'')
      (demo_exec False) (table_state demo_task) = (True, w')"
    using table_round [OF demo_table(1) v(1,2) demo_envs(2,1) demo_times] by blast
  have ok: "sq_ok (wStore (table_state demo_task))" using demo_table(1) by (simp add: table_state_def)
  have one: "t = t0 \<and> tID t = ''a''" if "sq_view (wStore (table_state demo_task)) (tID t) = Some t" for t
    using that t0(1) table_one [of demo_task "tID t"] by (auto simp: table_state_def)
  have adm: "admitted (demo_exec False) wifi_verb verb (wCircuits (table_state demo_task))" for verb
    by (simp add: admitted_def table_state_def)
  have argv: "task_argv t0 = task_argv demo_task" using f(14) by (simp add: task_argv_def)
  have get: "Get (wCatalog demo_worker) (tVerb t0) = Some wifi_verb"
    using demo_get f(2) by (simp add: demo_worker_def)
  have r: "effective_retries (wCatalog demo_worker) t0 = 2" using f(5) by (simp add: effective_retries_def)
  from durable_attempt_outcome [OF ok demo_envs(2,1) demo_times year_ok_0 w'] obtain t t' where
    t: "sq_view (wStore (table_state demo_task)) (tID t) = Some t"
      "sq_view (wStore w') = (sq_view (wStore (table_state demo_task)))(tID t \<mapsto> t')"
    and res: "\<forall>v. Get (wCatalog demo_worker) (tVerb t) = Some v \<and>
         admitted (demo_exec False) v (tVerb t) (wCircuits (table_state demo_task)) \<longrightarrow>
       (let res = Run (xOS (demo_exec False)) (task_argv t) (tStdinBlob t) (verb_timeout (wCatalog demo_worker) v)
        in tStdout t' = scrubOutput (rStdout res) (tStdinBlob t) \<and>
           (if is_ok res then
              tState t' = StateExecuted \<and> tLastOutcome t' = ''ok'' \<and> tNextRunAt t' = None \<and>
              tAttempt t' = tAttempt t
            else if tAttempt t < effective_retries (wCatalog demo_worker) t then
              tState t' = StateRetryScheduled \<and> tAttempt t' = tAttempt t + 1 \<and>
              tNextRunAt t' = Some (retry_time (worker_defaults demo_worker) (demo_exec False) t)
            else tState t' = StateExhausted \<and> tNextRunAt t' = None \<and> tAttempt t' = tAttempt t))"
    by blast
  have "t = t0" "tID t = ''a''" using one [OF t(1)] by blast+
  with t res [rule_format, of wifi_verb] get adm r f argv demo_ok [of False] w' show ?thesis
    by (simp add: Let_def)
qed

theorem durable_error_paths_witness:
  "\<exists>w' t'. RunOnce sqlite_ops (demo_worker\<lparr>wCatalog := wifi_catalog\<lparr>ByName := [], Aliases := []\<rparr>\<rparr>) 0 (clock_env 0 ''e'')
      (clock_env 0 ''e'') (demo_exec False) (table_state demo_task) = (True, w') \<and>
    sq_view (wStore w') ''a'' = Some t' \<and> tState t' = StateExhausted"
proof -
  let ?wk = "demo_worker\<lparr>wCatalog := wifi_catalog\<lparr>ByName := [], Aliases := []\<rparr>\<rparr>"
  obtain t0 where t0: "sq_view (table [demo_task]) ''a'' = Some t0" "core t0 = core demo_task"
    using demo_table(2) by blast
  note f = core_eqD [OF t0(2), simplified]
  have v: "sq_view (table [demo_task]) (tID demo_task) = Some t0" "tState t0 = StatePending"
    using t0(1) f(3) by simp_all
  have times: "times_ok (worker_defaults ?wk) (demo_exec False)"
    by (rule times_ok_range)
      (simp_all add: demo_exec_def worker_defaults_def demo_worker_def Let_def duration_defs)
  obtain w' where w': "RunOnce sqlite_ops ?wk 0 (clock_env 0 ''e'') (clock_env 0 ''e'')
      (demo_exec False) (table_state demo_task) = (True, w')"
    using table_round [OF demo_table(1) v(1,2) demo_envs(2,1) times] by blast
  have ok: "sq_ok (wStore (table_state demo_task))" using demo_table(1) by (simp add: table_state_def)
  have one: "t = t0 \<and> tID t = ''a''" if "sq_view (wStore (table_state demo_task)) (tID t) = Some t" for t
    using that t0(1) table_one [of demo_task "tID t"] by (auto simp: table_state_def)
  have get: "Get (wCatalog ?wk) verb = None" for verb by (simp add: Get_def)
  from durable_error_paths [OF ok demo_envs(2,1) times year_ok_0 w'] obtain t t' where
    t: "sq_view (wStore (table_state demo_task)) (tID t) = Some t"
      "sq_view (wStore w') = (sq_view (wStore (table_state demo_task)))(tID t \<mapsto> t')"
      "Get (wCatalog ?wk) (tVerb t) = None \<longrightarrow>
         tState t' = StateExhausted \<and> tError t' = ''unknown verb in catalog'' \<and> tAttempt t' = tAttempt t" by (elim exE conjE) (rule that)
  have "tID t = ''a''" using one [OF t(1)] by blast
  with t get w' show ?thesis by auto
qed

theorem durable_retry_budget_witness:
  "count_list (children sqlite_ops (worker_defaults demo_worker) (failing_rounds 100) (table_state demo_task))
     (Some ''a'') \<le> 3"
proof -
  obtain t where t: "sq_view (table [demo_task]) ''a'' = Some t" "core t = core demo_task"
    using demo_table(2) by blast
  have "sq_ok (wStore (table_state demo_task))" using demo_table(1) by (simp add: table_state_def)
  from durable_retry_budget [OF this failing_rounds_ok, of 100 "''a''"] t(1) core_eqD(3-5) [OF t(2)] show ?thesis
    by (simp add: table_state_def effective_retries_def)
qed

lemma demo_backlog: "backlog cat (sq_view (table [demo_task])) = 3"
proof -
  obtain t where t: "sq_view (table [demo_task]) ''a'' = Some t" "core t = core demo_task"
    using demo_table(2) by blast
  have "{tid. sq_view (table [demo_task]) tid \<noteq> None} = {''a''}"
    using t(1) table_one [of demo_task] by auto
  with t(1) core_eqD(3-5) [OF t(2)] show ?thesis
    by (simp add: backlog_def credit_of_def credit_def effective_retries_def)
qed

theorem worker_drains_queue_witness:
  "none_pending (sq_view (wStore (RunLoop sqlite_ops demo_worker (failing_rounds 3) (table_state demo_task))))"
proof -
  have "sq_ok (wStore (table_state demo_task))" using demo_table(1) by (simp add: table_state_def)
  moreover have "refusals sqlite_ops (worker_defaults demo_worker) (failing_rounds 3) (table_state demo_task) +
      backlog (wCatalog demo_worker) (sq_view (wStore (table_state demo_task))) \<le> length (failing_rounds 3)"
    by (simp add: refusals_none table_state_def demo_backlog) (simp add: failing_rounds_def)
  ultimately show ?thesis unfolding none_pending_def by (rule worker_drains_queue [OF _ failing_rounds_ok])
qed

definition race_table :: db where
  "race_table = (table [sample_task ''a'' StatePending, sample_task ''b'' StateAccepted])
     \<lparr>dbIdem := [\<lparr>irKey = ''k'', irVerb = ''torch.set'', irHash = [], irTask = ''a'', irCreated = fmtTime 0\<rparr>]\<rparr>"

theorem durable_race_loser_yields_witness:
  "\<exists>win sv' own'. sq_view race_table ''a'' = Some win \<and>
     run_created sqlite_ops (demo_henv ''x'') wifi_verb ''k'' [] [] [] [] ''b''
       ((rnServer demo_running)\<lparr>svTasks := race_table\<rparr>) = (replay_answer win, sv') \<and>
     sq_view (svTasks sv') ''b'' = Some own' \<and> tState own' = StateCanceled"
proof -
  let ?sv = "(rnServer demo_running)\<lparr>svTasks := race_table\<rparr>"
  let ?ts = "[sample_task ''a'' StatePending, sample_task ''b'' StateAccepted]"
  let ?b = "idem_of_row \<lparr>irKey = ''k'', irVerb = ''torch.set'', irHash = [], irTask = ''a'', irCreated = fmtTime 0\<rparr>"
  have tk: "sq_ok (table ?ts)" by (rule table_ok) (simp_all add: storable_sample sample_id)
  then have ok: "sq_ok (svTasks ?sv)" by (simp add: race_table_def sq_ok_def)
  have v: "sq_view race_table = sq_view (table ?ts)"
    by (simp add: race_table_def sq_view_def scanOne_def find_row_def fun_eq_iff)
  have m: "sample_task ''a'' StatePending \<in> set ?ts" "sample_task ''b'' StateAccepted \<in> set ?ts" by simp_all
  obtain win where win: "sq_view (table ?ts) ''a'' = Some win" using table_view [OF tk m(1) sample_task_def] by blast
  obtain own where own: "sq_view (table ?ts) ''b'' = Some own" using table_view [OF tk m(2) sample_task_def] by blast
  have f: "sq_keys (svTasks ?sv) ''k'' = Some ?b" "sq_view (svTasks ?sv) ''b'' = Some own"
    "sq_view (svTasks ?sv) (iTaskID ?b) = Some win" "''b'' \<noteq> iTaskID ?b" "''k'' \<noteq> []"
    using win own by (simp_all add: v idem_of_row_def) (simp add: sq_keys_def find_idem_def race_table_def idem_of_row_def)
  obtain sv' own' where r: "\<forall>os argv. run_created sqlite_ops (demo_henv ''x''\<lparr>hOS := os\<rparr>) wifi_verb ''k'' [] argv []
        [] ''b'' ?sv = (replay_answer win, sv')"
      "sq_view (svTasks sv') = (sq_view (svTasks ?sv))(''b'' \<mapsto> own')" "tState own' = StateCanceled"
    using durable_race_loser_yields [OF ok demo_henv_ok f(5,1-4), where v = wifi_verb and rh = "[]" and red = "[]" and stdin = "[]"]
    by blast
  have "demo_henv ''x''\<lparr>hOS := demo_os True\<rparr> = demo_henv ''x''" by (simp add: demo_henv_def)
  with r win show ?thesis unfolding v by (metis fun_upd_same)
qed


theorem durable_executors_agree_witness:
  "\<exists>task t1 t2. sq_view (table [demo_task]) ''a'' = Some task \<and>
     sq_view (svTasks (executeOnce sqlite_ops (demo_henv ''x'') ''a'' wifi_verb 2 (task_argv task) []
       (tStdinBlob task) ((rnServer demo_running)\<lparr>svTasks := table [demo_task]\<rparr>))) ''a'' = Some t1 \<and>
     sq_view (wStore (run_attempt sqlite_ops agree_worker (demo_exec True) wifi_verb task
       (table_state demo_task))) ''a'' = Some t2 \<and> tState t1 = tState t2"
proof -
  let ?sv = "(rnServer demo_running)\<lparr>svTasks := table [demo_task]\<rparr>"
  obtain task where k: "sq_view (table [demo_task]) ''a'' = Some task" "core task = core demo_task"
    using demo_table(2) by blast
  have ok: "sq_ok (svTasks ?sv)" using demo_table(1) by simp
  have t: "times_ok agree_worker (demo_exec True)"
    by (rule times_ok_range) (simp_all add: demo_exec_def agree_worker_def maxServerJitter_def duration_defs)
  have c: "svCatalog (rnServer demo_running) = wifi_catalog" by (simp add: demo_running_def build_def New_server_def)
  have f: "wStore (table_state demo_task) = svTasks ?sv" "sq_view (svTasks ?sv) ''a'' = Some task" "tAttempt task = 0"
    "svCatalog ?sv = wCatalog agree_worker" "hOS (demo_henv ''x'') = xOS (demo_exec True)"
    "hRetryNow (demo_henv ''x'') = xRetryNow (demo_exec True)" "hRand (demo_henv ''x'') = xRand (demo_exec True)"
    "backoffBase (wCatalog agree_worker) = wBackoffBase agree_worker" "maxServerJitter = wMaxJitter agree_worker"
    "2 = effective_retries (wCatalog agree_worker) task"
    using k core_eqD(4,5) [OF k(2)]
    by (simp_all add: table_state_def c agree_worker_def demo_henv_def effective_retries_def, simp_all add: demo_exec_def)
  from durable_executors_agree [OF ok f(1) demo_henv_ok demo_envs(1) t f(2-10), of wifi_verb "[]"]
  obtain t1 t2 where r:
    "sq_view (svTasks (executeOnce sqlite_ops (demo_henv ''x'') ''a'' wifi_verb 2 (task_argv task) []
       (tStdinBlob task) ?sv)) = (sq_view (svTasks ?sv))(''a'' \<mapsto> t1)"
    "sq_view (wStore (run_attempt sqlite_ops agree_worker (demo_exec True) wifi_verb task
       (table_state demo_task))) = (sq_view (svTasks ?sv))(''a'' \<mapsto> t2)"
    "core (t1\<lparr>tUpdatedAt := 0\<rparr>) = core (t2\<lparr>tUpdatedAt := 0\<rparr>)" by blast
  have "tState t1 = tState t2" using core_eqD(3) [OF r(3)] by simp
  with k(1) r(1,2) show ?thesis by auto
qed

end
