(* ===== verification/Fault_Paths.thy ===== *)
theory Fault_Paths
  imports Lifecycle Durable
begin

text \<open>
  What becomes of single tasks when a database call fails: the loser of a race for a key that cannot
  read the winner, and tasks that a crash left executing.
\<close>

subsection \<open>The winner of a key cannot be read\<close>

text \<open>The pipeline does not use the environment of the lookup of the winner.\<close>

definition readable :: "env \<Rightarrow> http_env \<Rightarrow> http_env" where
  "readable e h = h\<lparr>hStore := (hStore h)(6 := e)\<rparr>"

lemma readable_simps [simp]:
  "hStore (readable e h) k = (if k = 6 then e else hStore h k)" "hOS (readable e h) = hOS h"
  "hStart (readable e h) = hStart h" "hEnd (readable e h) = hEnd h" "hFail (readable e h) = hFail h"
  "hRetryNow (readable e h) = hRetryNow h" "hRand (readable e h) = hRand h"
  by (simp_all add: readable_def)

lemma readable_calls:
  "hStore (readable e h) 7 = hStore h 7" "hStore (readable e h) 8 = hStore h 8"
  "hStore (readable e h) 9 = hStore h 9" "hStore (readable e h) 10 = hStore h 10"
  by simp_all

lemma runPipeline_readable:
  "runPipeline ops (readable e h) tid v argv red stdin sv = runPipeline ops h tid v argv red stdin sv"
  unfolding runPipeline_def executeOnce_def readable_calls readable_simps(2-) by (rule refl)

context task_store begin

lemma winner_unreadable:
  assumes "inv (svTasks sv)" and "henv_ok (readable e6 h) (svCatalog sv)" and "key \<noteq> []"
    and "keys (svTasks sv) key = Some b" and "view (svTasks sv) tid = Some mytask"
    and "\<forall>k s. sGet ops (hStore h 6) k s = None"
  shows "\<exists>sv' t' u. run_created ops h v key rh argv red stdin tid sv = (task_answer StatusAccepted t' [], sv') \<and>
    inv (svTasks sv') \<and> keys (svTasks sv') = keys (svTasks sv) \<and>
    view (svTasks sv') = (view (svTasks sv))(tid \<mapsto> t') \<and>
    core t' = core ((pipeline_change (readable e6 h) sv v argv stdin (superseded mytask))\<lparr>tUpdatedAt := u\<rparr>)"
proof -
  have e: "env_ok (hStore h k)" if "k \<noteq> 6" for k
    using assms(2) that by (auto simp: henv_ok_def split: if_splits)
  let ?r = "\<lparr>iKey = key, iVerb = vName v, iHash = rh, iTaskID = tid, iCreatedAt = zero_time\<rparr>"
  obtain err where s: "sSaveIdempotency ops (hStore h 3) ?r (svTasks sv) = (Some err, svTasks sv)"
    using save_taken [OF assms(1) e [of 3], of ?r] assms(4) by auto
  obtain r where f: "sFindIdempotency ops (hStore h 4) key (svTasks sv) = Inr (Some r)"
    using find_key [OF assms(1) e [of 4], of key] assms(4) by (auto simp: option_rel_Some2)
  let ?ev = "api_event tid v (state_name StateCanceled) red None 0 ''superseded by idempotent replay''"
  let ?sv = "sv_update ops (hStore h 5) tid superseded ?ev sv"
  have "core mytask = core (mytask\<lparr>tUpdatedAt := tUpdatedAt mytask\<rparr>)" by simp
  from update_step [OF assms(1) e [of 5] assms(5) this change_fun_simple(4), of ?ev]
  obtain t1 where u: "inv (svTasks ?sv)" "keys (svTasks ?sv) = keys (svTasks sv)"
      "view (svTasks ?sv) = (view (svTasks sv))(tid \<mapsto> t1)"
      "core t1 = core ((superseded mytask)\<lparr>tUpdatedAt := eNow (hStore h 5)\<rparr>)" by auto
  have b: "bind_key ops h v key rh tid red sv = (None, ?sv)"
    using assms(3,6) s f by (simp add: bind_key_def Let_def del: state_name.simps sv_update_simps)
  have v1: "view (svTasks ?sv) tid = Some t1" "henv_ok (readable e6 h) (svCatalog ?sv)" using u(3) assms(2) by simp_all
  let ?sv2 = "runPipeline ops h tid v argv red stdin ?sv"
  have same: "pipeline_change (readable e6 h) ?sv v argv stdin = pipeline_change (readable e6 h) sv v argv stdin"
    by (simp add: fun_eq_iff pipeline_change_def)
  obtain t' u' where p: "inv (svTasks ?sv2)" "keys (svTasks ?sv2) = keys (svTasks ?sv)"
      "view (svTasks ?sv2) = (view (svTasks ?sv))(tid \<mapsto> t')"
      "core t' = core ((pipeline_change (readable e6 h) sv v argv stdin (superseded mytask))\<lparr>tUpdatedAt := u'\<rparr>)"
    using runPipeline_effect [OF u(1) v1(2,1) u(4), of v argv red stdin] unfolding runPipeline_readable same by blast
  have "view (svTasks ?sv2) tid = Some t'" using p(3) by simp
  then obtain t2 where g: "sGet ops (hStore h 11) tid (svTasks ?sv2) = Some t2" "core t2 = core t'"
    using get_found [OF p(1) e [of 11]] by auto
  let ?sv3 = "sv_drain ops (hStore h 12) 20 ?sv2"
  have d: "view (svTasks ?sv3) = view (svTasks ?sv2)" "keys (svTasks ?sv3) = keys (svTasks ?sv2)" "inv (svTasks ?sv3)"
    using drain [OF p(1), of "hStore h 12" "svAudit ?sv2" 20] by (simp_all add: sv_drain_def case_prod_unfold)
  have "run_created ops h v key rh argv red stdin tid sv = (task_answer StatusAccepted t2 [], ?sv3)"
    using b g(1) by (simp add: run_created_def Let_def)
  moreover have "task_answer StatusAccepted t2 [] = task_answer StatusAccepted t' []"
    using core_eqD(1,3) [OF g(2)] by (simp add: task_answer_def)
  ultimately show ?thesis using d p u
    by (intro exI [of _ ?sv3] exI [of _ t'] exI [of _ u']) simp
qed

end

text \<open>
  C23: The loser of a race for a key runs after all when it cannot read the winner. With the worker
  on, a request that finds its key taken first cancels its own task as superseded; if the winner's
  task then cannot be read, it goes on with its own task, which it has just canceled: the answer
  is 202, the task leaves its final state for \<open>pending\<close>, still with the error text of its
  cancellation, so that the worker will run it beside the winner, and the key stays bound to the
  winner.
\<close>

theorem canceled_loser_revived:
  assumes "sq_ok (svTasks sv)" and "henv_ok (readable e6 h) (svCatalog sv)" and "eFault (hStore h 6)"
    and "\<not> svSyncExec sv" and "key \<noteq> []" and "sq_keys (svTasks sv) key = Some b" and "iTaskID b \<noteq> tid"
    and "sq_view (svTasks sv) tid = Some mytask"
  shows "\<exists>sv' t. run_created sqlite_ops h v key rh argv red stdin tid sv = (task_answer StatusAccepted t [], sv') \<and>
    sq_view (svTasks sv') = (sq_view (svTasks sv))(tid \<mapsto> t) \<and> tState t = StatePending \<and>
    tError t = ''superseded by idempotent replay'' \<and> sq_keys (svTasks sv') key = Some b"
proof -
  have g: "\<forall>k s. sGet sqlite_ops (hStore h 6) k s = None" using assms(3) by (simp add: sq_Get_def)
  obtain sv' t u where r: "run_created sqlite_ops h v key rh argv red stdin tid sv = (task_answer StatusAccepted t [], sv')"
      "sq_keys (svTasks sv') = sq_keys (svTasks sv)" "sq_view (svTasks sv') = (sq_view (svTasks sv))(tid \<mapsto> t)"
      "core t = core ((pipeline_change (readable e6 h) sv v argv stdin (superseded mytask))\<lparr>tUpdatedAt := u\<rparr>)"
    using sql.winner_unreadable [OF assms(1,2,5,6,8) g] by blast
  have "tState t = StatePending" "tError t = ''superseded by idempotent replay''"
    using core_eqD(3,11) [OF r(4)] assms(4) by (simp_all add: pipeline_change_def set_pending_def superseded_def)
  with r assms(6) show ?thesis by auto
qed

subsection \<open>Tasks left executing\<close>

definition input_times :: "worker \<Rightarrow> tick_input \<Rightarrow> bool" where
  "input_times wk inp = (case inp of (now, e0, e1, x) \<Rightarrow> year_ok (eNow e1) \<and> exec_times wk x)"

lemma tick_times: "tick_ok wk inp \<Longrightarrow> input_times wk inp"
  by (auto simp: tick_ok_def input_times_def env_ok_def exec_ok_times split: prod.splits)

context faulty_store begin

lemma loop_any:
  assumes "inv (wStore w)" and "\<forall>inp \<in> set ins. input_times wk inp"
  shows "inv (wStore (fold (do_tick ops wk) ins w)) \<and>
    (view (wStore w) tid = Some t \<and> \<not> waiting (tState t) \<longrightarrow>
       view (wStore (fold (do_tick ops wk) ins w)) tid = Some t)"
  using assms
proof (induction ins arbitrary: w)
  case Nil
  then show ?case by simp
next
  case (Cons inp ins)
  obtain now e0 e1 x where inp: "inp = (now, e0, e1, x)" by (cases inp)
  with Cons.prems(2) have e: "year_ok (eNow e1)" "exec_times wk x" by (simp_all add: input_times_def)
  have t: "inv (wStore (do_tick ops wk inp w))"
    "only_changes waiting (view (wStore w)) (view (wStore (do_tick ops wk inp w)))"
    using tick_any [OF Cons.prems(1) e, of now e0] by (simp_all add: inp do_tick_def)
  have "\<forall>inp \<in> set ins. input_times wk inp" using Cons.prems(2) by simp
  from Cons.IH [OF t(1) this] only_changes_keep [OF t(2)] show ?case by auto
qed

end

text \<open>
  C24: A start that cannot list strands interrupted work. When the query that lists the tasks fails
  while the daemon starts, \<open>Resume\<close> takes the failure for an empty list: it reports success with all
  numbers zero and leaves the database as it is, so the daemon serves; and from then on a task that
  the crash left executing is touched by no round of the worker, however many there are and whatever
  they find, until some later start resumes it.
\<close>

theorem failed_listing_strands:
  assumes "sq_ok d" and "sq_view d tid = Some t" and "tState t = StateExecuting" and "\<forall>n. eFault (es 0 n)"
  shows "Resume sqlite_ops es now d =
      ((\<lparr>ExecutingToPending = 0, PendingKept = 0, RetryDue = 0, RetryFuture = 0\<rparr>, None), d) \<and>
    (\<forall>wk w ins. wStore w = d \<and> (\<forall>inp \<in> set ins. input_times (worker_defaults wk) inp) \<longrightarrow>
      sq_view (wStore (RunLoop sqlite_ops wk ins w)) tid = Some t)"
proof
  have "sq_List (es 0 n) st d = []" for n st using assms(4) by (simp add: sq_List_def)
  then show "Resume sqlite_ops es now d =
      ((\<lparr>ExecutingToPending = 0, PendingKept = 0, RetryDue = 0, RetryFuture = 0\<rparr>, None), d)"
    by (simp add: Resume_def Let_def del: state_name.simps)
  show "\<forall>wk w ins. wStore w = d \<and> (\<forall>inp \<in> set ins. input_times (worker_defaults wk) inp) \<longrightarrow>
      sq_view (wStore (RunLoop sqlite_ops wk ins w)) tid = Some t"
    using sql.loop_any [where tid = tid and t = t] assms(1-3) by (auto simp: RunLoop_ticks)
qed

subsection \<open>Concrete cases\<close>

definition broken :: "env \<Rightarrow> env" where
  "broken e = e\<lparr>eFault := True\<rparr>"

theorem canceled_loser_revived_witness:
  "\<exists>sv' t. run_created sqlite_ops (readable (broken (clock_env 0 ''x'')) (demo_henv ''x'')) wifi_verb ''k'' [] [] [] []
       ''b'' ((rnServer demo_running)\<lparr>svTasks := race_table\<rparr>) = (task_answer StatusAccepted t [], sv') \<and>
     sq_view (svTasks sv') ''b'' = Some t \<and> tState t = StatePending"
proof -
  let ?sv = "(rnServer demo_running)\<lparr>svTasks := race_table\<rparr>"
  let ?h = "readable (broken (clock_env 0 ''x'')) (demo_henv ''x'')"
  let ?ts = "[sample_task ''a'' StatePending, sample_task ''b'' StateAccepted]"
  let ?b = "idem_of_row \<lparr>irKey = ''k'', irVerb = ''torch.set'', irHash = [], irTask = ''a'', irCreated = fmtTime 0\<rparr>"
  have tk: "sq_ok (table ?ts)" by (rule table_ok) (simp_all add: storable_sample sample_id)
  have v: "sq_view race_table = sq_view (table ?ts)"
    by (simp add: race_table_def sq_view_def scanOne_def find_row_def fun_eq_iff)
  have "sample_task ''b'' StateAccepted \<in> set ?ts" by simp
  then obtain mytask where m: "sq_view (table ?ts) ''b'' = Some mytask" using table_view [OF tk _ sample_task_def] by blast
  have h: "readable (clock_env 0 ''x'') ?h = demo_henv ''x''"
    by (simp add: readable_def demo_henv_def fun_eq_iff)
  have c: "sq_ok (svTasks ?sv)" "henv_ok (readable (clock_env 0 ''x'') ?h) (svCatalog ?sv)" "eFault (hStore ?h 6)"
    "\<not> svSyncExec ?sv" "''k'' \<noteq> []" "sq_keys (svTasks ?sv) ''k'' = Some ?b" "iTaskID ?b \<noteq> ''b''"
    "sq_view (svTasks ?sv) ''b'' = Some mytask"
    unfolding h using tk m demo_henv_ok
    by (simp_all add: v idem_of_row_def broken_def demo_running_def build_def New_server_def)
      (simp_all add: race_table_def sq_ok_def sq_keys_def find_idem_def idem_of_row_def)
  from canceled_loser_revived [OF c, of wifi_verb "[]" "[]" "[]" "[]"] show ?thesis by (elim exE conjE) auto
qed

theorem failed_listing_strands_witness:
  "\<exists>t. tState t = StateExecuting \<and>
     snd (Resume sqlite_ops (\<lambda>p n. broken (clock_env 0 ''x'')) 0 (table [sample_task ''a'' StateExecuting])) =
       table [sample_task ''a'' StateExecuting] \<and>
     sq_view (wStore (RunLoop sqlite_ops demo_worker (failing_rounds 5)
       (table_state (sample_task ''a'' StateExecuting)))) ''a'' = Some t"
proof -
  let ?d = "table [sample_task ''a'' StateExecuting]"
  have ok: "sq_ok ?d" by (rule table_ok) (simp_all add: storable_sample)
  obtain t where t: "sq_view ?d ''a'' = Some t" "core t = core (sample_task ''a'' StateExecuting)"
    by (rule table_view [OF ok _ sample_task_def]) simp
  have ex: "tState t = StateExecuting" using core_eqD(3) [OF t(2)] by (simp add: sample_task_def)
  have f: "\<forall>n. eFault ((\<lambda>(p::nat) (n::nat). broken (clock_env 0 ''x'')) 0 n)" by (simp add: broken_def)
  have ins: "\<forall>inp \<in> set (failing_rounds 5). input_times (worker_defaults demo_worker) inp"
    using failing_rounds_ok [of 5] tick_times by blast
  from failed_listing_strands [OF ok t(1) ex f, of 0] ins ex show ?thesis
    by (auto simp: table_state_def)
qed

end
