(* ===== verification/Recovery.thy ===== *)
theory Recovery
  imports Fault_Paths
begin

text \<open>
  The end of a story that went wrong: whatever a daemon went through, a start whose database calls
  succeed and enough rounds of the worker bring every task to rest. Over the Store contract first.
\<close>

text \<open>At rest: finished, or waiting for the time of a retry.\<close>

abbreviation at_rest :: "task_state \<Rightarrow> bool" where
  "at_rest st \<equiv> terminal_state st \<or> st = StateRetryScheduled"

definition settled :: "(string \<Rightarrow> task option) \<Rightarrow> bool" where
  "settled v \<longleftrightarrow> (\<forall>tid t. v tid = Some t \<longrightarrow> at_rest (tState t) \<or> tState t = StatePending)"

lemma settled_rest: "settled v \<Longrightarrow> none_pending v \<Longrightarrow> v tid = Some t \<Longrightarrow> at_rest (tState t)"
  unfolding settled_def none_pending_def by blast

lemma body_change_rests: "at_rest (tState (body_change wk x circ task t))"
  by (simp add: body_change_def attempt_change_def Let_def set_unknown_verb_def set_circuit_open_def
      set_ok_def set_exhausted_def set_retry_def split: option.split prod.split)

lemma after_resume_settled: "at_rest (after_resume st) \<or> after_resume st = StatePending"
  by (cases st) simp_all

lemma after_resume_terminal: "terminal_state st \<Longrightarrow> after_resume st = st"
  by (cases st) simp_all

context faulty_store begin

lemma tick_rests:
  assumes "inv (wStore w)" and "tick_ok wk inp" and "settled (view (wStore w))"
  shows "settled (view (wStore (do_tick ops wk inp w)))"
    and "view (wStore w) tid = Some t \<Longrightarrow>
      \<exists>t'. view (wStore (do_tick ops wk inp w)) tid = Some t' \<and> (terminal_state (tState t) \<longrightarrow> t' = t)"
proof -
  obtain now e0 e1 x where inp: "inp = (now, e0, e1, x)" by (cases inp)
  with assms(2) have e: "env_ok e1" "envs_ok x" "times_ok wk x" by (simp_all add: tick_ok_def)
  have "settled (view (wStore (do_tick ops wk inp w))) \<and>
    (view (wStore w) tid = Some t \<longrightarrow>
      (\<exists>t'. view (wStore (do_tick ops wk inp w)) tid = Some t' \<and> (terminal_state (tState t) \<longrightarrow> t' = t)))"
  proof (cases rule: claim_execute_effect [OF assms(1) e, of now e0, case_names idle ran])
    case (idle w')
    with assms(3) show ?thesis by (simp add: inp do_tick_def tick_def)
  next
    case (ran w' k q q' u)
    have rest: "at_rest (tState q')"
      using core_eqD(3) [OF ran(9)] body_change_rests [of wk x "wCircuits w" q q] by simp
    have v: "view (wStore (do_tick ops wk inp w)) = (view (wStore w))(tID k \<mapsto> q')"
      using ran(1,6) by (simp add: inp do_tick_def tick_def)
    have "settled ((view (wStore w))(tID k \<mapsto> q'))" using assms(3) rest by (simp add: settled_def)
    with v ran(4,5) show ?thesis by auto
  qed
  then show "settled (view (wStore (do_tick ops wk inp w)))"
    and "view (wStore w) tid = Some t \<Longrightarrow>
      \<exists>t'. view (wStore (do_tick ops wk inp w)) tid = Some t' \<and> (terminal_state (tState t) \<longrightarrow> t' = t)" by blast+
qed

lemma loop_rests:
  assumes "inv (wStore w)" and "\<forall>inp \<in> set ins. tick_ok wk inp" and "settled (view (wStore w))"
    and "view (wStore w) tid = Some t"
  shows "settled (view (wStore (fold (do_tick ops wk) ins w))) \<and>
    (\<exists>t'. view (wStore (fold (do_tick ops wk) ins w)) tid = Some t' \<and> (terminal_state (tState t) \<longrightarrow> t' = t))"
  using assms
proof (induction ins arbitrary: w t)
  case Nil
  then show ?case by simp
next
  case (Cons inp ins)
  have i: "tick_ok wk inp" "\<forall>inp \<in> set ins. tick_ok wk inp" using Cons.prems(2) by simp_all
  note r = tick_rests [OF Cons.prems(1) i(1) Cons.prems(3)]
  from r(2) [OF Cons.prems(4)] obtain t1 where
    t1: "view (wStore (do_tick ops wk inp w)) tid = Some t1" "terminal_state (tState t) \<longrightarrow> t1 = t" by blast
  have "inv (wStore (do_tick ops wk inp w))" using tick_progress [OF Cons.prems(1) i(1)] by blast
  from Cons.IH [OF this i(2) r(1) t1(1)] t1(2) show ?case by auto
qed

text \<open>A clean start and enough clean rounds, from any state of the store.\<close>

lemma resume_rests:
  assumes "inv s" and "\<forall>p n. env_ok (es p n)"
  shows "\<exists>st s'. Resume ops es now s = ((st, None), s') \<and> inv s' \<and> settled (view s') \<and>
    (\<forall>tid t. view s tid = Some t \<longrightarrow> (\<exists>t'. view s' tid = Some t' \<and> (terminal_state (tState t) \<longrightarrow> t' = t)))"
proof -
  obtain st s' where r: "Resume ops es now s = ((st, None), s')" "inv s'"
    and none: "\<forall>tid. view s tid = None \<longrightarrow> view s' tid = None"
    and fate: "\<forall>tid t. view s tid = Some t \<longrightarrow> (\<exists>t'. view s' tid = Some t' \<and>
      tState t' = after_resume (tState t) \<and> (after_resume (tState t) = tState t \<longrightarrow> t' = t))"
    using resume_effect [OF assms, of now] by blast
  have "at_rest (tState t') \<or> tState t' = StatePending" if t': "view s' tid = Some t'" for tid t'
  proof -
    from none t' obtain t where "view s tid = Some t" by (metis option.exhaust option.distinct(1))
    with fate t' have "tState t' = after_resume (tState t)" by (metis option.inject)
    with after_resume_settled show ?thesis by simp
  qed
  with r fate after_resume_terminal show ?thesis unfolding settled_def by metis
qed

lemma recovers:
  assumes "inv s" and "\<forall>p n. env_ok (es p n)"
  shows "\<exists>st s'. Resume ops es now s = ((st, None), s') \<and>
    (\<forall>wk w ins. wStore w = s' \<and> (\<forall>inp \<in> set ins. tick_ok (worker_defaults wk) inp) \<and>
       refusals ops (worker_defaults wk) ins w + backlog (wCatalog wk) (view s') \<le> length ins \<longrightarrow>
       (\<forall>tid t. view s tid = Some t \<longrightarrow>
          (\<exists>t'. view (wStore (RunLoop ops wk ins w)) tid = Some t' \<and> at_rest (tState t') \<and>
             (terminal_state (tState t) \<longrightarrow> t' = t))))"
proof -
  obtain st s' where r: "Resume ops es now s = ((st, None), s')" "inv s'" "settled (view s')"
    and fate: "\<forall>tid t. view s tid = Some t \<longrightarrow> (\<exists>t'. view s' tid = Some t' \<and> (terminal_state (tState t) \<longrightarrow> t' = t))"
    using resume_rests [OF assms, of now] by blast
  have "\<exists>t'. view (wStore (RunLoop ops wk ins w)) tid = Some t' \<and> at_rest (tState t') \<and> (terminal_state (tState t) \<longrightarrow> t' = t)"
    if w: "wStore w = s'" and i: "\<forall>inp \<in> set ins. tick_ok (worker_defaults wk) inp"
      and n: "refusals ops (worker_defaults wk) ins w + backlog (wCatalog wk) (view s') \<le> length ins"
      and t: "view s tid = Some t" for wk w ins tid t
  proof -
    from fate t obtain t1 where t1: "view (wStore w) tid = Some t1" "terminal_state (tState t) \<longrightarrow> t1 = t" using w by blast
    have iw: "inv (wStore w)" "settled (view (wStore w))" using r w by simp_all
    have "none_pending (view (wStore (RunLoop ops wk ins w)))"
      using loop_drains [OF iw(1) i] n by (simp add: w RunLoop_ticks)
    with loop_rests [OF iw(1) i iw(2) t1(1)] t1(2) settled_rest show ?thesis
      unfolding RunLoop_ticks by metis
  qed
  with r(1) show ?thesis by blast
qed

end

subsection \<open>Properties\<close>

text \<open>
  C6: Every accepted task comes to rest. Take a daemon through any history of requests, worker rounds
  and restarts, with database failures and crashes anywhere. If the next start finds a working
  database it succeeds, and if no request comes in, then after at least as many rounds as the live
  tasks have executions left, plus the rounds in which an open breaker refused the claimed task, each
  task the database held is still there and is executed, exhausted or canceled or waits for the time
  of its retry; none is pending, executing or half created any more, and the tasks that had
  finished before are what they were. A failing or missing verb, or a hanging child that is killed at
  its timeout, never blocks the queue.
\<close>

theorem every_task_comes_to_rest:
  assumes "run_daemon fl mc = (Serve rn0, disk, d)" and "daemon_run sqlite_ops rn0 rn"
    and "\<forall>p n. year_ok (eNow (mcStore mc p n))"
    and "\<forall>p. sq_ok (mcDb mc p) \<and> keys_live sq_view sq_keys (mcDb mc p)"
    and "\<forall>p n. env_ok (es p n)"
  shows "\<exists>st s'. Resume sqlite_ops es now (svTasks (rnServer rn)) = ((st, None), s') \<and>
    (\<forall>wk w ins. wStore w = s' \<and> (\<forall>inp \<in> set ins. tick_ok (worker_defaults wk) inp) \<and>
       refusals sqlite_ops (worker_defaults wk) ins w + backlog (wCatalog wk) (sq_view s') \<le> length ins \<longrightarrow>
       (\<forall>tid t. sq_view (svTasks (rnServer rn)) tid = Some t \<longrightarrow>
          (\<exists>t'. sq_view (wStore (RunLoop sqlite_ops wk ins w)) tid = Some t' \<and> at_rest (tState t') \<and>
             (terminal_state (tState t) \<longrightarrow> t' = t))))"
  using sql.recovers [OF _ assms(5), of "svTasks (rnServer rn)" now] sql.safe_facts [OF daemon_stays_safe(1) [OF assms(1,2) rtranclp.rtrancl_refl assms(3,4)]] by blast

lemma demo_accepts:
  "\<exists>sv' t rp. handlePostVerb sqlite_ops (demo_henv ''t1'') ''wifi.info'' keyed_payload (rnServer demo_running) =
      Some (rp, sv') \<and> sq_view (svTasks sv') ''t1'' = Some t \<and> tState t = StatePending"
proof -
  let ?sv = "rnServer demo_running"
  have s: "svTasks ?sv = empty_db" "svCatalog ?sv = wifi_catalog" "\<not> svSyncExec ?sv"
    by (simp_all add: demo_running_def build_def New_server_def)
  have e: "eID (hStore (demo_henv ''t1'') 2) = ''t1''" by (simp add: demo_henv_def clock_env_def)
  have k: "sq_ok (svTasks ?sv)" "pbKey (keyed_body []) = [] \<or> sq_keys (svTasks ?sv) (pbKey (keyed_body [])) = None"
    "sq_view (svTasks ?sv) (eID (hStore (demo_henv ''t1'') 2)) = None"
    unfolding s using sq_ok_empty
    by (simp_all add: sq_keys_def sq_view_def find_idem_def scanOne_def find_row_def empty_db_def)
  have d: "int (sDepth sqlite_ops (svTasks ?sv)) < MaxQueueDepth (cDaemon (svCatalog ?sv))"
    unfolding s by (simp add: sq_Depth_def empty_db_def wifi_catalog_def Default_def)
  have peek: "\<not> fst (peek_open (hSnap (demo_henv ''t1'')) wifi_verb ?sv)"
    by (rule peek_new [of _ "CBTripThreshold (cDaemon wifi_catalog)" "seconds (CBOpenS (cDaemon wifi_catalog))"])
      (simp add: demo_running_def build_def New_server_def)
  from sql.post_outcome [OF k(1) demo_henv_ok s(3) demo_parsed(1) [folded s(2)] k(2) peek k(3), unfolded if_P [OF d]]
  show ?thesis unfolding e by auto
qed

theorem every_task_comes_to_rest_witness:
  "\<exists>rn t st s' ins t'. daemon_step sqlite_ops demo_running rn \<and>
     sq_view (svTasks (rnServer rn)) ''t1'' = Some t \<and> tState t = StatePending \<and>
     Resume sqlite_ops (\<lambda>p n. clock_env 0 ''x'') 0 (svTasks (rnServer rn)) = ((st, None), s') \<and>
     sq_view (wStore (RunLoop sqlite_ops demo_worker ins
       \<lparr>wStore = s', wCircuits = None, wLog = None, wNotifier = LogNotifier []\<rparr>)) ''t1'' = Some t' \<and>
     at_rest (tState t')"
proof -
  obtain sv' t rp where p: "handlePostVerb sqlite_ops (demo_henv ''t1'') ''wifi.info'' keyed_payload (rnServer demo_running) =
      Some (rp, sv')" and t: "sq_view (svTasks sv') ''t1'' = Some t" "tState t = StatePending"
    using demo_accepts by blast
  let ?rn = "demo_running\<lparr>rnServer := sv'\<rparr>"
  have "svToken (rnServer demo_running) = Some \<lparr>raw = ''ab''\<rparr>"
    by (simp add: demo_running_def build_def New_server_def)
  moreover have "Valid (Some \<lparr>raw = ''ab''\<rparr>) ''ab''" by code_simp
  ultimately have tok: "Valid (svToken (rnServer demo_running)) ''ab''" by (simp only:)
  then have h: "Handler sqlite_ops (demo_henv ''t1'') ''ab'' (ReqPostVerb ''wifi.info'' keyed_payload)
      (rnServer demo_running) = Some (rp, sv')" using p by (simp add: Handler_def withAuth_def)
  have "svTasks (rnServer demo_running) = empty_db" by (simp add: demo_running_def build_def New_server_def)
  then have "sGet sqlite_ops (clock_env 0 ''x'') (eID (hStore (demo_henv ''t1'') 2)) (svTasks (rnServer demo_running)) = None"
    by (simp add: sq_Get_def scanOne_def find_row_def empty_db_def)
  from daemon_step.request [OF henv_ok_times [OF demo_henv_ok] env_ok_clock [OF year_ok_0] this h]
  have step: "daemon_step sqlite_ops demo_running ?rn" .
  obtain disk d where s: "run_daemon (Some demo_flags) demo_machine = (Serve demo_running, disk, d)"
    using demo_starts by (metis prod.collapse)
  have env: "\<forall>p n. year_ok (eNow (mcStore demo_machine p n))"
    "\<forall>p n. env_ok ((\<lambda>(p::nat) (n::nat). clock_env 0 ''x'') p n)"
    by (simp_all add: demo_machine_def clock_env_def env_ok_def year_ok_0)
  have db: "\<forall>p. sq_ok (mcDb demo_machine p) \<and> keys_live sq_view sq_keys (mcDb demo_machine p)"
    using sq_ok_empty by (simp add: demo_machine_def keys_live_def sq_keys_def find_idem_def empty_db_def)
  obtain st s' where r: "Resume sqlite_ops (\<lambda>p n. clock_env 0 ''x'') 0 (svTasks (rnServer ?rn)) = ((st, None), s')"
    and rest: "\<forall>wk w ins. wStore w = s' \<and> (\<forall>inp \<in> set ins. tick_ok (worker_defaults wk) inp) \<and>
       refusals sqlite_ops (worker_defaults wk) ins w + backlog (wCatalog wk) (sq_view s') \<le> length ins \<longrightarrow>
       (\<forall>tid t. sq_view (svTasks (rnServer ?rn)) tid = Some t \<longrightarrow>
          (\<exists>t'. sq_view (wStore (RunLoop sqlite_ops wk ins w)) tid = Some t' \<and> at_rest (tState t') \<and>
             (terminal_state (tState t) \<longrightarrow> t' = t)))"
    using every_task_comes_to_rest [OF s r_into_rtranclp [where r = "daemon_step sqlite_ops", OF step] env(1) db env(2)]
    by blast
  let ?n = "backlog (wCatalog demo_worker) (sq_view s')"
  let ?w = "\<lparr>wStore = s', wCircuits = None, wLog = None, wNotifier = LogNotifier []\<rparr>"
  have len: "length (failing_rounds ?n) = ?n" by (simp add: failing_rounds_def)
  have c: "wStore ?w = s' \<and> (\<forall>inp \<in> set (failing_rounds ?n). tick_ok (worker_defaults demo_worker) inp) \<and>
      refusals sqlite_ops (worker_defaults demo_worker) (failing_rounds ?n) ?w + ?n \<le> length (failing_rounds ?n)"
    by (intro conjI failing_rounds_ok) (simp_all add: refusals_none len)
  have v: "sq_view (svTasks (rnServer ?rn)) ''t1'' = Some t" using t(1) by simp
  from rest [THEN spec [of _ demo_worker], THEN spec [of _ ?w], THEN spec [of _ "failing_rounds ?n"], THEN mp, OF c,
      THEN spec [of _ "''t1''"], THEN spec [of _ t], THEN mp, OF v]
  obtain t' where t': "sq_view (wStore (RunLoop sqlite_ops demo_worker (failing_rounds ?n) ?w)) ''t1'' = Some t'"
    "at_rest (tState t')" by blast
  show ?thesis
    by (rule exI [of _ ?rn], rule exI [of _ t], rule exI [of _ st], rule exI [of _ s'],
        rule exI [of _ "failing_rounds ?n"], rule exI [of _ t'], intro conjI step v t(2) r t')
qed

end
