(* ===== verification/Json_Fuel.thy ===== *)
theory Json_Fuel
  imports Json
begin

text \<open>
  The fuel of the JSON parser is enough: every successful call consumes input, so with the fuel
  \<open>json_decode\<close> starts with, more fuel never changes the answer. A \<open>None\<close> of the parser is an error
  of the text, as in Go's decoder, and never a lack of fuel.
\<close>

subsection \<open>Every token consumes input\<close>

lemma skip_ws_length: "length (skip_ws s) \<le> length s"
  by (simp add: skip_ws_def length_dropWhile_le)

lemma skip_ws_Cons: "skip_ws s = c # cs \<Longrightarrow> length cs < length s"
  using skip_ws_length [of s] by simp

lemma unescape_u_length: "unescape_u s = Some (out, rest) \<Longrightarrow> length rest \<le> length s"
  by (auto simp: unescape_u_def Let_def split: option.splits if_splits)

lemma unescape_length: "unescape s = Some (out, rest) \<Longrightarrow> length rest \<le> length s"
  by (auto simp: unescape_def dest: unescape_u_length split: list.splits if_splits)

lemma pstr_length: "pstr n s = Some (k, r) \<Longrightarrow> length r < length s"
proof (induction n s arbitrary: k r rule: pstr.induct)
  case (3 n c cs)
  show ?case
  proof (cases "c = quote \<or> c \<noteq> backslash \<and> byte c < 0x20")
    case True
    with 3(4) show ?thesis by (auto split: if_splits)
  next
    case False
    show ?thesis
    proof (cases "c = backslash")
      case True
      with False 3(4) obtain out rest k' where u: "unescape cs = Some (out, rest)" "pstr n rest = Some (k', r)"
        by (auto split: option.splits)
      with 3(1) [OF _ True] False unescape_length [OF u(1)] show ?thesis by fastforce
    next
      case bs: False
      show ?thesis
      proof (cases "utf8_len (c # cs) = 0")
        case True
        with bs False 3(4) obtain k' where "pstr n cs = Some (k', r)"
          by (auto simp: Let_def simp del: utf8_len.simps)
        with 3(2) bs False True show ?thesis by fastforce
      next
        case pos: False
        with bs False 3(4) obtain k' where "pstr n (drop (utf8_len (c # cs)) (c # cs)) = Some (k', r)"
          by (auto simp: Let_def simp del: utf8_len.simps)
        from 3(3) [OF _ bs _ refl pos this] False bs
        have "length r < length (drop (utf8_len (c # cs)) (c # cs))" by simp
        then show ?thesis by simp
      qed
    qed
  qed
qed simp_all

lemma num_int_length: "num_int s = Some (i, r) \<Longrightarrow> length r < length s"
  by (auto simp: num_int_def le_imp_less_Suc length_dropWhile_le split: list.splits if_splits)

lemma num_frac_length: "num_frac s = Some (f, r) \<Longrightarrow> length r \<le> length s"
  by (auto simp: num_frac_def le_SucI length_dropWhile_le split: list.splits if_splits)

lemma num_exp_length: "num_exp s = Some (e, r) \<Longrightarrow> length r \<le> length s"
  by (auto simp: num_exp_def Let_def le_SucI length_dropWhile_le split: list.splits if_splits)

lemma pnumber_length: "pnumber s = Some (l, r) \<Longrightarrow> length r < length s"
  by (fastforce simp: pnumber_def Let_def dest: num_int_length num_frac_length num_exp_length
      split: option.splits prod.splits if_splits)

text \<open>The cases of one step of the parser.\<close>

lemma pval_Some:
  assumes "pval (Suc n) d s = Some (v, r)" and "skip_ws s = c # cs"
  obtains "r = drop 1 (skip_ws cs)" | kvs where "pmembers n (Suc d) [] cs = Some (kvs, r)"
    | vs where "pelems n (Suc d) cs = Some (vs, r)" | k where "pstr (Suc (length cs)) cs = Some (k, r)"
    | j where "r = drop j cs" | w where "pnumber (c # cs) = Some (w, r)"
  using assms by (auto split: if_splits simp del: pmembers.simps pelems.simps pstr.simps)

lemma pelems_Some:
  assumes "pelems (Suc n) d s = Some (vs, r)"
  obtains v r1 c cs where "pval n d s = Some (v, r1)" "skip_ws r1 = c # cs"
    "r = cs \<or> (\<exists>ws. pelems n d cs = Some (ws, r))"
  using assms by (auto split: option.splits list.splits if_splits)

lemma pmembers_Some:
  assumes "pmembers (Suc n) d m s = Some (kvs, r)"
  obtains q qs k r1 v r2 c cs where "skip_ws s = q # qs" "pstr (Suc (length qs)) qs = Some (k, r1)"
    "pval n d (drop 1 (skip_ws r1)) = Some (v, r2)" "skip_ws r2 = c # cs"
    "r = cs \<or> pmembers n d (AList.update k v m) cs = Some (kvs, r)"
  using assms by (auto split: option.splits list.splits if_splits simp del: pstr.simps)

lemma parse_length:
  "pval n d s = Some (v, r) \<Longrightarrow> length r < length s"
  "pelems n d s = Some (vs, r) \<Longrightarrow> length r < length s"
  "pmembers n d m s = Some (kvs, r) \<Longrightarrow> length r < length s"
proof (induction n arbitrary: d s v r vs m kvs)
  case (Suc n)
  {
    case 1
    then obtain c cs where c: "skip_ws s = c # cs" by (auto split: list.splits)
    then have l: "length (c # cs) \<le> length s" using skip_ws_length [of s] by simp
    from 1 c show ?case
    proof (cases rule: pval_Some)
      case 1
      then show ?thesis using l skip_ws_length [of cs] by simp
    next
      case 2
      from Suc(3) [OF this] l show ?thesis by simp
    next
      case 3
      from Suc(2) [OF this] l show ?thesis by simp
    next
      case 4
      from pstr_length [OF this] l show ?thesis by simp
    next
      case 5
      with l show ?thesis by simp
    next
      case 6
      from pnumber_length [OF this] l show ?thesis by simp
    qed
  next
    case 2
    then obtain v r1 c cs where e: "pval n d s = Some (v, r1)" "skip_ws r1 = c # cs"
      "r = cs \<or> (\<exists>ws. pelems n d cs = Some (ws, r))" by (rule pelems_Some)
    from Suc(1) [OF e(1)] skip_ws_Cons [OF e(2)] e(3) Suc(2) show ?case by fastforce
  next
    case 3
    then obtain q qs k r1 v r2 c cs where e: "skip_ws s = q # qs" "pstr (Suc (length qs)) qs = Some (k, r1)"
      "pval n d (drop 1 (skip_ws r1)) = Some (v, r2)" "skip_ws r2 = c # cs"
      "r = cs \<or> pmembers n d (AList.update k v m) cs = Some (kvs, r)" by (rule pmembers_Some)
    have "length cs < length s"
      using skip_ws_Cons [OF e(1)] pstr_length [OF e(2)] Suc(1) [OF e(3)] skip_ws_Cons [OF e(4)]
        skip_ws_length [of r1] by simp
    with e(5) Suc(3) show ?case by fastforce
  }
qed simp_all

subsection \<open>More fuel changes nothing\<close>

lemma pval_cong:
  assumes "\<And>c cs. skip_ws s = c # cs \<Longrightarrow> pmembers n (Suc d) [] cs = pmembers k (Suc d) [] cs"
    and "\<And>c cs. skip_ws s = c # cs \<Longrightarrow> pelems n (Suc d) cs = pelems k (Suc d) cs"
  shows "pval (Suc n) d s = pval (Suc k) d s"
  using assms by (cases "skip_ws s") (simp_all del: pmembers.simps pelems.simps pstr.simps)

lemma pelems_cong:
  assumes "pval n d s = pval k d s"
    and "\<And>v r c cs. pval n d s = Some (v, r) \<Longrightarrow> skip_ws r = c # cs \<Longrightarrow> pelems n d cs = pelems k d cs"
  shows "pelems (Suc n) d s = pelems (Suc k) d s"
proof (cases "pval n d s")
  case None
  with assms(1) show ?thesis by simp
next
  case (Some p)
  then obtain v r where p: "pval n d s = Some (v, r)" by (cases p) simp
  then have q: "pval k d s = Some (v, r)" using assms(1) by simp
  show ?thesis using assms(2) [OF p] by (cases "skip_ws r") (simp_all add: p q del: pval.simps)
qed

lemma pmembers_cong:
  assumes "\<And>q qs kk r1. skip_ws s = q # qs \<Longrightarrow> pstr (Suc (length qs)) qs = Some (kk, r1) \<Longrightarrow>
      pval n d (drop 1 (skip_ws r1)) = pval k d (drop 1 (skip_ws r1))"
    and "\<And>q qs kk r1 v r2 c cs m'. skip_ws s = q # qs \<Longrightarrow> pstr (Suc (length qs)) qs = Some (kk, r1) \<Longrightarrow>
      pval n d (drop 1 (skip_ws r1)) = Some (v, r2) \<Longrightarrow> skip_ws r2 = c # cs \<Longrightarrow>
      pmembers n d m' cs = pmembers k d m' cs"
  shows "pmembers (Suc n) d m s = pmembers (Suc k) d m s"
proof (cases "skip_ws s")
  case (Cons q qs)
  show ?thesis
  proof (cases "pstr (Suc (length qs)) qs")
    case None
    with Cons show ?thesis by (simp del: pstr.simps)
  next
    case (Some p)
    then obtain kk r1 where p: "pstr (Suc (length qs)) qs = Some (kk, r1)" by (cases p) simp
    note v = assms(1) [OF Cons p]
    show ?thesis
    proof (cases "pval n d (drop 1 (skip_ws r1))")
      case None
      with Cons p v show ?thesis by (simp del: pstr.simps)
    next
      case (Some a)
      then obtain w r2 where a: "pval n d (drop 1 (skip_ws r1)) = Some (w, r2)" by (cases a) simp
      then have b: "pval k d (drop 1 (skip_ws r1)) = Some (w, r2)" using v by simp
      show ?thesis
        using assms(2) [OF Cons p a] by (cases "skip_ws r2") (simp_all add: Cons p a b del: pstr.simps pval.simps One_nat_def)
    qed
  qed
qed simp

lemma parse_fuel:
  "2 * length s < n \<Longrightarrow> 2 * length s < k \<Longrightarrow> pval n d s = pval k d s"
  "2 * length s + 1 < n \<Longrightarrow> 2 * length s + 1 < k \<Longrightarrow> pelems n d s = pelems k d s"
  "2 * length s + 1 < n \<Longrightarrow> 2 * length s + 1 < k \<Longrightarrow> pmembers n d m s = pmembers k d m s"
proof (induction n arbitrary: k d s m)
  case (Suc n)
  {
    case 1
    then obtain k' where k: "k = Suc k'" by (cases k) simp_all
    have l: "2 * length cs + 1 < n \<and> 2 * length cs + 1 < k'" if "skip_ws s = c # cs" for c cs
      using skip_ws_Cons [OF that] 1 k by simp
    show ?case unfolding k using l by (intro pval_cong Suc.IH(2,3)) blast+
  next
    case 2
    then obtain k' where k: "k = Suc k'" by (cases k) simp_all
    have l: "2 * length cs + 1 < n \<and> 2 * length cs + 1 < k'"
      if "pval n d s = Some (v, r)" "skip_ws r = c # cs" for v r c cs
      using skip_ws_Cons [OF that(2)] parse_length(1) [OF that(1)] 2 k by simp
    show ?case unfolding k
    proof (rule pelems_cong)
      show "pval n d s = pval k' d s" using 2 k by (intro Suc.IH(1)) simp_all
      show "pelems n d cs = pelems k' d cs" if "pval n d s = Some (v, r)" "skip_ws r = c # cs" for v r c cs
        using l [OF that] by (intro Suc.IH(2)) simp_all
    qed
  next
    case 3
    then obtain k' where k: "k = Suc k'" by (cases k) simp_all
    have l: "2 * length (drop 1 (skip_ws r1)) < n \<and> 2 * length (drop 1 (skip_ws r1)) < k'"
      if "skip_ws s = q # qs" "pstr (Suc (length qs)) qs = Some (kk, r1)" for q qs kk r1
      using skip_ws_Cons [OF that(1)] pstr_length [OF that(2)] skip_ws_length [of r1] 3 k by auto
    have l2: "2 * length cs + 1 < n \<and> 2 * length cs + 1 < k'"
      if "skip_ws s = q # qs" "pstr (Suc (length qs)) qs = Some (kk, r1)"
        "pval n d (drop 1 (skip_ws r1)) = Some (v, r2)" "skip_ws r2 = c # cs" for q qs kk r1 v r2 c cs
      using skip_ws_Cons [OF that(1)] pstr_length [OF that(2)] skip_ws_length [of r1]
        parse_length(1) [OF that(3)] skip_ws_Cons [OF that(4)] 3 k by auto
    show ?case unfolding k
    proof (rule pmembers_cong)
      show "pval n d (drop 1 (skip_ws r1)) = pval k' d (drop 1 (skip_ws r1))"
        if "skip_ws s = q # qs" "pstr (Suc (length qs)) qs = Some (kk, r1)" for q qs kk r1
        using l [OF that] by (intro Suc.IH(1)) simp_all
      show "pmembers n d m' cs = pmembers k' d m' cs"
        if "skip_ws s = q # qs" "pstr (Suc (length qs)) qs = Some (kk, r1)"
          "pval n d (drop 1 (skip_ws r1)) = Some (v, r2)" "skip_ws r2 = c # cs" for q qs kk r1 v r2 c cs m'
        using l2 [OF that] by (intro Suc.IH(3)) simp_all
    qed
  }
qed simp_all

lemma json_decode_fuel: "2 * length s < n \<Longrightarrow> pval n 0 s = json_decode s"
  unfolding json_decode_def by (rule parse_fuel(1)) simp_all

text \<open>The same for the bytes of a string.\<close>

lemma pstr_fuel: "length s < n \<Longrightarrow> length s < k \<Longrightarrow> pstr n s = pstr k s"
proof (induction n s arbitrary: k rule: pstr.induct)
  case (2 n)
  then show ?case by (cases k) simp_all
next
  case (3 n c cs)
  from 3(5) obtain k' where k: "k = Suc k'" by (cases k) simp_all
  have l: "length cs < n" "length cs < k'" using 3(4,5) k by simp_all
  have u: "pstr n rest = pstr k' rest" if "unescape cs = Some (out, rest)" "c \<noteq> quote" "c = backslash" for out rest
  proof -
    have "length rest < n" "length rest < k'" using unescape_length [OF that(1)] l by linarith+
    then show ?thesis by (rule 3(1) [OF that(2,3,1) refl])
  qed
  have w: "pstr n cs = pstr k' cs" if "c \<noteq> quote" "c \<noteq> backslash" "\<not> byte c < 0x20" "utf8_len (c # cs) = 0"
    by (rule 3(2) [OF that(1-3) refl that(4) l])
  have x: "pstr n (drop j (c # cs)) = pstr k' (drop j (c # cs))"
    if "c \<noteq> quote" "c \<noteq> backslash" "\<not> byte c < 0x20" "j = utf8_len (c # cs)" "j \<noteq> 0" for j
  proof -
    have "length (drop j (c # cs)) \<le> length cs" using that(5) by simp
    then have "length (drop j (c # cs)) < n" "length (drop j (c # cs)) < k'" using l by linarith+
    then show ?thesis by (rule 3(3) [OF that(1-5)])
  qed
  consider "c = quote \<or> c \<noteq> backslash \<and> byte c < 0x20" | "c \<noteq> quote" "c = backslash"
    | "c \<noteq> quote" "c \<noteq> backslash" "\<not> byte c < 0x20" by blast
  then show ?case
  proof cases
    case 1
    then show ?thesis unfolding k by auto
  next
    case 2
    show ?thesis
    proof (cases "unescape cs")
      case None
      with 2 show ?thesis unfolding k by simp
    next
      case (Some p)
      obtain out rest where p: "p = (out, rest)" by (cases p)
      show ?thesis unfolding k using 2 Some u [OF Some [unfolded p] 2] by (simp add: p)
    qed
  next
    case 3
    obtain j where j: "utf8_len (c # cs) = j" by blast
    show ?thesis
    proof (cases "j = 0")
      case True
      with 3 j w [OF 3] show ?thesis unfolding k by (simp add: Let_def del: utf8_len.simps)
    next
      case False
      with 3 j x [OF 3 j [symmetric] False] show ?thesis unfolding k by (simp add: Let_def del: utf8_len.simps)
    qed
  qed
qed simp

end
