(* ===== verification/Spec2Isabelle.thy ===== *)
theory Spec2Isabelle
  imports Backoff Go_Strings Breaker Ring Argv Token Audit_Log Streams Worker_Facts Api_Facts Outbox Claim_Order Claim_Race
    Store_Spec Lifecycle Interleave Durable Fault_Paths Recovery Json_Fuel
begin

text \<open>
  dispatcher-go is a daemon on the loopback interface that runs Termux:API commands for an agent. A
  client posts a verb of the catalog with arguments; the daemon checks its token, expands the verb's
  argument vector, stores a task in SQLite and answers at once; a worker claims due tasks, runs the
  command, records the outcome and schedules retries; every transition is written to an audit log
  through an outbox. Verbs that watch a sensor run as streams with a ring buffer. After a crash the
  store is brought back to a state the worker can continue from.

  Conventions. Each theory names the Go files it models; a definition has the name of the function it
  models where HOL allows it (prefixes \<open>mem_\<close> and \<open>sq_\<close> tell the two stores apart). Structs are
  records, enumerations datatypes, maps association lists with distinct keys, and byte strings
  strings. A method takes the state of its receiver and returns the new one. Errors are values of a
  sum or option type; the human-readable texts of errors are left out, their kind is kept. What the
  code learns from outside is an argument: clock readings, random bytes, new identifiers, the result
  of a child process (\<open>os\<close>), faults of the database driver, of the disk and of the audit file
  (\<open>env\<close>), the environment of one request (\<open>http_env\<close>), of one execution (\<open>exec_env\<close>) and of the
  start (\<open>machine\<close>). The YAML decoder and SHA-256 are parameters. A mutex makes an operation one step.

  Language and standard library: \<open>Prelude\<close> (association lists), \<open>Go_Strings\<close>, \<open>Go_Time\<close> (instants,
  64-bit durations with their wrap-around), \<open>Go_Clock\<close> (RFC 3339 texts, and that parsing inverts
  formatting), \<open>Time_Order\<close> (how such texts compare), \<open>Go_Value\<close> (values of type \<open>any\<close>, float64
  printing), \<open>Json\<close> (encoder and decoder), \<open>Json_Fuel\<close> (the decoder's fuel is enough).

  Components.
    \<^item> \<open>Config\<close>, \<open>Allowlist\<close>, \<open>Verbs\<close>, \<open>Catalog_View\<close>: \<open>internal/config\<close>, \<open>internal/termuxallow\<close>,
      \<open>internal/verbs\<close>, \<open>internal/api/catalog.go\<close>. A catalog that loads is well formed; search
      returns the best matches in rank order.
    \<^item> \<open>Argv\<close>, \<open>Redact\<close>: \<open>expandArgv\<close>, \<open>subst\<close>, \<open>scrubOutput\<close> of \<open>internal/api/server.go\<close> and
      \<open>internal/approve/redact.go\<close>. What expansion computes, that it never changes the binary, that the
      redacted vector hides the stdin body, and when it terminates.
    \<^item> \<open>Token\<close>, \<open>Audit_Log\<close>: \<open>internal/auth\<close>, \<open>internal/audit\<close>.
    \<^item> \<open>Backoff\<close>, \<open>Breaker\<close>: \<open>internal/retry\<close>, \<open>internal/circuit\<close>. The breaker refines a three-state
      machine.
    \<^item> \<open>Ring\<close>, \<open>Streams\<close>: \<open>internal/streams\<close>; the ring and the memory of the audit log share the
      locale \<open>bounded_buffer\<close>. The registry is a transition system in which starts interleave.
    \<^item> \<open>Task\<close>, \<open>Store\<close>: \<open>internal/queue/task.go\<close>. The Store interface is a record of operations; the
      locale \<open>task_store\<close> states what its clients rely on, over the tasks (\<open>view\<close>) and key bindings
      (\<open>keys\<close>) a store shows and its invariant. \<open>core\<close> blanks the fields a store may re-encode. The
      locale \<open>faulty_store\<close> extends it by what holds when calls fail: each takes effect as a whole
      or not at all.
    \<^item> \<open>Memory_Store\<close>, and \<open>Sqlite_Store\<close> with \<open>Sqlite_Facts\<close>: \<open>internal/queue/memory.go\<close> and
      \<open>sqlite.go\<close>, the two interpretations (\<open>mem\<close>, \<open>sql\<close>) of both locales. The database is its
      tables, with the texts the code writes; a transaction is one step.
    \<^item> \<open>Resume\<close>: \<open>internal/queue/resume.go\<close>, over any store.
    \<^item> \<open>Exec\<close>, \<open>Notify\<close>, \<open>Worker\<close>, \<open>Worker_Facts\<close>: \<open>internal/execx\<close>, \<open>internal/notify\<close>,
      \<open>internal/worker\<close>, over any store.
    \<^item> \<open>Http\<close>, \<open>Task_View\<close>, \<open>Api_Server\<close>, \<open>Api_Facts\<close>: \<open>internal/api/server.go\<close>: responses and
      request bodies, the projection of a task, every handler behind authentication, over any store.
    \<^item> \<open>Daemon\<close>: \<open>cmd/dispatcher/main.go\<close>: from the flags to the running objects.

  The components together.
    \<^item> \<open>Store_Spec\<close>: both stores refine one abstract store on every sequence of calls. The locale
      \<open>scheduled_store\<close> adds to \<open>task_store\<close> when a retry may be claimed and which task goes first;
      the memory store keeps the exact schedule, the SQLite store the one rounded to seconds.
    \<^item> \<open>Claim_Race\<close>: claimers that interleave the SELECT and the UPDATE of \<open>ClaimDue\<close> never hold the
      same task. \<open>Claim_Order\<close>: the order of claims, which SQL takes on texts, is right to the second.
    \<^item> \<open>Outbox\<close>: an event survives its JSON encoding, and the outbox delivers every event in order at
      least once, whatever fails in between.
    \<^item> \<open>Faults\<close>: what the worker, the handlers and crash recovery change when any of their store calls
      may fail. A crash inside a step is a step whose remaining calls fail without effect.
    \<^item> \<open>Lifecycle\<close>: requests, worker rounds, failing calls, crashes and restarts as one transition
      system; its invariants, and that a keyed request is executed once over the daemon's whole life.
    \<^item> \<open>Threads\<close>, \<open>Steps\<close>, \<open>Concurrent\<close>, \<open>Interleave\<close>: goroutines. A program is a tree of actions;
      \<open>Steps\<close> splits the worker's round and the handlers at their calls and proves that, run alone,
      they are the functions of \<open>Worker\<close> and \<open>Api_Server\<close>; \<open>Concurrent\<close> gives each program a stake in
      at most one task and proves that every action keeps to it; \<open>Interleave\<close> lets any number of
      them run at once, with failing calls and crashes anywhere.
    \<^item> \<open>Durable\<close>: recovery, the worker and the handlers on the SQLite store, and how many rounds empty
      the queue. \<open>Recovery\<close>: after any history, a clean start and enough rounds bring every task to
      rest. \<open>Fault_Paths\<close>: two failures after which the code does not do what it means to.

  How the proofs are organised. Clients of the Store are verified inside the locale \<open>task_store\<close>, once
  for both stores; a property is the instance for one store, named \<open>durable_...\<close> where it is about
  SQLite. Loops are functions on lists. The substitution loop need not end: it is a
  \<open>partial_function\<close>, \<open>None\<close> means that the handler never answers, and the properties prove both its
  termination for harmless values and its divergence for a self-referring one. A property about the life
  of the daemon relates any two states of a run, not only its start and its end.

  Bounds and fuel. The JSON parser gets two steps per byte and two more, trimming one per byte, the
  bytes of a string one each; every step but the call of a value from a list consumes a byte, and more
  fuel changes no answer (\<open>json_decode_fuel\<close>, \<open>pstr_fuel\<close>). \<open>claim_loop\<close> has the five rounds of the
  code. Times are instants whose year has four digits (\<open>year_ok\<close>), for which the RFC 3339 text exists.

  Not modelled: sockets, HTTP framing, signals and the printing of the command line; starting, killing
  and waiting for processes and their groups (\<open>internal/execx/pgroup_*.go\<close>), which appear as the
  result of \<open>os\<close>; \<open>Close\<close> of the store and of the audit log, which only release handles; error
  message texts; the difference between a nil and an empty slice in JSON; Unicode in \<open>ToLower\<close> and
  \<open>Fields\<close> beyond white space; the order SQL leaves open among equal keys, taken as table order;
  \<open>Depth\<close> never fails, and a commit that takes effect never reports an error (the contract
  \<open>faulty_store\<close> would allow it; a claim whose read after the UPDATE fails is modelled); the chmod
  after a token file is written, whose error the code ignores, succeeds; as one operation of the store
  \<open>DrainOutbox\<close> has one environment for all its rows (\<open>Outbox\<close> proves its properties for one per row). In \<open>Lifecycle\<close> requests and rounds do not
  overlap; they do in \<open>Interleave\<close>, where a call of the store is one step (the two statements of
  a claim are split in \<open>Claim_Race\<close>), a request that touches no task is one step, the catalog is
  the one loaded at the start, and the two lookups by which the loser of a race for a key finds the
  winner are assumed to succeed: without that, \<open>canceled_loser_revived\<close> is a counterexample.
\<close>

end
